(* ===== verification/Prelude.thy ===== *)
theory Prelude
  imports Main
begin

text \<open>
  Shared vocabulary of the development.

  A Rust function that can fail and that reads or changes state is a HOL function from the
  state to a pair of a \<open>Result\<close> and the next state: the state reached before an error is kept,
  exactly as the effects before a \<open>?\<close> are kept by the program.  \<open>bind_eff\<close> is the \<open>?\<close>
  operator followed by the rest of the function; \<open>handle\<close> is a \<open>match\<close> on the \<open>Result\<close>.

  The second half is a small calculus for the two kinds of facts proved about such functions:
  elimination rules that read off the steps of a successful run, and the locale \<open>frame\<close>, which
  shows once that every way of composing functions keeps a reflexive and transitive relation
  between the state before and the state after.
\<close>

section \<open>Results and effects\<close>

type_synonym ('s, 'e, 'a) eff = "'s \<Rightarrow> ('e + 'a) \<times> 's"

definition ret :: "'a \<Rightarrow> ('s, 'e, 'a) eff" where
  "ret x = (\<lambda>s. (Inr x, s))"

definition throw :: "'e \<Rightarrow> ('s, 'e, 'a) eff" where
  "throw e = (\<lambda>s. (Inl e, s))"

definition bind_eff :: "('s, 'e, 'a) eff \<Rightarrow> ('a \<Rightarrow> ('s, 'e, 'b) eff) \<Rightarrow> ('s, 'e, 'b) eff" where
  "bind_eff m f = (\<lambda>s. case m s of (Inl e, s') \<Rightarrow> (Inl e, s') | (Inr x, s') \<Rightarrow> f x s')"

definition handle :: "('s, 'e, 'a) eff \<Rightarrow> ('e + 'a \<Rightarrow> ('s, 'f, 'b) eff) \<Rightarrow> ('s, 'f, 'b) eff" where
  "handle m f = (\<lambda>s. case m s of (r, s') \<Rightarrow> f r s')"

definition map_err :: "('e \<Rightarrow> 'f) \<Rightarrow> ('s, 'e, 'a) eff \<Rightarrow> ('s, 'f, 'a) eff" where
  "map_err g m = (\<lambda>s. case m s of (Inl e, s') \<Rightarrow> (Inl (g e), s') | (Inr x, s') \<Rightarrow> (Inr x, s'))"

definition gets :: "('s \<Rightarrow> 'a) \<Rightarrow> ('s, 'e, 'a) eff" where
  "gets f = (\<lambda>s. (Inr (f s), s))"

definition modify :: "('s \<Rightarrow> 's) \<Rightarrow> ('s, 'e, unit) eff" where
  "modify f = (\<lambda>s. (Inr (), f s))"

definition of_sum :: "'e + 'a \<Rightarrow> ('s, 'e, 'a) eff" where
  "of_sum r = (\<lambda>s. (r, s))"

text \<open>\<open>for x in xs { body(x)?; }\<close>\<close>

fun for_each :: "('a \<Rightarrow> ('s, 'e, unit) eff) \<Rightarrow> 'a list \<Rightarrow> ('s, 'e, unit) eff" where
  "for_each f [] = ret ()"
| "for_each f (x # xs) = bind_eff (f x) (\<lambda>_. for_each f xs)"

text \<open>A loop that pushes what each iteration yields: \<open>for x in xs { out.extend(body(x)?) }\<close>.\<close>

fun collect :: "('a \<Rightarrow> ('s, 'e, 'b list) eff) \<Rightarrow> 'a list \<Rightarrow> ('s, 'e, 'b list) eff" where
  "collect f [] = ret []"
| "collect f (x # xs) =
     bind_eff (f x) (\<lambda>ys. bind_eff (collect f xs) (\<lambda>zs. ret (ys @ zs)))"

text \<open>A loop of a pure fallible body over a list: \<open>iter().map(f).collect::<Result<Vec<_>>>()\<close>.\<close>

fun traverse :: "('a \<Rightarrow> 'e + 'b) \<Rightarrow> 'a list \<Rightarrow> 'e + 'b list" where
  "traverse f [] = Inr []"
| "traverse f (x # xs) =
     (case f x of Inl e \<Rightarrow> Inl e
      | Inr y \<Rightarrow> (case traverse f xs of Inl e \<Rightarrow> Inl e | Inr ys \<Rightarrow> Inr (y # ys)))"

definition bind_sum :: "'e + 'a \<Rightarrow> ('a \<Rightarrow> 'e + 'b) \<Rightarrow> 'e + 'b" where
  "bind_sum r f = (case r of Inl e \<Rightarrow> Inl e | Inr x \<Rightarrow> f x)"

definition ok_or :: "'e \<Rightarrow> 'a option \<Rightarrow> 'e + 'a" where
  "ok_or e r = (case r of None \<Rightarrow> Inl e | Some x \<Rightarrow> Inr x)"

definition is_ok :: "'e + 'a \<Rightarrow> bool" where
  "is_ok r = (case r of Inl _ \<Rightarrow> False | Inr _ \<Rightarrow> True)"

lemma is_ok_simps [simp]: "is_ok (Inr x)" "\<not> is_ok (Inl e)"
  by (simp_all add: is_ok_def)

lemma is_ok_iff: "is_ok r \<longleftrightarrow> (\<exists>x. r = Inr x)"
  by (cases r) simp_all

lemma bind_sum_simps [simp]: "bind_sum (Inl e) f = Inl e" "bind_sum (Inr x) f = f x"
  by (simp_all add: bind_sum_def)

lemma bind_sum_InrE:
  assumes "bind_sum r f = Inr y"
  obtains x where "r = Inr x" "f x = Inr y"
  using assms by (cases r) auto

lemma bind_sum_Inr_iff: "bind_sum r f = Inr y \<longleftrightarrow> (\<exists>x. r = Inr x \<and> f x = Inr y)"
  by (cases r) simp_all

lemma if_Inl_Inr:
  "(if c then Inl e else r) = Inr x \<longleftrightarrow> \<not> c \<and> r = Inr x"
  "(if c then r else Inl e) = Inr x \<longleftrightarrow> c \<and> r = Inr x"
  by auto

text \<open>Reading the steps of a successful computation of a sum by rewriting.\<close>

lemmas sum_iff = bind_sum_Inr_iff if_Inl_Inr

text \<open>\<open>Result::map_err\<close> on a value.\<close>

definition map_error :: "('e \<Rightarrow> 'f) \<Rightarrow> 'e + 'a \<Rightarrow> 'f + 'a" where
  "map_error f r = map_sum f id r"

lemma map_error_simps [simp]: "map_error f (Inl e) = Inl (f e)" "map_error f (Inr x) = Inr x"
  by (simp_all add: map_error_def)

lemma map_error_Inr [simp]: "map_error f r = Inr x \<longleftrightarrow> r = Inr x"
  by (cases r) simp_all

lemma ok_or_simps [simp]: "ok_or e None = Inl e" "ok_or e (Some x) = Inr x"
  by (simp_all add: ok_or_def)

lemma ok_or_Inr [simp]: "ok_or e r = Inr x \<longleftrightarrow> r = Some x"
  by (cases r) simp_all

section \<open>Running a composition\<close>

named_theorems eff_run \<open>evaluation of the effect combinators at a state\<close>

lemma ret_run [eff_run, simp]: "ret x s = (Inr x, s)"
  by (simp add: ret_def)

lemma throw_run [eff_run, simp]: "throw e s = (Inl e, s)"
  by (simp add: throw_def)

lemma gets_run [eff_run, simp]: "gets f s = (Inr (f s), s)"
  by (simp add: gets_def)

lemma modify_run [eff_run, simp]: "modify f s = (Inr (), f s)"
  by (simp add: modify_def)

lemma of_sum_run [eff_run, simp]: "of_sum r s = (r, s)"
  by (simp add: of_sum_def)

lemma bind_eff_Inr [eff_run]: "m s = (Inr x, s') \<Longrightarrow> bind_eff m f s = f x s'"
  by (simp add: bind_eff_def)

lemma bind_eff_Inl [eff_run]: "m s = (Inl e, s') \<Longrightarrow> bind_eff m f s = (Inl e, s')"
  by (simp add: bind_eff_def)

lemma handle_run [eff_run]: "m s = (r, s') \<Longrightarrow> handle m f s = f r s'"
  by (simp add: handle_def)

lemma map_err_Inr [eff_run]: "m s = (Inr x, s') \<Longrightarrow> map_err g m s = (Inr x, s')"
  by (simp add: map_err_def)

lemma map_err_Inl [eff_run]: "m s = (Inl e, s') \<Longrightarrow> map_err g m s = (Inl (g e), s')"
  by (simp add: map_err_def)

lemma bind_eff_ret [simp]: "bind_eff (ret x) f = f x"
  by (simp add: bind_eff_def ret_def)

lemma bind_eff_throw [simp]: "bind_eff (throw e) f = throw e"
  by (simp add: bind_eff_def throw_def)

lemma bind_eff_gets [simp]: "bind_eff (gets g) f s = f (g s) s"
  by (simp add: bind_eff_def gets_def)

lemma bind_eff_modify [simp]: "bind_eff (modify g) f s = f () (g s)"
  by (simp add: bind_eff_def modify_def)

lemma bind_eff_assoc: "bind_eff (bind_eff m f) g = bind_eff m (\<lambda>x. bind_eff (f x) g)"
  by (auto simp: bind_eff_def split: prod.splits sum.splits)

lemma bind_eff_right_ret: "bind_eff m ret = m"
  by (auto simp: bind_eff_def fun_eq_iff split: prod.splits sum.splits)

text \<open>The steps of a successful run.\<close>

lemma bind_eff_InrE:
  assumes "bind_eff m f s = (Inr y, s'')"
  obtains x s' where "m s = (Inr x, s')" "f x s' = (Inr y, s'')"
  using assms by (auto simp: bind_eff_def split: prod.splits sum.splits)

lemma bind_eff_cases:
  assumes "bind_eff m f s = (r, s'')"
  obtains (stop) e where "m s = (Inl e, s'')" "r = Inl e"
    | (go) x s' where "m s = (Inr x, s')" "f x s' = (r, s'')"
  using assms by (auto simp: bind_eff_def split: prod.splits sum.splits)

lemma handleE:
  assumes "handle m f s = (r, s'')"
  obtains q s' where "m s = (q, s')" "f q s' = (r, s'')"
  using assms by (auto simp: handle_def split: prod.splits)

lemma map_err_InrE:
  assumes "map_err g m s = (Inr y, s')"
  shows "m s = (Inr y, s')"
  using assms by (auto simp: map_err_def split: prod.splits sum.splits)

lemma ret_eq [simp]: "ret x s = (r, s') \<longleftrightarrow> r = Inr x \<and> s' = s"
  by auto

lemma throw_eq [simp]: "throw e s = (r, s') \<longleftrightarrow> r = Inl e \<and> s' = s"
  by auto

lemma if_throw_Inr:
  "(if c then throw e else m) s = (Inr x, s') \<longleftrightarrow> \<not> c \<and> m s = (Inr x, s')"
  "(if c then m else throw e) s = (Inr x, s') \<longleftrightarrow> c \<and> m s = (Inr x, s')"
  by auto

lemma bind_eff_Inr_iff:
  "bind_eff m f s = (Inr y, s'') \<longleftrightarrow> (\<exists>x s'. m s = (Inr x, s') \<and> f x s' = (Inr y, s''))"
  by (auto elim: bind_eff_InrE simp: bind_eff_Inr)

lemma map_err_Inr_iff: "map_err g m s = (Inr y, s') \<longleftrightarrow> m s = (Inr y, s')"
  by (auto dest: map_err_InrE simp: map_err_Inr)

text \<open>Reading the steps of a successful run by rewriting.\<close>

lemmas run_iff = bind_eff_Inr_iff map_err_Inr_iff if_throw_Inr

section \<open>Frames: relations kept by every composition\<close>

definition keeps :: "('s \<Rightarrow> 's \<Rightarrow> bool) \<Rightarrow> ('s, 'e, 'a) eff \<Rightarrow> bool" where
  "keeps R m \<longleftrightarrow> (\<forall>s. R s (snd (m s)))"

lemma keepsI: "(\<And>s r s'. m s = (r, s') \<Longrightarrow> R s s') \<Longrightarrow> keeps R m"
  unfolding keeps_def by (metis prod.collapse)

lemma keepsD: "keeps R m \<Longrightarrow> m s = (r, s') \<Longrightarrow> R s s'"
  unfolding keeps_def by (metis snd_conv)

lemma keeps_mono: "keeps R m \<Longrightarrow> (\<And>s s'. R s s' \<Longrightarrow> Q s s') \<Longrightarrow> keeps Q m"
  by (simp add: keeps_def)

lemma keeps_conj: "keeps (\<lambda>s s'. R s s' \<and> Q s s') m \<longleftrightarrow> keeps R m \<and> keeps Q m"
  by (auto simp: keeps_def)

text \<open>The same, of successful runs only: what a function that propagates errors has established.\<close>

definition yields :: "('s \<Rightarrow> 's \<Rightarrow> bool) \<Rightarrow> ('s, 'e, 'a) eff \<Rightarrow> bool" where
  "yields R m \<longleftrightarrow> (\<forall>s x s'. m s = (Inr x, s') \<longrightarrow> R s s')"

lemma yieldsI: "(\<And>s x s'. m s = (Inr x, s') \<Longrightarrow> R s s') \<Longrightarrow> yields R m"
  by (simp add: yields_def)

lemma yieldsD: "yields R m \<Longrightarrow> m s = (Inr x, s') \<Longrightarrow> R s s'"
  by (simp add: yields_def)

lemma keeps_yields: "keeps R m \<Longrightarrow> yields R m"
  by (auto intro: yieldsI dest: keepsD)

locale frame =
  fixes R :: "'s \<Rightarrow> 's \<Rightarrow> bool"
  assumes refl_R: "R s s"
    and trans_R: "R s t \<Longrightarrow> R t u \<Longrightarrow> R s u"
begin

lemma keeps_ret: "keeps R (ret x)"
  by (simp add: keeps_def refl_R)

lemma keeps_throw: "keeps R (throw e)"
  by (simp add: keeps_def refl_R)

lemma keeps_gets: "keeps R (gets f)"
  by (simp add: keeps_def refl_R)

lemma keeps_of_sum: "keeps R (of_sum r)"
  by (simp add: keeps_def refl_R)

lemma keeps_modify: "(\<And>s. R s (f s)) \<Longrightarrow> keeps R (modify f)"
  by (simp add: keeps_def)

lemma keeps_bind: "keeps R m \<Longrightarrow> (\<And>x. keeps R (f x)) \<Longrightarrow> keeps R (bind_eff m f)"
  by (rule keepsI) (auto elim!: bind_eff_cases dest: keepsD intro: trans_R)

lemma keeps_bind_where:
  assumes "keeps R m" "\<And>s x s'. m s = (Inr x, s') \<Longrightarrow> keeps R (f x)"
  shows "keeps R (bind_eff m f)"
proof (rule keepsI)
  fix s r s'' assume "bind_eff m f s = (r, s'')"
  then show "R s s''"
  proof (cases rule: bind_eff_cases)
    case (stop e)
    then show ?thesis using assms(1) by (blast dest: keepsD)
  next
    case (go x s')
    then show ?thesis using assms by (blast dest: keepsD intro: trans_R)
  qed
qed

lemma keeps_handle: "keeps R m \<Longrightarrow> (\<And>r. keeps R (f r)) \<Longrightarrow> keeps R (handle m f)"
  by (rule keepsI) (auto elim!: handleE dest: keepsD intro: trans_R)

lemma keeps_map_err: "keeps R m \<Longrightarrow> keeps R (map_err g m)"
  by (auto simp: keeps_def map_err_def split: prod.splits sum.splits) (metis snd_conv)+

lemma keeps_for_each: "(\<And>x. keeps R (f x)) \<Longrightarrow> keeps R (for_each f xs)"
  by (induction xs) (auto intro: keeps_ret keeps_bind)

lemma keeps_collect: "(\<And>x. keeps R (f x)) \<Longrightarrow> keeps R (collect f xs)"
  by (induction xs) (auto intro: keeps_ret keeps_bind)

lemma keeps_if: "(b \<Longrightarrow> keeps R m) \<Longrightarrow> (\<not> b \<Longrightarrow> keeps R n) \<Longrightarrow> keeps R (if b then m else n)"
  by simp

lemma keeps_option:
  "keeps R m \<Longrightarrow> (\<And>x. keeps R (f x)) \<Longrightarrow> keeps R (case r of None \<Rightarrow> m | Some x \<Rightarrow> f x)"
  by (cases r) simp_all

lemma keeps_sum:
  "(\<And>e. keeps R (f e)) \<Longrightarrow> (\<And>x. keeps R (g x)) \<Longrightarrow>
   keeps R (case r of Inl e \<Rightarrow> f e | Inr x \<Rightarrow> g x)"
  by (cases r) simp_all

lemma keeps_prod: "(\<And>x y. keeps R (f x y)) \<Longrightarrow> keeps R (case p of (x, y) \<Rightarrow> f x y)"
  by (cases p) simp

text \<open>What a run of \<open>collect\<close> gathers: the output of every iteration, and nothing else.\<close>

lemma collect_mem:
  assumes f: "\<And>x. keeps R (f x)" and "collect f xs s = (Inr ys, s')" "x \<in> set xs"
  shows "\<exists>s1 zs s2. f x s1 = (Inr zs, s2) \<and> set zs \<subseteq> set ys \<and> R s s1"
  using assms(2,3)
proof (induction xs arbitrary: s ys)
  case (Cons a xs)
  from Cons.prems(1) obtain us s1 vs where
    h: "f a s = (Inr us, s1)" "collect f xs s1 = (Inr vs, s')" "ys = us @ vs"
    by (auto elim!: bind_eff_InrE)
  have g: "R s s1" by (rule keepsD [OF f h(1)])
  show ?case
  proof (cases "x = a")
    case True
    with h show ?thesis by (auto intro: refl_R)
  next
    case False
    with Cons.prems(2) have "x \<in> set xs" by simp
    from Cons.IH [OF h(2) this] show ?thesis using h(3) g by (auto intro: trans_R)
  qed
qed simp

lemma collect_from:
  assumes f: "\<And>x. keeps R (f x)" and "collect f xs s = (Inr ys, s')" "y \<in> set ys"
  shows "\<exists>x s1 zs s2. x \<in> set xs \<and> f x s1 = (Inr zs, s2) \<and> y \<in> set zs \<and> R s s1"
  using assms(2,3)
proof (induction xs arbitrary: s ys)
  case (Cons a xs)
  from Cons.prems(1) obtain us s1 vs where
    h: "f a s = (Inr us, s1)" "collect f xs s1 = (Inr vs, s')" "ys = us @ vs"
    by (auto elim!: bind_eff_InrE)
  have g: "R s s1" by (rule keepsD [OF f h(1)])
  show ?case
  proof (cases "y \<in> set us")
    case True
    with h(1) show ?thesis by (intro exI [of _ a] exI) (auto intro: refl_R)
  next
    case False
    with Cons.prems(2) h(3) have "y \<in> set vs" by simp
    from Cons.IH [OF h(2) this] show ?thesis using g by (meson list.set_intros(2) trans_R)
  qed
qed simp

lemma collect_pure:
  assumes f: "\<And>x. keeps R (f x)" and "collect f xs s = (Inr ys, s')" "R s0 s"
    and g: "\<And>x t zs t'. x \<in> set xs \<Longrightarrow> R s0 t \<Longrightarrow> f x t = (Inr zs, t') \<Longrightarrow> zs = g x"
  shows "ys = concat (map g xs)"
  using assms(2-)
proof (induction xs arbitrary: s ys)
  case (Cons a xs)
  from Cons.prems(1) obtain us s1 vs where
    h: "f a s = (Inr us, s1)" "collect f xs s1 = (Inr vs, s')" "ys = us @ vs"
    by (auto elim!: bind_eff_InrE)
  have "R s0 s1" using Cons.prems(2) keepsD [OF f h(1)] by (rule trans_R)
  with Cons.IH [OF h(2)] Cons.prems(3) have "vs = concat (map g xs)" by simp
  moreover have "us = g a" using Cons.prems(2,3) h(1) by simp
  ultimately show ?case using h(3) by simp
qed simp

lemma yields_ret: "yields R (ret x)"
  by (simp add: yields_def refl_R)

lemma yields_throw: "yields R (throw e)"
  by (simp add: yields_def)

lemma yields_bind: "yields R m \<Longrightarrow> (\<And>x. yields R (f x)) \<Longrightarrow> yields R (bind_eff m f)"
  by (rule yieldsI) (auto elim!: bind_eff_InrE dest: yieldsD intro: trans_R)

lemma yields_map_err: "yields R m \<Longrightarrow> yields R (map_err g m)"
  by (rule yieldsI) (auto dest!: map_err_InrE dest: yieldsD)

lemma yields_for_each: "(\<And>x. yields R (f x)) \<Longrightarrow> yields R (for_each f xs)"
  by (induction xs) (auto intro: yields_ret yields_bind)

lemma yields_of_sum: "yields R (of_sum r)"
  by (simp add: yields_def of_sum_def refl_R)

lemma yields_if: "(b \<Longrightarrow> yields R m) \<Longrightarrow> (\<not> b \<Longrightarrow> yields R n) \<Longrightarrow> yields R (if b then m else n)"
  by simp

lemma yields_option:
  "yields R m \<Longrightarrow> (\<And>x. yields R (f x)) \<Longrightarrow> yields R (case r of None \<Rightarrow> m | Some x \<Rightarrow> f x)"
  by (cases r) simp_all

lemma yields_sum:
  "(\<And>e. yields R (f e)) \<Longrightarrow> (\<And>x. yields R (g x)) \<Longrightarrow>
   yields R (case r of Inl e \<Rightarrow> f e | Inr x \<Rightarrow> g x)"
  by (cases r) simp_all

lemma yields_prod: "(\<And>x y. yields R (f x y)) \<Longrightarrow> yields R (case p of (x, y) \<Rightarrow> f x y)"
  by (cases p) simp

text \<open>A handler that turns errors into errors.\<close>

lemma yields_handle:
  assumes "yields R m" "\<And>x. yields R (f (Inr x))" "\<And>e s y s'. f (Inl e) s \<noteq> (Inr y, s')"
  shows "yields R (handle m f)"
proof (rule yieldsI)
  fix s y s'' assume "handle m f s = (Inr y, s'')"
  then obtain q s' where h: "m s = (q, s')" "f q s' = (Inr y, s'')" by (rule handleE)
  with assms(3) obtain x where "q = Inr x" by (cases q) auto
  with h assms(1,2) show "R s s''" by (auto dest: yieldsD intro: trans_R)
qed

lemmas yields_rules = yields_ret yields_throw yields_bind yields_map_err yields_for_each
  yields_of_sum yields_if yields_option yields_sum yields_prod

lemmas keeps_rules =
  keeps_ret keeps_throw keeps_gets keeps_of_sum keeps_bind keeps_handle keeps_map_err
  keeps_for_each keeps_collect keeps_if keeps_option keeps_sum keeps_prod

end

section \<open>Lists and sums\<close>

lemma traverse_Inr_iff: "traverse f xs = Inr ys \<longleftrightarrow> list_all2 (\<lambda>x y. f x = Inr y) xs ys"
proof (induction xs arbitrary: ys)
  case (Cons x xs)
  show ?case
    by (cases "f x"; cases "traverse f xs") (auto simp: list_all2_Cons1 Cons.IH [symmetric])
qed auto

lemma traverse_map: "(\<And>x. x \<in> set xs \<Longrightarrow> f (g x) = Inr (h x)) \<Longrightarrow> traverse f (map g xs) = Inr (map h xs)"
  by (induction xs) auto

lemma traverse_Inr_set:
  assumes "traverse f xs = Inr ys"
  shows "y \<in> set ys \<longleftrightarrow> (\<exists>x \<in> set xs. f x = Inr y)"
  using assms
proof (induction xs arbitrary: ys)
  case (Cons x xs)
  then show ?case by (auto split: sum.splits)
qed auto

end
