(* ===== verification/Utf8.thy ===== *)
theory Utf8
  imports Rust_Std
begin

text \<open>
  UTF-8 as Rust's standard library decodes it: \<open>utf8_step\<close> is one round of \<open>Utf8Chunks\<close>
  (a scalar value, or one maximal invalid sequence), \<open>utf8_lossy\<close> is \<open>String::from_utf8_lossy\<close>
  read as code points, \<open>from_utf8\<close> is \<open>std::str::from_utf8\<close>.
\<close>

definition is_cont :: "byte \<Rightarrow> bool" where
  "is_cont b \<longleftrightarrow> 0x80 \<le> b \<and> b \<le> 0xBF"

definition cont_bits :: "byte \<Rightarrow> nat" where
  "cont_bits b = unat b - 0x80"

text \<open>The bytes that may follow a three-byte and a four-byte lead.\<close>

definition second_of_three :: "byte \<Rightarrow> byte \<Rightarrow> bool" where
  "second_of_three b c \<longleftrightarrow>
     b = 0xE0 \<and> 0xA0 \<le> c \<and> c \<le> 0xBF \<or>
     0xE1 \<le> b \<and> b \<le> 0xEC \<and> is_cont c \<or>
     b = 0xED \<and> 0x80 \<le> c \<and> c \<le> 0x9F \<or>
     0xEE \<le> b \<and> b \<le> 0xEF \<and> is_cont c"

definition second_of_four :: "byte \<Rightarrow> byte \<Rightarrow> bool" where
  "second_of_four b c \<longleftrightarrow>
     b = 0xF0 \<and> 0x90 \<le> c \<and> c \<le> 0xBF \<or>
     0xF1 \<le> b \<and> b \<le> 0xF3 \<and> is_cont c \<or>
     b = 0xF4 \<and> 0x80 \<le> c \<and> c \<le> 0x8F"

text \<open>
  One step at a lead byte: \<open>Some\<close> a scalar value, or \<open>None\<close> for an invalid sequence, with the
  bytes that are left.  An invalid sequence ends before the byte that broke it.
\<close>

definition utf8_step :: "byte \<Rightarrow> bytes \<Rightarrow> nat option \<times> bytes" where
  "utf8_step b bs =
    (if b < 0x80 then (Some (unat b), bs)
     else if 0xC2 \<le> b \<and> b \<le> 0xDF then
       (case bs of
          c # r \<Rightarrow> if is_cont c then (Some ((unat b - 0xC0) * 64 + cont_bits c), r) else (None, bs)
        | [] \<Rightarrow> (None, bs))
     else if 0xE0 \<le> b \<and> b \<le> 0xEF then
       (case bs of
          c # r \<Rightarrow>
            if second_of_three b c then
              (case r of
                 d # r' \<Rightarrow>
                   if is_cont d
                   then (Some (((unat b - 0xE0) * 64 + cont_bits c) * 64 + cont_bits d), r')
                   else (None, r)
               | [] \<Rightarrow> (None, r))
            else (None, bs)
        | [] \<Rightarrow> (None, bs))
     else if 0xF0 \<le> b \<and> b \<le> 0xF4 then
       (case bs of
          c # r \<Rightarrow>
            if second_of_four b c then
              (case r of
                 d # r' \<Rightarrow>
                   if is_cont d then
                     (case r' of
                        e # r'' \<Rightarrow>
                          if is_cont e
                          then (Some ((((unat b - 0xF0) * 64 + cont_bits c) * 64 + cont_bits d) * 64
                                 + cont_bits e), r'')
                          else (None, r')
                      | [] \<Rightarrow> (None, r'))
                   else (None, r)
               | [] \<Rightarrow> (None, r))
            else (None, bs)
        | [] \<Rightarrow> (None, bs))
     else (None, bs))"

lemma utf8_step_length: "length (snd (utf8_step b bs)) \<le> length bs"
  by (auto simp: utf8_step_def split: list.split)

function utf8_lossy :: "bytes \<Rightarrow> nat list" where
  "utf8_lossy [] = []"
| "utf8_lossy (b # bs) =
     (case fst (utf8_step b bs) of None \<Rightarrow> 0xFFFD | Some c \<Rightarrow> c)
       # utf8_lossy (snd (utf8_step b bs))"
  by pat_completeness auto
termination
  by (relation "measure length") (auto simp: utf8_step_length less_Suc_eq_le)

function utf8_valid :: "bytes \<Rightarrow> bool" where
  "utf8_valid [] = True"
| "utf8_valid (b # bs) =
     (fst (utf8_step b bs) \<noteq> None \<and> utf8_valid (snd (utf8_step b bs)))"
  by pat_completeness auto
termination
  by (relation "measure length") (auto simp: utf8_step_length less_Suc_eq_le)

definition from_utf8 :: "bytes \<Rightarrow> string option" where
  "from_utf8 bs = (if utf8_valid bs then Some (of_bytes bs) else None)"

text \<open>\<open>str::chars\<close> on a \<open>String\<close>, as code points.\<close>

definition chars :: "string \<Rightarrow> nat list" where
  "chars s = utf8_lossy (as_bytes s)"

text \<open>\<open>char::is_whitespace\<close>: the Unicode \<open>White_Space\<close> property.\<close>

definition is_whitespace :: "nat \<Rightarrow> bool" where
  "is_whitespace c \<longleftrightarrow>
     9 \<le> c \<and> c \<le> 13 \<or> c = 32 \<or> c = 0x85 \<or> c = 0xA0 \<or> c = 0x1680 \<or>
     0x2000 \<le> c \<and> c \<le> 0x200A \<or> c = 0x2028 \<or> c = 0x2029 \<or> c = 0x202F \<or> c = 0x205F \<or> c = 0x3000"

text \<open>\<open>s.trim().is_empty()\<close>.\<close>

definition blank :: "string \<Rightarrow> bool" where
  "blank s \<longleftrightarrow> list_all is_whitespace (chars s)"

definition ascii :: "string \<Rightarrow> nat list" where
  "ascii s = map code s"

definition lowercase_code :: "nat \<Rightarrow> nat" where
  "lowercase_code c = (if 65 \<le> c \<and> c \<le> 90 then c + 32 else c)"

lemma from_utf8_Some: "from_utf8 bs = Some s \<longleftrightarrow> utf8_valid bs \<and> bs = as_bytes s"
  unfolding from_utf8_def by (metis as_bytes_of_bytes of_bytes_as_bytes option.inject option.simps(3))

lemma from_utf8_as_bytes: "utf8_valid (as_bytes s) \<Longrightarrow> from_utf8 (as_bytes s) = Some s"
  by (simp add: from_utf8_Some)

text \<open>ASCII text is valid and decodes to its own codes.\<close>

lemma utf8_step_ascii: "b < 0x80 \<Longrightarrow> utf8_step b bs = (Some (unat b), bs)"
  by (simp add: utf8_step_def)

lemma utf8_valid_ascii: "list_all (\<lambda>b. b < 0x80) bs \<Longrightarrow> utf8_valid bs"
  by (induction bs) (simp_all add: utf8_step_ascii)

lemma utf8_lossy_ascii: "list_all (\<lambda>b. b < 0x80) bs \<Longrightarrow> utf8_lossy bs = map unat bs"
  by (induction bs) (simp_all add: utf8_step_ascii)

lemma of_char_less_128: "(of_char c :: byte) < 0x80 \<longleftrightarrow> code c < 128"
  by (simp add: word_less_nat_alt)

lemma utf8_valid_ascii_string: "list_all (\<lambda>c. code c < 128) s \<Longrightarrow> utf8_valid (as_bytes s)"
  by (rule utf8_valid_ascii) (simp add: as_bytes_def list_all_iff of_char_less_128)

lemma chars_ascii: "list_all (\<lambda>c. code c < 128) s \<Longrightarrow> chars s = ascii s"
  by (subst chars_def, subst utf8_lossy_ascii)
     (auto simp: as_bytes_def list_all_iff of_char_less_128 ascii_def)

end
