(* ===== verification/Errors.thy ===== *)
theory Errors
  imports Utf8
begin

text \<open>
  \<open>src/error.rs\<close>, with the two types its variants carry: the key newtype of \<open>artifact.rs\<close>
  (ordered as its derived \<open>Ord\<close>, byte by byte) and \<open>CheckFailure\<close> of \<open>check.rs\<close>.
  \<open>show_error\<close> is the \<open>Display\<close> text of each variant.  A \<open>std::io::Error\<close> is its kind, as far
  as the program looks at it, and its message.
\<close>

datatype artifact_key = ArtifactKey (as_str: string)

instantiation artifact_key :: linorder
begin

definition less_eq_artifact_key :: "artifact_key \<Rightarrow> artifact_key \<Rightarrow> bool" where
  "less_eq_artifact_key a b \<longleftrightarrow> as_str a \<le> as_str b"

definition less_artifact_key :: "artifact_key \<Rightarrow> artifact_key \<Rightarrow> bool" where
  "less_artifact_key a b \<longleftrightarrow> as_str a < as_str b"

instance
  by standard
     (auto simp: less_eq_artifact_key_def less_artifact_key_def intro: artifact_key.expand)

end

record check_failure =
  check_name :: string
  got :: string

datatype io_kind = Not_found | Other_kind

datatype io_error = Io_error (io_kind: io_kind) (io_message: string)

text \<open>\<open>std::io::Error::other\<close>.\<close>

definition io_other :: "string \<Rightarrow> io_error" where
  "io_other message = Io_error Other_kind message"

datatype datastore_error =
    NoCredential string
  | CredentialRejected string nat bool
  | ContentRejected artifact_key check_failure
  | OfflineMiss artifact_key
  | MirrorUnreachable artifact_key string
  | ManualRequired artifact_key string
  | AllSourcesFailed artifact_key "string list"
  | InvalidKey string
  | Mirror string
  | Config string
  | FillUnavailable string
  | TransferLimit
  | Manifest_error string
  | Io io_error
  | Http

definition show_error :: "datastore_error \<Rightarrow> string" where
  "show_error e = (case e of
     NoCredential host \<Rightarrow> ''no credential configured for host '' @ host
   | CredentialRejected host status looks_expired \<Rightarrow>
       ''credential rejected by '' @ host @ '' (HTTP '' @ decimal status @ '')''
         @ (if looks_expired then ''; it looks expired'' else '''')
   | ContentRejected key failure \<Rightarrow>
       ''content rejected for '' @ as_str key @ '': failed '' @ check_name failure
         @ ''; got '' @ got failure
   | OfflineMiss key \<Rightarrow> ''offline, and '' @ as_str key @ '' is not in the local cache''
   | MirrorUnreachable key reason \<Rightarrow>
       as_str key @ '' is not cached and the mirror is unreachable ('' @ reason
         @ ''); set STARFIELD_ALLOW_UPSTREAM=1 to fetch from the archive''
   | ManualRequired key instructions \<Rightarrow>
       as_str key @ '' is not cached and has no sources; obtain it manually: '' @ instructions
   | AllSourcesFailed key attempts \<Rightarrow>
       ''all '' @ decimal (length attempts) @ '' sources failed for '' @ as_str key @ '': ''
         @ join_with ''; '' attempts
   | InvalidKey message \<Rightarrow> ''invalid artifact key: '' @ message
   | Mirror message \<Rightarrow> ''mirror error: '' @ message
   | Config message \<Rightarrow> ''configuration error: '' @ message
   | FillUnavailable message \<Rightarrow> ''cold fill unavailable: '' @ message
   | TransferLimit \<Rightarrow> ''artifact transfer exceeds the reserved fill byte limit''
   | Manifest_error message \<Rightarrow> ''manifest error: '' @ message
   | Io e \<Rightarrow> io_message e
   | Http \<Rightarrow> ''HTTP request failed'')"

text \<open>\<open>matches!(error, DatastoreError::X { .. })\<close> for the variants the program matches on.\<close>

fun is_content_rejected :: "datastore_error \<Rightarrow> bool" where
  "is_content_rejected (ContentRejected _ _) = True"
| "is_content_rejected _ = False"

fun is_credential_error :: "datastore_error \<Rightarrow> bool" where
  "is_credential_error (NoCredential _) = True"
| "is_credential_error (CredentialRejected _ _ _) = True"
| "is_credential_error _ = False"

end
