(* ===== verification/Keys.thy ===== *)
theory Keys
  imports Errors
begin

text \<open>
  \<open>src/artifact.rs\<close> up to the \<open>Artifact\<close> struct (theory \<open>Artifact\<close>): the key grammar, the
  mirror path of a key, sources and provenance.
\<close>

section \<open>Keys\<close>

definition key_component_ok :: "string \<Rightarrow> bool" where
  "key_component_ok part \<longleftrightarrow>
     \<not> (part = [] \<or> part = ''.'' \<or> part = ''..'' \<or> 240 < length part)"

definition key_char_ok :: "char \<Rightarrow> bool" where
  "key_char_ok c \<longleftrightarrow> is_ascii_alphanumeric c \<or> c \<in> set ''-._/''"

definition artifact_key_new :: "string \<Rightarrow> datastore_error + artifact_key" where
  "artifact_key_new key =
     (if key = [] \<or> 1024 < length key
         \<or> list_ex (\<lambda>part. part = [] \<or> part = ''.'' \<or> part = ''..'' \<or> 240 < length part)
             (split_on (CHR ''/'') key)
         \<or> \<not> list_all key_char_ok key
      then Inl (InvalidKey ''expected nonempty safe path components'')
      else Inr (ArtifactKey key))"

text \<open>What the constructor guarantees of every \<open>ArtifactKey\<close>.\<close>

definition valid_key :: "artifact_key \<Rightarrow> bool" where
  "valid_key k \<longleftrightarrow>
     as_str k \<noteq> [] \<and> length (as_str k) \<le> 1024
     \<and> (\<forall>part \<in> set (split_on (CHR ''/'') (as_str k)). key_component_ok part)
     \<and> (\<forall>c \<in> set (as_str k). key_char_ok c)"

lemma artifact_key_new_Inr:
  "artifact_key_new s = Inr k \<longleftrightarrow> k = ArtifactKey s \<and> valid_key (ArtifactKey s)"
  by (auto simp: artifact_key_new_def valid_key_def key_component_ok_def list_ex_iff list_all_iff)

lemma artifact_key_new_valid: "valid_key k \<Longrightarrow> artifact_key_new (as_str k) = Inr k"
  by (simp add: artifact_key_new_Inr)

lemma artifact_key_new_Inl:
  "artifact_key_new s = Inl e \<Longrightarrow>
     e = InvalidKey ''expected nonempty safe path components'' \<and> \<not> valid_key (ArtifactKey s)"
  by (auto simp: artifact_key_new_def valid_key_def key_component_ok_def list_ex_iff list_all_iff
      split: if_splits)

lemma key_char_ascii: "key_char_ok c \<Longrightarrow> code c < 128"
  by (auto simp: key_char_ok_def is_ascii_alphanumeric_def is_ascii_digit_def)

lemma valid_key_ascii: "valid_key k \<Longrightarrow> list_all (\<lambda>c. code c < 128) (as_str k)"
  by (auto simp: valid_key_def list_all_iff key_char_ascii)

lemma key_char_not_ok [simp]:
  "\<not> key_char_ok (CHR 0x5C)" "\<not> key_char_ok (CHR ''?'')" "\<not> key_char_ok (CHR '':'')"
  "\<not> key_char_ok (CHR ''%'')" "\<not> key_char_ok (CHR ''@'')" "\<not> key_char_ok (CHR 0x00)"
  by (simp_all add: key_char_ok_def is_ascii_alphanumeric_def is_ascii_digit_def)

lemma valid_key_no_backslash: "valid_key k \<Longrightarrow> CHR 0x5C \<notin> set (as_str k)"
  by (auto simp: valid_key_def)

definition mirror_path :: "artifact_key \<Rightarrow> string \<Rightarrow> string" where
  "mirror_path k pre =
     (let p = trim_matches (CHR ''/'') pre in
      if p = [] then as_str k else p @ ''/'' @ as_str k)"

text \<open>For one prefix, distinct keys have distinct object names.\<close>

lemma mirror_path_inject: "mirror_path j pre = mirror_path k pre \<longleftrightarrow> j = k"
  by (cases j; cases k) (simp add: mirror_path_def Let_def)

section \<open>Sources and provenance\<close>

record source =
  url :: string
  trust_redirects :: bool

definition source_new :: "string \<Rightarrow> source" where
  "source_new u = \<lparr>url = u, trust_redirects = False\<rparr>"

definition trusting_redirects :: "source \<Rightarrow> source" where
  "trusting_redirects s = s\<lparr>trust_redirects := True\<rparr>"

record provenance =
  description :: string
  license :: string
  citation :: "string option"

definition provenance_default :: provenance where
  "provenance_default = \<lparr>description = '''', license = '''', citation = None\<rparr>"

datatype freshness = Immutable

end
