(* ===== verification/Files.thy ===== *)
theory Files
  imports Errors "HOL-Library.AList"
begin

text \<open>
  The world a store operation runs in.  \<open>files\<close> is the tree below the cache root (POSIX: a path
  is a directory or a regular file), \<open>steps\<close> counts system calls, and the remaining fields are
  the environment: \<open>fault n\<close> says that the \<open>n\<close>-th call fails and with what message (never as
  \<open>NotFound\<close>, which is reported of absent paths only), \<open>blind n\<close> that a
  \<open>Path::is_file\<close>/\<open>is_dir\<close> probe (which turns every error into \<open>false\<close>) fails at that point,
  \<open>clock n\<close> is the wall clock and \<open>torn n\<close> is how much of a buffer had reached the file when a
  failing write gave up.  Theorems that do not mention them hold for every schedule of
  failures.  \<open>held\<close> and \<open>lock_log\<close> record the advisory locks; \<open>budget\<close> is the content of the
  \<open>Cell<u64>\<close> a limited fill carries; \<open>net\<close> answers HTTP requests, given those sent before, and \<open>sent\<close>
  records them.

  A \<open>NamedTempFile\<close> is owned by the one function that created it and is never visited by the
  index or blob scans, so it is the value of its contents; \<open>persist\<close> moves it into the tree.
\<close>

section \<open>The world\<close>

type_synonym path = "string list"

datatype node = Dir | File bytes

datatype auth = Basic_auth string string | Bearer_auth string

record request =
  req_url :: string
  req_auth :: "auth option"

record response =
  status :: nat
  location_header :: "string option"
  etag_header :: "string option"
  body :: "bytes list"
  body_fails :: bool

record world =
  files :: "(path \<times> node) list"
  steps :: nat
  fault :: "nat \<Rightarrow> string option"
  blind :: "nat \<Rightarrow> bool"
  clock :: "nat \<Rightarrow> u64"
  torn :: "nat \<Rightarrow> nat"
  held :: "string list"
  lock_log :: "(string \<times> string list) list"
  budget :: u64
  net :: "request list \<Rightarrow> request \<Rightarrow> response option"
  sent :: "request list"

type_synonym 'a io = "(world, io_error, 'a) eff"
type_synonym 'a action = "(world, datastore_error, 'a) eff"

definition node_at :: "world \<Rightarrow> path \<Rightarrow> node option" where
  "node_at w p = (if p = [] then Some Dir else map_of (files w) p)"

definition file_at :: "world \<Rightarrow> path \<Rightarrow> bytes option" where
  "file_at w p = (case node_at w p of Some (File c) \<Rightarrow> Some c | _ \<Rightarrow> None)"

lemma file_at_Some: "file_at w p = Some c \<longleftrightarrow> node_at w p = Some (File c)"
  by (auto simp: file_at_def split: option.splits node.splits)

lemma file_at_None: "file_at w p = None \<longleftrightarrow> (\<forall>c. node_at w p \<noteq> Some (File c))"
  by (auto simp: file_at_def split: option.splits node.splits)

text \<open>No call and no probe fails.\<close>

definition reliable :: "world \<Rightarrow> bool" where
  "reliable w \<longleftrightarrow> fault w = (\<lambda>_. None) \<and> blind w = (\<lambda>_. False)"

text \<open>No \<open>is_file\<close>/\<open>is_dir\<close> probe is misled by an error.\<close>

definition sighted :: "world \<Rightarrow> bool" where
  "sighted w \<longleftrightarrow> blind w = (\<lambda>_. False)"

lemma reliable_sighted: "reliable w \<Longrightarrow> sighted w"
  by (simp add: reliable_def sighted_def)

section \<open>System calls\<close>

definition next_step :: "world \<Rightarrow> world" where
  "next_step w = w\<lparr>steps := Suc (steps w)\<rparr>"

definition syscall :: "unit io" where
  "syscall w = (case fault w (steps w) of None \<Rightarrow> Inr () | Some e \<Rightarrow> Inl (io_other e), next_step w)"

definition probe :: "(world \<Rightarrow> bool) \<Rightarrow> (world, 'e, bool) eff" where
  "probe f w = (Inr (\<not> blind w (steps w) \<and> f w), next_step w)"

definition not_found_error :: io_error where
  "not_found_error = Io_error Not_found ''No such file or directory''"

definition not_a_directory :: io_error where
  "not_a_directory = Io_error Other_kind ''Not a directory''"

definition is_a_directory :: io_error where
  "is_a_directory = Io_error Other_kind ''Is a directory''"

text \<open>Why an absent path cannot be opened: a missing entry, or a file where a directory is needed.\<close>

definition missing :: "world \<Rightarrow> path \<Rightarrow> io_error" where
  "missing w p =
     (if list_ex (\<lambda>n. file_at w (take n p) \<noteq> None) [0..<length p]
      then not_a_directory else not_found_error)"

definition read_file :: "path \<Rightarrow> bytes io" where
  "read_file p = bind_eff syscall (\<lambda>_ w.
     (case node_at w p of
        Some (File c) \<Rightarrow> (Inr c, w)
      | Some Dir \<Rightarrow> (Inl is_a_directory, w)
      | None \<Rightarrow> (Inl (missing w p), w)))"

definition invalid_utf8 :: io_error where
  "invalid_utf8 = Io_error Other_kind ''stream did not contain valid UTF-8''"

definition read_to_string :: "path \<Rightarrow> string io" where
  "read_to_string p = bind_eff (read_file p) (\<lambda>c. of_sum (ok_or invalid_utf8 (from_utf8 c)))"

definition file_length :: "path \<Rightarrow> u64 io" where
  "file_length p = bind_eff syscall (\<lambda>_ w.
     (case node_at w p of
        Some (File c) \<Rightarrow> (Inr (length c), w)
      | Some Dir \<Rightarrow> (Inr 4096, w)
      | None \<Rightarrow> (Inl (missing w p), w)))"

definition is_file :: "path \<Rightarrow> (world, 'e, bool) eff" where
  "is_file p = probe (\<lambda>w. file_at w p \<noteq> None)"

definition is_dir :: "path \<Rightarrow> (world, 'e, bool) eff" where
  "is_dir p = probe (\<lambda>w. node_at w p = Some Dir)"

definition set_node :: "path \<Rightarrow> node \<Rightarrow> world \<Rightarrow> world" where
  "set_node p n w = w\<lparr>files := AList.update p n (files w)\<rparr>"

definition unset_node :: "path \<Rightarrow> world \<Rightarrow> world" where
  "unset_node p w = w\<lparr>files := AList.delete p (files w)\<rparr>"

definition make_dir :: "path \<Rightarrow> unit io" where
  "make_dir p = bind_eff syscall (\<lambda>_ w.
     (case node_at w p of
        Some Dir \<Rightarrow> (Inr (), w)
      | Some (File c) \<Rightarrow> (Inl not_a_directory, w)
      | None \<Rightarrow>
          if node_at w (butlast p) = Some Dir then (Inr (), set_node p Dir w)
          else (Inl (missing w p), w)))"

definition create_dir_all :: "path \<Rightarrow> unit io" where
  "create_dir_all p = for_each make_dir (map (\<lambda>n. take (Suc n) p) [0..<length p])"

text \<open>\<open>NamedTempFile::persist\<close>: an atomic rename onto \<open>p\<close>, replacing a file that is there.\<close>

definition persist :: "bytes \<Rightarrow> path \<Rightarrow> unit io" where
  "persist c p = bind_eff syscall (\<lambda>_ w.
     (if node_at w p = Some Dir then (Inl is_a_directory, w)
      else if node_at w (butlast p) \<noteq> Some Dir then (Inl (missing w p), w)
      else (Inr (), set_node p (File c) w)))"

definition remove_file :: "path \<Rightarrow> unit io" where
  "remove_file p = bind_eff syscall (\<lambda>_ w.
     (case node_at w p of
        Some (File c) \<Rightarrow> (Inr (), unset_node p w)
      | Some Dir \<Rightarrow> (Inl is_a_directory, w)
      | None \<Rightarrow> (Inl (missing w p), w)))"

definition children :: "world \<Rightarrow> path \<Rightarrow> path list" where
  "children w d = filter (\<lambda>p. p \<noteq> [] \<and> butlast p = d) (map fst (files w))"

definition read_dir :: "path \<Rightarrow> path list io" where
  "read_dir d = bind_eff syscall (\<lambda>_ w.
     (if node_at w d = Some Dir then (Inr (children w d), w) else (Inl (missing w d), w)))"

text \<open>\<open>now_unix\<close> of \<open>layout.rs\<close>; a clock before the epoch reads as 0.\<close>

definition now_unix :: "(world, 'e, u64) eff" where
  "now_unix w = (Inr (clock w (steps w)), next_step w)"

text \<open>
  An exclusive advisory lock: open the lock file, lock it, run the guarded part of the function,
  release on drop whatever its result.
\<close>

definition acquire :: "string \<Rightarrow> unit action" where
  "acquire name = map_err Io (bind_eff syscall (\<lambda>_. bind_eff syscall (\<lambda>_. modify (\<lambda>w.
     w\<lparr>lock_log := lock_log w @ [(name, held w)], held := name # held w\<rparr>))))"

definition release :: "world \<Rightarrow> world" where
  "release w = w\<lparr>held := tl (held w)\<rparr>"

definition with_lock :: "string \<Rightarrow> 'a action \<Rightarrow> 'a action" where
  "with_lock name m = bind_eff (acquire name) (\<lambda>_ w. case m w of (r, w') \<Rightarrow> (r, release w'))"

section \<open>What each call leaves unchanged\<close>

definition same :: "('s \<Rightarrow> 'o) \<Rightarrow> 's \<Rightarrow> 's \<Rightarrow> bool" where
  "same f s t \<longleftrightarrow> f t = f s"

interpretation same: frame "same f" for f :: "'s \<Rightarrow> 'o"
  by unfold_locales (auto simp: same_def)

lemma sameD: "keeps (same f) m \<Longrightarrow> m s = (r, s') \<Longrightarrow> f s' = f s"
  by (auto simp: same_def dest: keepsD)

text \<open>The environment, which no function changes.\<close>

type_synonym environment =
  "(nat \<Rightarrow> string option) \<times> (nat \<Rightarrow> bool) \<times> (nat \<Rightarrow> u64) \<times> (nat \<Rightarrow> nat)
   \<times> (request list \<Rightarrow> request \<Rightarrow> response option)"

definition env :: "world \<Rightarrow> environment" where
  "env w = (fault w, blind w, clock w, torn w, net w)"

lemma reliable_env: "env w' = env w \<Longrightarrow> reliable w' = reliable w"
  by (simp add: env_def reliable_def)

lemma reliable_keep: "reliable w \<Longrightarrow> env w' = env w \<Longrightarrow> reliable w'"
  by (simp add: env_def reliable_def)

lemma sighted_keep: "sighted w \<Longrightarrow> env w' = env w \<Longrightarrow> sighted w'"
  by (simp add: env_def sighted_def)

lemma sighted_env: "env w' = env w \<Longrightarrow> sighted w' = sighted w"
  by (simp add: env_def sighted_def)

definition observer :: "(world \<Rightarrow> 'o) \<Rightarrow> bool" where
  "observer f \<longleftrightarrow> (\<forall>w. f (next_step w) = f w)"

definition tree_observer :: "(world \<Rightarrow> 'o) \<Rightarrow> bool" where
  "tree_observer f \<longleftrightarrow> observer f \<and> (\<forall>w x. f (w\<lparr>files := x\<rparr>) = f w)"

definition lock_observer :: "(world \<Rightarrow> 'o) \<Rightarrow> bool" where
  "lock_observer f \<longleftrightarrow> observer f \<and> (\<forall>w x. f (w\<lparr>lock_log := x\<rparr>) = f w)
     \<and> (\<forall>w x. f (w\<lparr>held := x\<rparr>) = f w)"

named_theorems observers \<open>which fields are which kind of observer\<close>

lemma observer_fields [observers]:
  "observer files" "observer env" "observer held" "observer lock_log" "observer budget"
  "observer sent" "observer fault" "observer blind" "observer clock" "observer torn" "observer net"
  by (simp_all add: observer_def next_step_def env_def)

lemma tree_observer_fields [observers]:
  "tree_observer env" "tree_observer held" "tree_observer lock_log" "tree_observer budget"
  "tree_observer sent" "tree_observer fault" "tree_observer blind"
  by (simp_all add: tree_observer_def observers env_def)

lemma lock_observer_fields [observers]:
  "lock_observer env" "lock_observer files" "lock_observer budget" "lock_observer sent"
  "lock_observer fault" "lock_observer blind"
  by (simp_all add: lock_observer_def observers env_def)

lemma observer_tree: "tree_observer f \<Longrightarrow> observer f"
  by (simp add: tree_observer_def)

lemma observer_lock: "lock_observer f \<Longrightarrow> observer f"
  by (simp add: lock_observer_def)

lemma observer_next [simp]: "observer f \<Longrightarrow> f (next_step w) = f w"
  by (simp add: observer_def)

lemma node_at_next [simp]: "node_at (next_step w) p = node_at w p"
  by (simp add: node_at_def next_step_def)

lemma file_at_next [simp]: "file_at (next_step w) p = file_at w p"
  by (simp add: file_at_def)

lemma files_next [simp]: "files (next_step w) = files w"
  by (simp add: next_step_def)

named_theorems keeps_prims \<open>frame rules of the system calls\<close>

lemma keeps_syscall [keeps_prims]: "observer f \<Longrightarrow> keeps (same f) syscall"
  by (simp add: keeps_def same_def syscall_def)

lemma keeps_probe [keeps_prims]: "observer f \<Longrightarrow> keeps (same f) (probe g)"
  by (simp add: keeps_def same_def probe_def)

lemma keeps_local:
  "keeps (same f) m \<Longrightarrow> (\<And>x w. f (snd (g x w)) = f w) \<Longrightarrow> keeps (same f) (bind_eff m g)"
  by (auto simp: keeps_def same_def bind_eff_def split: prod.splits sum.splits) (metis snd_conv)+

lemma keeps_read_file [keeps_prims]: "observer f \<Longrightarrow> keeps (same f) (read_file p)"
  unfolding read_file_def
  by (rule keeps_local) (auto intro: keeps_prims split: option.split node.split)

lemma keeps_file_length [keeps_prims]: "observer f \<Longrightarrow> keeps (same f) (file_length p)"
  unfolding file_length_def
  by (rule keeps_local) (auto intro: keeps_prims split: option.split node.split)

lemma keeps_read_dir [keeps_prims]: "observer f \<Longrightarrow> keeps (same f) (read_dir p)"
  unfolding read_dir_def by (rule keeps_local) (auto intro: keeps_prims)

lemma keeps_read_to_string [keeps_prims]: "observer f \<Longrightarrow> keeps (same f) (read_to_string p)"
  unfolding read_to_string_def by (intro same.keeps_rules keeps_prims)

lemma keeps_is_file [keeps_prims]: "observer f \<Longrightarrow> keeps (same f) (is_file p)"
  unfolding is_file_def by (rule keeps_probe)

lemma keeps_is_dir [keeps_prims]: "observer f \<Longrightarrow> keeps (same f) (is_dir p)"
  unfolding is_dir_def by (rule keeps_probe)

lemma keeps_now_unix [keeps_prims]: "observer f \<Longrightarrow> keeps (same f) now_unix"
  by (simp add: keeps_def same_def now_unix_def)

lemma tree_observer_set [simp]:
  "tree_observer f \<Longrightarrow> f (set_node p n w) = f w" "tree_observer f \<Longrightarrow> f (unset_node p w) = f w"
  by (simp_all add: tree_observer_def set_node_def unset_node_def)

lemma keeps_make_dir [keeps_prims]: "tree_observer f \<Longrightarrow> keeps (same f) (make_dir p)"
  unfolding make_dir_def
  by (rule keeps_local) (auto intro: keeps_prims observer_tree split: option.split node.split)

lemma keeps_create_dir_all [keeps_prims]: "tree_observer f \<Longrightarrow> keeps (same f) (create_dir_all p)"
  unfolding create_dir_all_def by (intro same.keeps_rules keeps_prims)

lemma keeps_persist [keeps_prims]: "tree_observer f \<Longrightarrow> keeps (same f) (persist c p)"
  unfolding persist_def by (rule keeps_local) (auto intro: keeps_prims observer_tree)

lemma keeps_remove_file [keeps_prims]: "tree_observer f \<Longrightarrow> keeps (same f) (remove_file p)"
  unfolding remove_file_def
  by (rule keeps_local) (auto intro: keeps_prims observer_tree split: option.split node.split)

lemma keeps_acquire [keeps_prims]: "lock_observer f \<Longrightarrow> keeps (same f) (acquire n)"
  unfolding acquire_def
  by (intro same.keeps_rules same.keeps_modify keeps_prims observer_lock)
     (simp_all add: same_def lock_observer_def)

lemma keeps_with_lock [keeps_prims]:
  assumes "lock_observer f" "keeps (same f) m"
  shows "keeps (same f) (with_lock n m)"
  unfolding with_lock_def
proof (rule same.keeps_bind)
  show "keeps (same f) (acquire n)" by (rule keeps_acquire [OF assms(1)])
  show "keeps (same f) (\<lambda>w. case m w of (r, w') \<Rightarrow> (r, release w'))" for x :: unit
    using assms by (auto simp: keeps_def same_def release_def lock_observer_def split: prod.splits)
      (metis snd_conv)
qed

text \<open>Locks are released by the time a guarded function returns.\<close>

lemma with_lock_held:
  assumes "keeps (same held) m"
  shows "keeps (same held) (with_lock n m)"
proof (rule keepsI)
  fix w r w' assume "with_lock n m w = (r, w')"
  then show "same held w w'"
    unfolding with_lock_def
  proof (cases rule: bind_eff_cases)
    case (stop e)
    then show ?thesis
      by (auto simp: acquire_def map_err_def bind_eff_def syscall_def same_def next_step_def
          split: prod.splits sum.splits option.splits)
  next
    case (go x w1)
    from go(1) have "held w1 = n # held w"
      by (auto simp: acquire_def map_err_def bind_eff_def syscall_def next_step_def
          split: prod.splits sum.splits option.splits)
    moreover from go(2) obtain w2 where "m w1 = (r, w2)" "w' = release w2"
      by (auto split: prod.splits)
    ultimately show ?thesis
      using sameD [OF assms] by (simp add: same_def release_def)
  qed
qed

lemma with_lock_InrE:
  assumes "with_lock n m w = (Inr y, w')"
  obtains w1 w2 where "acquire n w = (Inr (), w1)" "m w1 = (Inr y, w2)" "w' = release w2"
  using assms unfolding with_lock_def by (auto elim!: bind_eff_InrE split: prod.splits)

section \<open>What each call does\<close>

lemma node_at_set: "node_at (set_node p n w) q = (if q = p \<and> p \<noteq> [] then Some n else node_at w q)"
  by (simp add: node_at_def set_node_def update_conv)

lemma node_at_unset: "node_at (unset_node p w) q = (if q = p \<and> p \<noteq> [] then None else node_at w q)"
  by (simp add: node_at_def unset_node_def delete_conv)

lemma file_at_set_file:
  "file_at (set_node p (File c) w) q = (if q = p \<and> p \<noteq> [] then Some c else file_at w q)"
  by (simp add: file_at_def node_at_set)

lemma file_at_set_dir:
  "node_at w p = None \<Longrightarrow> file_at (set_node p Dir w) q = file_at w q"
  by (auto simp: file_at_def node_at_set)

lemma file_at_unset:
  "file_at (unset_node p w) q = (if q = p then None else file_at w q)"
  by (auto simp: file_at_def node_at_unset) (simp add: node_at_def)

lemma file_at_root [simp]: "file_at w [] = None"
  by (simp add: file_at_def node_at_def)

lemma reliable_next [simp]: "reliable (next_step w) = reliable w"
  by (rule reliable_env) (simp add: observers)

lemma sighted_next [simp]: "sighted (next_step w) = sighted w"
  by (rule sighted_env) (simp add: observers)

lemma syscall_reliable: "reliable w \<Longrightarrow> syscall w = (Inr (), next_step w)"
  by (simp add: syscall_def reliable_def)

lemma syscall_result: "syscall w = (r, w') \<Longrightarrow> w' = next_step w"
  by (auto simp: syscall_def split: option.splits)

lemma syscall_kind: "syscall w = (Inl e, w') \<Longrightarrow> io_kind e = Other_kind"
  by (auto simp: syscall_def io_other_def split: option.splits)

lemma read_file_InrD: "read_file p w = (Inr c, w') \<Longrightarrow> file_at w p = Some c"
  unfolding read_file_def
  by (auto elim!: bind_eff_InrE simp: file_at_Some dest!: syscall_result
      split: option.splits node.splits)

lemma read_file_not_found:
  "read_file p w = (Inl e, w') \<Longrightarrow> io_kind e = Not_found \<Longrightarrow> file_at w p = None"
  unfolding read_file_def
  by (auto elim!: bind_eff_cases dest: syscall_result syscall_kind
      simp: is_a_directory_def file_at_None split: option.splits node.splits)

lemma read_file_reliable:
  "reliable w \<Longrightarrow> file_at w p = Some c \<Longrightarrow> read_file p w = (Inr c, next_step w)"
  by (simp add: read_file_def bind_eff_def syscall_reliable file_at_Some)

lemma read_to_string_InrD:
  "read_to_string p w = (Inr s, w') \<Longrightarrow> file_at w p = Some (as_bytes s) \<and> utf8_valid (as_bytes s)"
  unfolding read_to_string_def
  by (auto elim!: bind_eff_InrE dest!: read_file_InrD simp: from_utf8_Some)

lemma read_to_string_not_found:
  "read_to_string p w = (Inl e, w') \<Longrightarrow> io_kind e = Not_found \<Longrightarrow> file_at w p = None"
  unfolding read_to_string_def
  by (auto elim!: bind_eff_cases dest: read_file_not_found simp: invalid_utf8_def ok_or_def
      split: option.splits)

lemma read_to_string_reliable:
  "reliable w \<Longrightarrow> file_at w p = Some (as_bytes s) \<Longrightarrow> utf8_valid (as_bytes s) \<Longrightarrow>
   read_to_string p w = (Inr s, next_step w)"
  by (simp add: read_to_string_def bind_eff_def read_file_reliable from_utf8_as_bytes)

lemma is_file_run: "is_file p w = (Inr (\<not> blind w (steps w) \<and> file_at w p \<noteq> None), next_step w)"
  by (simp add: is_file_def probe_def)

lemma is_dir_run: "is_dir p w = (Inr (\<not> blind w (steps w) \<and> node_at w p = Some Dir), next_step w)"
  by (simp add: is_dir_def probe_def)

lemma is_file_true: "is_file p w = (Inr True, w') \<Longrightarrow> \<exists>c. file_at w p = Some c"
  by (auto simp: is_file_run)

lemma is_file_sighted: "sighted w \<Longrightarrow> is_file p w = (Inr (file_at w p \<noteq> None), next_step w)"
  by (simp add: is_file_run sighted_def)

lemma is_dir_sighted: "sighted w \<Longrightarrow> is_dir p w = (Inr (node_at w p = Some Dir), next_step w)"
  by (simp add: is_dir_run sighted_def)

lemma file_length_InrD:
  "file_length p w = (Inr n, w') \<Longrightarrow> file_at w p = Some c \<Longrightarrow> n = length c"
  unfolding file_length_def
  by (auto elim!: bind_eff_InrE dest!: syscall_result simp: file_at_Some split: option.splits)

lemma file_length_reliable:
  "reliable w \<Longrightarrow> file_at w p = Some c \<Longrightarrow> file_length p w = (Inr (length c), next_step w)"
  by (simp add: file_length_def bind_eff_def syscall_reliable file_at_Some)

lemma read_dir_InrD:
  "read_dir d w = (Inr ps, w') \<Longrightarrow> node_at w d = Some Dir \<and> ps = children w d"
  unfolding read_dir_def
  by (auto elim!: bind_eff_InrE dest!: syscall_result simp: children_def split: if_splits)

lemma read_dir_reliable:
  "reliable w \<Longrightarrow> node_at w d = Some Dir \<Longrightarrow> read_dir d w = (Inr (children w d), next_step w)"
  by (simp add: read_dir_def bind_eff_def syscall_reliable children_def)

lemma persist_InrD:
  "persist c p w = (Inr (), w') \<Longrightarrow>
     w' = set_node p (File c) (next_step w) \<and> p \<noteq> [] \<and> node_at w (butlast p) = Some Dir"
  unfolding persist_def
  by (auto elim!: bind_eff_InrE dest!: syscall_result simp: node_at_def split: if_splits)

lemma persist_Inl: "persist c p w = (Inl e, w') \<Longrightarrow> w' = next_step w"
  unfolding persist_def
  by (auto elim!: bind_eff_cases dest!: syscall_result split: if_splits)

lemma persist_reliable:
  "reliable w \<Longrightarrow> node_at w p \<noteq> Some Dir \<Longrightarrow> node_at w (butlast p) = Some Dir \<Longrightarrow>
   persist c p w = (Inr (), set_node p (File c) (next_step w))"
  by (simp add: persist_def bind_eff_def syscall_reliable)

lemma remove_file_InrD:
  "remove_file p w = (Inr (), w') \<Longrightarrow>
     w' = unset_node p (next_step w) \<and> file_at w p \<noteq> None"
  unfolding remove_file_def
  by (auto elim!: bind_eff_InrE dest!: syscall_result simp: file_at_def
      split: option.splits node.splits)

lemma remove_file_Inl:
  "remove_file p w = (Inl e, w') \<Longrightarrow>
     w' = next_step w \<and> (io_kind e = Not_found \<longrightarrow> file_at w p = None)"
  unfolding remove_file_def
  by (auto elim!: bind_eff_cases dest: syscall_result syscall_kind
      simp: is_a_directory_def file_at_def split: option.splits node.splits)

lemma remove_file_reliable:
  "reliable w \<Longrightarrow> file_at w p = Some c \<Longrightarrow>
   remove_file p w = (Inr (), unset_node p (next_step w))"
  by (simp add: remove_file_def bind_eff_def syscall_reliable file_at_Some)

text \<open>Making directories adds directories where nothing was.\<close>

definition grows_dirs :: "world \<Rightarrow> world \<Rightarrow> bool" where
  "grows_dirs w w' \<longleftrightarrow>
     (\<forall>q. node_at w' q = node_at w q \<or> node_at w q = None \<and> node_at w' q = Some Dir)"

interpretation dirs: frame grows_dirs
proof
  show "grows_dirs s s" for s
    by (simp add: grows_dirs_def)
  show "grows_dirs s u" if "grows_dirs s t" "grows_dirs t u" for s t u
    using that unfolding grows_dirs_def by metis
qed

lemma grows_dirs_file_at:
  assumes "grows_dirs w w'"
  shows "file_at w' p = file_at w p"
proof -
  have "node_at w' p = node_at w p \<or> node_at w p = None \<and> node_at w' p = Some Dir"
    using assms by (simp add: grows_dirs_def)
  then show ?thesis by (auto simp: file_at_def)
qed

lemma make_dir_grows: "keeps grows_dirs (make_dir p)"
  unfolding make_dir_def
  by (rule keepsI)
     (auto elim!: bind_eff_cases dest!: syscall_result
       simp: grows_dirs_def node_at_set split: option.splits node.splits if_splits)

lemma create_dir_all_grows: "keeps grows_dirs (create_dir_all p)"
  unfolding create_dir_all_def by (intro dirs.keeps_for_each make_dir_grows)

lemma create_dir_all_file_at: "keeps (same file_at) (create_dir_all p)"
  using create_dir_all_grows
  by (rule keeps_mono) (auto simp: same_def grows_dirs_file_at)

lemma make_dir_reliable:
  assumes "reliable w" "file_at w p = None" "node_at w (butlast p) = Some Dir"
  obtains w' where "make_dir p w = (Inr (), w')" "reliable w'" "node_at w' p = Some Dir"
proof -
  define w' where "w' = (if node_at w p = None then set_node p Dir (next_step w) else next_step w)"
  have *: "make_dir p w = (Inr (), w')"
    using assms
    by (auto simp: make_dir_def bind_eff_def syscall_reliable file_at_def w'_def
        split: option.splits node.splits)
  have "env w' = env w"
    by (rule sameD [where f = env, OF keeps_make_dir *]) (simp add: observers)
  with assms(1) have "reliable w'" by (rule reliable_keep)
  moreover have "node_at w' p = Some Dir"
  proof (cases "node_at w p")
    case None
    then have "p \<noteq> []" by (auto simp: node_at_def)
    with None show ?thesis by (simp add: w'_def node_at_set)
  next
    case (Some n)
    with assms(2) show ?thesis by (cases n) (auto simp: w'_def file_at_def)
  qed
  ultimately show thesis using * that by blast
qed

text \<open>Without failures, and with no file in the way, every prefix of the path is a directory.\<close>

fun chain :: "path \<Rightarrow> path list \<Rightarrow> bool" where
  "chain d [] = True"
| "chain d (p # ps) = (p \<noteq> [] \<and> butlast p = d \<and> chain p ps)"

lemma chain_prefixes:
  "i \<le> length p \<Longrightarrow> chain (take i p) (map (\<lambda>n. take (Suc n) p) [i..<length p])"
proof (induction "length p - i" arbitrary: i)
  case (Suc m)
  then have "i < length p" by simp
  moreover have "butlast (take (Suc i) p) = take i p"
    using \<open>i < length p\<close> by (simp add: butlast_take)
  moreover have "chain (take (Suc i) p) (map (\<lambda>n. take (Suc n) p) [Suc i..<length p])"
    using Suc by simp
  moreover have "take (Suc i) p \<noteq> []" using \<open>i < length p\<close> by auto
  ultimately show ?case by (simp add: upt_conv_Cons del: take_Suc)
qed simp

lemma make_dirs_reliable:
  assumes "reliable w" "chain d ps" "node_at w d = Some Dir" "\<And>q. q \<in> set ps \<Longrightarrow> file_at w q = None"
  shows "\<exists>w'. for_each make_dir ps w = (Inr (), w') \<and> reliable w'
           \<and> node_at w' (last (d # ps)) = Some Dir \<and> grows_dirs w w'"
  using assms
proof (induction ps arbitrary: w d)
  case Nil
  then show ?case by (auto intro: dirs.refl_R)
next
  case (Cons p ps)
  from Cons.prems obtain w1 where
    w1: "make_dir p w = (Inr (), w1)" "reliable w1" "node_at w1 p = Some Dir"
    using make_dir_reliable [of w p] by auto
  have g: "grows_dirs w w1" by (rule keepsD [OF make_dir_grows w1(1)])
  have "file_at w1 q = None" if "q \<in> set ps" for q
    using Cons.prems(4) that g by (simp add: grows_dirs_file_at)
  with Cons.IH [OF w1(2) _ w1(3)] Cons.prems(2) obtain w' where
    w': "for_each make_dir ps w1 = (Inr (), w')" "reliable w'"
      "node_at w' (last (p # ps)) = Some Dir" "grows_dirs w1 w'" by auto
  have "for_each make_dir (p # ps) w = (Inr (), w')"
    using w1 w'(1) by (simp add: bind_eff_Inr)
  moreover have "grows_dirs w w'" by (rule dirs.trans_R [OF g w'(4)])
  ultimately show ?case using w'(2,3) by (intro exI [of _ w']) simp
qed

lemma create_dir_all_reliable:
  assumes "reliable w" "\<And>n. file_at w (take n p) = None"
  obtains w' where "create_dir_all p w = (Inr (), w')" "reliable w'" "node_at w' p = Some Dir"
    "grows_dirs w w'"
proof -
  let ?ps = "map (\<lambda>n. take (Suc n) p) [0..<length p]"
  have "file_at w q = None" if "q \<in> set ?ps" for q
    using that assms(2) by auto
  moreover have "chain [] ?ps" using chain_prefixes [of 0 p] by simp
  moreover have "node_at w [] = Some Dir" by (simp add: node_at_def)
  ultimately obtain w' where w': "for_each make_dir ?ps w = (Inr (), w')" "reliable w'"
    "node_at w' (last ([] # ?ps)) = Some Dir" "grows_dirs w w'"
    using make_dirs_reliable [OF assms(1)] by blast
  have "last ([] # ?ps) = p"
    by (cases p rule: rev_cases) (auto simp: last_map)
  with w' that show thesis by (auto simp: create_dir_all_def)
qed

section \<open>Well-formed trees\<close>

text \<open>What the operating system maintains: one node per path, every parent a directory.\<close>

definition wf_tree :: "world \<Rightarrow> bool" where
  "wf_tree w \<longleftrightarrow> distinct (map fst (files w)) \<and>
     (\<forall>p n. map_of (files w) p = Some n \<longrightarrow> p \<noteq> [] \<and> node_at w (butlast p) = Some Dir)"

definition keeps_wf :: "world \<Rightarrow> world \<Rightarrow> bool" where
  "keeps_wf w w' \<longleftrightarrow> (wf_tree w \<longrightarrow> wf_tree w')"

interpretation wf: frame keeps_wf
  by unfold_locales (auto simp: keeps_wf_def)

lemma wf_tree_files: "files w' = files w \<Longrightarrow> wf_tree w' = wf_tree w"
  by (simp add: wf_tree_def node_at_def)

lemma wf_tree_next [simp]: "wf_tree (next_step w) = wf_tree w"
  by (rule wf_tree_files) simp

lemma keeps_wf_same_files: "keeps (same files) m \<Longrightarrow> keeps keeps_wf m"
  by (erule keeps_mono) (metis same_def keeps_wf_def wf_tree_files)

lemma wf_parent: "wf_tree w \<Longrightarrow> node_at w p \<noteq> None \<Longrightarrow> node_at w (butlast p) = Some Dir"
proof (cases "p = []")
  case False
  assume "wf_tree w" "node_at w p \<noteq> None"
  with False obtain n where "map_of (files w) p = Some n" by (auto simp: node_at_def)
  with \<open>wf_tree w\<close> show ?thesis by (simp only: wf_tree_def)
qed (simp add: node_at_def)

lemma wf_set_node:
  assumes "wf_tree w" "p \<noteq> []" "node_at w (butlast p) = Some Dir" "node_at w p \<noteq> Some Dir"
  shows "wf_tree (set_node p n w)"
proof -
  have "node_at (set_node p n w) (butlast q) = Some Dir"
    if q: "map_of (files (set_node p n w)) q = Some m" for q m
  proof (cases "q = p")
    case True
    have "butlast p \<noteq> p" using assms(2) by (metis length_butlast length_0_conv diff_less
        length_greater_0_conv less_irrefl zero_less_one)
    with True assms show ?thesis by (simp add: node_at_set)
  next
    case False
    with q have "map_of (files w) q = Some m" by (simp add: set_node_def update_conv)
    with assms(1) have "node_at w (butlast q) = Some Dir" by (simp add: wf_tree_def)
    with assms(4) show ?thesis by (auto simp: node_at_set)
  qed
  moreover have "q \<noteq> []" if "map_of (files (set_node p n w)) q = Some m" for q m
    using that assms(1,2) by (auto simp: set_node_def update_conv wf_tree_def split: if_splits)
  ultimately show ?thesis
    using assms(1) by (simp add: wf_tree_def set_node_def distinct_update)
qed

lemma wf_unset_node:
  assumes "wf_tree w" "node_at w p = Some (File c)"
  shows "wf_tree (unset_node p w)"
proof -
  have "q \<noteq> [] \<and> node_at (unset_node p w) (butlast q) = Some Dir"
    if q: "map_of (files (unset_node p w)) q = Some m" for q m
  proof -
    from q have "map_of (files w) q = Some m"
      by (simp add: unset_node_def delete_conv split: if_splits)
    with assms(1) have "q \<noteq> []" "node_at w (butlast q) = Some Dir" by (simp_all add: wf_tree_def)
    with assms(2) show ?thesis by (auto simp: node_at_unset)
  qed
  then show ?thesis
    using assms(1) by (simp add: wf_tree_def unset_node_def distinct_delete)
qed

lemma wf_unset_next:
  "wf_tree w \<Longrightarrow> node_at w p = Some (File c) \<Longrightarrow> wf_tree (unset_node p (next_step w))"
  by (rule wf_unset_node) simp_all

named_theorems wf_prims \<open>system calls keep the tree well-formed\<close>

lemma wf_make_dir [wf_prims]: "keeps keeps_wf (make_dir p)"
  unfolding make_dir_def keeps_wf_def
  by (rule keepsI)
     (auto elim!: bind_eff_cases dest!: syscall_result intro!: wf_set_node
       simp: node_at_def
       split: option.splits node.splits if_splits)

lemma wf_create_dir_all [wf_prims]: "keeps keeps_wf (create_dir_all p)"
  unfolding create_dir_all_def by (intro wf.keeps_rules wf_prims)

lemma wf_persist [wf_prims]: "keeps keeps_wf (persist c p)"
  unfolding persist_def keeps_wf_def
  by (rule keepsI)
     (auto elim!: bind_eff_cases dest!: syscall_result intro!: wf_set_node
       simp: node_at_def
       split: if_splits)

lemma wf_remove_file [wf_prims]: "keeps keeps_wf (remove_file p)"
  unfolding remove_file_def keeps_wf_def
  by (rule keepsI)
     (auto elim!: bind_eff_cases dest!: syscall_result intro: wf_unset_next
       split: option.splits node.splits if_splits)

end
