(* ===== verification/Crates.thy ===== *)
theory Crates
  imports Keys Files
begin

text \<open>
  What the program takes from third-party crates, as one record of functions that every
  definition using it receives: \<open>sha2\<close> (the lowercase hex digest of a byte sequence, which is
  what \<open>Sha256::new\<close>, \<open>update\<close>, \<open>finalize\<close> yield for the concatenation of the updates),
  \<open>serde_json\<close> on the sidecar type, and \<open>url\<close>.  The documented facts the theorems rely on are
  the predicates below; a theorem names the ones it needs.

  The sidecar type \<open>IndexEntry\<close> and the \<open>Layer\<close> of \<open>src/store/mod.rs\<close> stand here because the
  codec is about them.
\<close>

datatype layer = LocalDisk | Mirror_layer | Upstream

record index_entry =
  digest :: string
  entry_bytes :: u64
  fetched_at :: u64
  entry_source :: "string option"
  entry_etag :: "string option"
  entry_identity :: "string option"
  entry_layer :: layer

text \<open>A parsed \<open>url::Url\<close>: \<open>url_text\<close> is its serialization.\<close>

record parsed_url =
  scheme :: string
  username :: string
  password :: "string option"
  host :: "string option"
  port :: "nat option"
  url_path :: string
  query :: "string option"
  fragment :: "string option"
  url_text :: string

record crates =
  sha256 :: "bytes \<Rightarrow> string"
  to_json :: "index_entry \<Rightarrow> string"
  from_json :: "string \<Rightarrow> string + index_entry"
  url_parse :: "string \<Rightarrow> string + parsed_url"
  url_join :: "parsed_url \<Rightarrow> string \<Rightarrow> string + parsed_url"

definition hex_digit :: "char \<Rightarrow> bool" where
  "hex_digit c \<longleftrightarrow> is_ascii_digit c \<or> 97 \<le> code c \<and> code c \<le> 102"

definition is_digest :: "string \<Rightarrow> bool" where
  "is_digest text \<longleftrightarrow> length text = 64 \<and> list_all hex_digit text"

text \<open>Digests are 64 lowercase hexadecimal characters.\<close>

definition digests_ok :: "crates \<Rightarrow> bool" where
  "digests_ok D \<longleftrightarrow> (\<forall>c. is_digest (sha256 D c))"

text \<open>A sidecar that was serialized parses back to the same entry, and is UTF-8 text.\<close>

definition json_ok :: "crates \<Rightarrow> bool" where
  "json_ok D \<longleftrightarrow>
     (\<forall>e. from_json D (to_json D e) = Inr e \<and> utf8_valid (as_bytes (to_json D e)))"

lemma is_digest_length: "is_digest d \<Longrightarrow> length d = 64"
  by (simp add: is_digest_def)

lemma hex_digit_not_slash: "hex_digit c \<Longrightarrow> c \<noteq> CHR ''/''"
  by (auto simp: hex_digit_def is_ascii_digit_def)

lemma is_digest_no_slash: "is_digest d \<Longrightarrow> CHR ''/'' \<notin> set d"
  by (auto simp: is_digest_def list_all_iff dest: hex_digit_not_slash)

end
