(* ===== verification/Content_Check.thy ===== *)
theory Content_Check
  imports Crates
begin

text \<open>
  \<open>src/check.rs\<close>.  \<open>check_reader\<close> is generic in its reader, as the source is in
  \<open>impl Read + Seek\<close>: its argument \<open>io\<close> says how a seek or read of that reader ends, so the
  in-memory check (a \<open>Cursor\<close>, which never fails) and the file check (system calls that may)
  are two instances of one function.  \<open>accepts\<close> is what a check means.
\<close>

datatype content_check =
    Sha256 string
  | Magic "bytes list" bool
  | MinBytes u64
  | NotHtml
  | Custom "bytes \<Rightarrow> string + unit"
  | All_of "content_check list"
  | No_check

definition default_binary :: content_check where
  "default_binary = All_of [NotHtml, MinBytes 1024]"

definition failure :: "string \<Rightarrow> string \<Rightarrow> check_failure" where
  "failure name text = \<lparr>check_name = name, got = text\<rparr>"

definition io_failure :: "io_error \<Rightarrow> check_failure" where
  "io_failure e = failure ''Read'' (io_message e)"

section \<open>Signatures and HTML\<close>

text \<open>The loop that reads single bytes until the first that is kept.\<close>

fun first_byte :: "bool \<Rightarrow> bytes \<Rightarrow> bytes \<times> bytes" where
  "first_byte trim [] = ([], [])"
| "first_byte trim (b # bs) =
     (if \<not> trim \<or> \<not> is_ascii_whitespace b then ([b], bs) else first_byte trim bs)"

definition signature_head :: "bytes list \<Rightarrow> bool \<Rightarrow> bytes \<Rightarrow> bytes" where
  "signature_head sigs trim content =
     (let n = foldr max (map length sigs) 0; (head, rest) = first_byte trim content
      in head @ take (saturating_sub n (length head)) rest)"

definition trimmed :: "bool \<Rightarrow> bytes \<Rightarrow> bytes" where
  "trimmed trim content = (if trim then trim_ascii_start content else content)"

definition html_head :: "bytes \<Rightarrow> nat list" where
  "html_head content =
     dropWhile is_whitespace
       (dropWhile (\<lambda>c. c = 0xFEFF) (map lowercase_code (utf8_lossy (take 8192 content))))"

definition looks_like_html :: "bytes \<Rightarrow> bool" where
  "looks_like_html content =
     (let head = html_head content in
      starts_with head (ascii ''<!doctype html'')
      \<or> starts_with head (ascii ''<html'')
      \<or> starts_with head (ascii ''<head'')
      \<or> starts_with head (ascii ''<body'')
      \<or> contains head (ascii ''<form'')
      \<or> contains head (ascii ''<html''))"

section \<open>The checks\<close>

fun check_reader ::
    "crates \<Rightarrow> ('s, io_error, unit) eff \<Rightarrow> content_check \<Rightarrow> bytes \<Rightarrow> u64
      \<Rightarrow> ('s, check_failure, unit) eff"
  and check_readers ::
    "crates \<Rightarrow> ('s, io_error, unit) eff \<Rightarrow> content_check list \<Rightarrow> bytes \<Rightarrow> u64
      \<Rightarrow> ('s, check_failure, unit) eff"
where
  "check_reader D io No_check content len = map_err io_failure io"
| "check_reader D io (All_of checks) content len =
     bind_eff (map_err io_failure io) (\<lambda>_. check_readers D io checks content len)"
| "check_reader D io (MinBytes n) content len =
     bind_eff (map_err io_failure io) (\<lambda>_.
       if len < n
       then throw (failure ''MinBytes'' (decimal len @ '' bytes, expected at least '' @ decimal n))
       else ret ())"
| "check_reader D io (Sha256 expected) content len =
     bind_eff (map_err io_failure io) (\<lambda>_. bind_eff (map_err io_failure io) (\<lambda>_.
       if sha256 D content = expected then ret ()
       else throw (failure ''Sha256'' (''digest '' @ sha256 D content))))"
| "check_reader D io (Magic sigs trim) content len =
     bind_eff (map_err io_failure io) (\<lambda>_.
       if sigs = [] \<or> list_ex (\<lambda>p. p = []) sigs
       then throw (failure ''Magic'' ''no nonempty signature configured'')
       else bind_eff (map_err io_failure io) (\<lambda>_.
         if list_ex (\<lambda>p. starts_with (signature_head sigs trim content) p) sigs
         then ret ()
         else throw (failure ''Magic'' (decimal len @ '' bytes with an unexpected signature''))))"
| "check_reader D io NotHtml content len =
     bind_eff (map_err io_failure io) (\<lambda>_. bind_eff (map_err io_failure io) (\<lambda>_.
       if looks_like_html content
       then throw (failure ''NotHtml'' ''HTML document or login form (body redacted)'')
       else ret ()))"
| "check_reader D io (Custom f) content len =
     bind_eff (map_err io_failure io) (\<lambda>_. bind_eff (map_err io_failure io) (\<lambda>_.
       case f content of Inl text \<Rightarrow> throw (failure ''Custom'' text) | Inr _ \<Rightarrow> ret ()))"
| "check_readers D io [] content len = ret ()"
| "check_readers D io (c # cs) content len =
     bind_eff (check_reader D io c content len) (\<lambda>_. check_readers D io cs content len)"

text \<open>On bytes in memory.\<close>

definition check :: "crates \<Rightarrow> content_check \<Rightarrow> bytes \<Rightarrow> check_failure + unit" where
  "check D c content = fst (check_reader D (ret ()) c content (length content) ())"

text \<open>On the first bytes of a transfer; an inconclusive short prefix passes.\<close>

fun check_prefix :: "crates \<Rightarrow> content_check \<Rightarrow> bytes \<Rightarrow> check_failure + unit"
  and check_prefixes :: "crates \<Rightarrow> content_check list \<Rightarrow> bytes \<Rightarrow> check_failure + unit"
where
  "check_prefix D NotHtml head = check D NotHtml head"
| "check_prefix D (Magic sigs trim) head =
     (let head = trimmed trim head in
      if list_ex (\<lambda>p. starts_with head p \<or> starts_with p head) sigs then Inr ()
      else Inl (failure ''Magic'' ''unexpected signature (body redacted)''))"
| "check_prefix D (All_of checks) head = check_prefixes D checks head"
| "check_prefix D (Sha256 _) head = Inr ()"
| "check_prefix D (MinBytes _) head = Inr ()"
| "check_prefix D (Custom _) head = Inr ()"
| "check_prefix D No_check head = Inr ()"
| "check_prefixes D [] head = Inr ()"
| "check_prefixes D (c # cs) head =
     bind_sum (check_prefix D c head) (\<lambda>_. check_prefixes D cs head)"

text \<open>A file given by path: a temp file the caller owns, or a file of the store.\<close>

datatype file_ref = Temp bytes | Stored path

definition open_ref :: "file_ref \<Rightarrow> bytes io" where
  "open_ref r = (case r of Temp c \<Rightarrow> bind_eff syscall (\<lambda>_. ret c) | Stored p \<Rightarrow> read_file p)"

definition digest_file :: "crates \<Rightarrow> file_ref \<Rightarrow> string io" where
  "digest_file D r = bind_eff (open_ref r) (\<lambda>c. bind_eff syscall (\<lambda>_. ret (sha256 D c)))"

definition check_file ::
    "crates \<Rightarrow> content_check \<Rightarrow> file_ref \<Rightarrow> (world, check_failure, unit) eff" where
  "check_file D c r =
     (case c of
        Sha256 expected \<Rightarrow>
          bind_eff (map_err io_failure (digest_file D r)) (\<lambda>actual.
            if actual = expected then ret ()
            else throw (failure ''Sha256'' (''digest '' @ actual)))
      | _ \<Rightarrow>
          bind_eff (map_err io_failure (open_ref r)) (\<lambda>content.
          bind_eff (map_err io_failure syscall) (\<lambda>_.
            check_reader D syscall c content (length content))))"

text \<open>What a check means.\<close>

fun accepts :: "crates \<Rightarrow> content_check \<Rightarrow> bytes \<Rightarrow> bool" where
  "accepts D No_check content = True"
| "accepts D (All_of checks) content = list_all (\<lambda>c. accepts D c content) checks"
| "accepts D (MinBytes n) content = (n \<le> length content)"
| "accepts D (Sha256 expected) content = (sha256 D content = expected)"
| "accepts D (Magic sigs trim) content =
     (sigs \<noteq> [] \<and> [] \<notin> set sigs
      \<and> list_ex (\<lambda>p. starts_with (trimmed trim content) p) sigs)"
| "accepts D NotHtml content = (\<not> looks_like_html content)"
| "accepts D (Custom f) content = is_ok (f content)"

section \<open>Signatures: the buffered reader against the plain definition\<close>

lemma first_byte_spec:
  "0 < n \<Longrightarrow> fst (first_byte trim bs) @ take (n - length (fst (first_byte trim bs))) (snd (first_byte trim bs))
     = take n (trimmed trim bs)"
  by (induction bs)
     (auto simp: trimmed_def trim_ascii_start_def take_Cons' Suc_leI split: if_splits)

lemma first_byte_length: "length (fst (first_byte trim bs)) \<le> 1"
  by (induction bs) auto

lemma signature_head_spec:
  assumes "foldr max (map length sigs) 0 = n" "0 < n"
  shows "signature_head sigs trim content = take n (trimmed trim content)"
proof -
  obtain h r where "first_byte trim content = (h, r)" by (cases "first_byte trim content")
  with assms first_byte_spec [of n trim content] show ?thesis
    by (simp add: signature_head_def Let_def saturating_sub_nat)
qed

lemma foldr_max_ge: "x \<in> set xs \<Longrightarrow> x \<le> foldr max xs (0::nat)"
  by (induction xs) auto

lemma signature_head_starts:
  assumes "sigs \<noteq> []" "[] \<notin> set sigs" "p \<in> set sigs"
  shows "starts_with (signature_head sigs trim content) p \<longleftrightarrow> starts_with (trimmed trim content) p"
proof -
  let ?n = "foldr max (map length sigs) 0"
  from assms(3) have "length p \<le> ?n" by (auto intro: foldr_max_ge)
  moreover have "0 < length p" using assms(2,3) by auto
  ultimately have "0 < ?n" "min (length p) ?n = length p" by (auto intro: less_le_trans)
  then show ?thesis
    using signature_head_spec [of sigs ?n trim content] by (simp add: starts_with_def)
qed

lemma signature_head_matches:
  assumes "sigs \<noteq> []" "[] \<notin> set sigs"
  shows "list_ex (\<lambda>p. starts_with (signature_head sigs trim content) p) sigs
     \<longleftrightarrow> list_ex (\<lambda>p. starts_with (trimmed trim content) p) sigs"
  using signature_head_starts [OF assms] by (auto simp: list_ex_iff)

section \<open>The reader decides what the check means\<close>

lemma check_reader_sound:
  "check_reader D io c content (length content) s = (Inr (), s') \<Longrightarrow> accepts D c content"
  "check_readers D io cs content (length content) s = (Inr (), s') \<Longrightarrow>
     list_all (\<lambda>c. accepts D c content) cs"
proof (induction D io c content "length content" and D io cs content "length content"
    arbitrary: s s' and s s' rule: check_reader_check_readers.induct)
  case (5 D io sigs trim content)
  then show ?case
    by (auto elim!: bind_eff_InrE simp: signature_head_matches [unfolded list_ex_iff] list_ex_iff
        split: if_splits)
next
  case (7 D io f content)
  then show ?case by (auto elim!: bind_eff_InrE split: sum.splits)
qed (auto elim!: bind_eff_InrE split: if_splits)

text \<open>With a reader that never fails, the result is exactly the meaning.\<close>

lemma check_reader_complete:
  assumes "\<And>s. P s \<Longrightarrow> io s = (Inr (), g s)" "\<And>s. P s \<Longrightarrow> P (g s)"
  shows "accepts D c content \<Longrightarrow> P s \<Longrightarrow>
      \<exists>s'. check_reader D io c content (length content) s = (Inr (), s') \<and> P s'"
    and "list_all (\<lambda>c. accepts D c content) cs \<Longrightarrow> P s \<Longrightarrow>
      \<exists>s'. check_readers D io cs content (length content) s = (Inr (), s') \<and> P s'"
  using assms
proof (induction D io c content "length content" and D io cs content "length content"
    arbitrary: s and s rule: check_reader_check_readers.induct)
  case (5 D io sigs trim content)
  then show ?case
    by (auto simp: bind_eff_def map_err_def signature_head_matches [unfolded list_ex_iff]
        list_ex_iff)
next
  case (7 D io f content)
  then show ?case by (auto simp: bind_eff_def map_err_def is_ok_iff split: sum.splits)
next
  case (9 D io c cs content)
  then obtain s1 where
    "check_reader D io c content (length content) s = (Inr (), s1)" "P s1" by fastforce
  with 9 show ?case by (simp add: bind_eff_def)
qed (auto simp: bind_eff_def map_err_def)

lemma check_iff: "is_ok (check D c content) \<longleftrightarrow> accepts D c content"
proof
  assume "is_ok (check D c content)"
  then have "check_reader D (ret ()) c content (length content) () = (Inr (), ())"
    by (auto simp: check_def is_ok_iff intro: prod_eqI)
  then show "accepts D c content" by (rule check_reader_sound(1))
next
  assume "accepts D c content"
  then show "is_ok (check D c content)"
    using check_reader_complete(1) [of "\<lambda>_. True" "ret ()" id D c content "()"]
    by (auto simp: check_def)
qed

section \<open>The prefix check never rejects a body the full check accepts\<close>

lemma prefix_dropWhile_take: "prefix (dropWhile P (take n xs)) (dropWhile P xs)"
proof (induction xs arbitrary: n)
  case (Cons x xs)
  then show ?case by (cases n) (auto simp: take_is_prefix)
qed simp

lemma prefix_trimmed_take: "prefix (trimmed trim (take n xs)) (trimmed trim xs)"
  by (simp add: trimmed_def trim_ascii_start_def prefix_dropWhile_take take_is_prefix)

lemma looks_like_html_take: "looks_like_html (take 8192 content) = looks_like_html content"
  by (simp add: looks_like_html_def html_head_def)

lemma check_prefix_accepts:
  "accepts D c content \<Longrightarrow> check_prefix D c (take 8192 content) = Inr ()"
  "list_all (\<lambda>c. accepts D c content) cs \<Longrightarrow> check_prefixes D cs (take 8192 content) = Inr ()"
proof (induction D c "take 8192 content" and D cs "take 8192 content"
    rule: check_prefix_check_prefixes.induct)
  case (1 D)
  then have "is_ok (check D NotHtml (take 8192 content))"
    by (simp add: check_iff looks_like_html_take)
  then show ?case by (simp add: is_ok_iff)
next
  case (2 D sigs trim)
  then obtain p where p: "p \<in> set sigs" "prefix p (trimmed trim content)"
    by (auto simp: list_ex_iff starts_with_iff)
  have "prefix (trimmed trim (take 8192 content)) (trimmed trim content)"
    by (rule prefix_trimmed_take)
  with p(2) have "prefix p (trimmed trim (take 8192 content))
      \<or> prefix (trimmed trim (take 8192 content)) p"
    by (metis prefix_same_cases)
  with p(1) show ?case by (auto simp: Let_def list_ex_iff starts_with_iff)
qed simp_all

text \<open>A body no longer than the window is its own prefix.\<close>

lemma check_prefix_whole: "accepts D c content \<Longrightarrow> length content \<le> 8192 \<Longrightarrow>
    check_prefix D c content = Inr ()"
  using check_prefix_accepts(1) [of D c content] by simp

section \<open>Checking files\<close>

definition ref_content :: "world \<Rightarrow> file_ref \<Rightarrow> bytes option" where
  "ref_content w r = (case r of Temp c \<Rightarrow> Some c | Stored p \<Rightarrow> file_at w p)"

lemma ref_content_simps [simp]:
  "ref_content w (Temp c) = Some c" "ref_content w (Stored p) = file_at w p"
  by (simp_all add: ref_content_def)

lemma open_ref_InrD: "open_ref r w = (Inr c, w') \<Longrightarrow> ref_content w r = Some c"
  by (cases r) (auto simp: open_ref_def elim!: bind_eff_InrE dest: read_file_InrD)

lemma digest_file_InrD:
  assumes "digest_file D r w = (Inr d, w')"
  shows "\<exists>c. ref_content w r = Some c \<and> d = sha256 D c"
  using assms unfolding digest_file_def
  by (auto elim!: bind_eff_InrE dest!: open_ref_InrD)

lemma check_file_sound:
  assumes "check_file D c r w = (Inr (), w')"
  shows "\<exists>content. ref_content w r = Some content \<and> accepts D c content"
proof (cases "\<exists>expected. c = Sha256 expected")
  case True
  with assms show ?thesis
    by (auto simp: check_file_def elim!: bind_eff_InrE dest!: map_err_InrE digest_file_InrD
        split: if_splits)
next
  case False
  with assms have "bind_eff (map_err io_failure (open_ref r)) (\<lambda>content.
      bind_eff (map_err io_failure syscall) (\<lambda>_.
        check_reader D syscall c content (length content))) w = (Inr (), w')"
    by (cases c) (auto simp: check_file_def)
  then show ?thesis
    by (auto elim!: bind_eff_InrE dest!: map_err_InrE open_ref_InrD check_reader_sound(1))
qed

lemma open_ref_reliable:
  "reliable w \<Longrightarrow> ref_content w r = Some c \<Longrightarrow> open_ref r w = (Inr c, next_step w)"
  by (cases r) (auto simp: open_ref_def bind_eff_def syscall_reliable read_file_reliable)

lemma digest_file_reliable:
  "reliable w \<Longrightarrow> ref_content w r = Some c \<Longrightarrow>
     digest_file D r w = (Inr (sha256 D c), next_step (next_step w))"
  by (simp add: digest_file_def bind_eff_def open_ref_reliable syscall_reliable)

text \<open>Every relation the reader's calls keep is kept by the checks.\<close>

context frame
begin

lemma keeps_check_reader:
  fixes io :: "('s, io_error, unit) eff"
  assumes "keeps R io"
  shows "keeps R (check_reader D io c content len)"
    and "keeps R (check_readers D io cs content len)"
  using assms
proof (induction D io c content len and D io cs content len
    rule: check_reader_check_readers.induct)
  case (7 D io f content len)
  then show ?case by (simp, intro keeps_rules) simp_all
qed (simp only: check_reader.simps check_readers.simps; intro keeps_rules; simp)+

end

lemma keeps_open_ref [keeps_prims]: "observer f \<Longrightarrow> keeps (same f) (open_ref r)"
  unfolding open_ref_def by (cases r) (simp_all add: same.keeps_rules keeps_prims)

lemma keeps_digest_file [keeps_prims]: "observer f \<Longrightarrow> keeps (same f) (digest_file D r)"
  unfolding digest_file_def by (intro same.keeps_rules keeps_prims)

lemma keeps_check_file [keeps_prims]: "observer f \<Longrightarrow> keeps (same f) (check_file D c r)"
  unfolding check_file_def
  by (cases c; simp; intro same.keeps_rules same.keeps_check_reader keeps_prims)

lemma check_file_complete:
  assumes "reliable w" "ref_content w r = Some content" "accepts D c content"
  shows "\<exists>w'. check_file D c r w = (Inr (), w')"
proof (cases "\<exists>expected. c = Sha256 expected")
  case True
  with assms show ?thesis
    by (auto simp: check_file_def bind_eff_def map_err_def digest_file_reliable)
next
  case False
  have "\<exists>w'. check_reader D syscall c content (length content) (next_step (next_step w)) = (Inr (), w')"
    using check_reader_complete(1) [of reliable syscall next_step D c content "next_step (next_step w)"]
      assms by (auto simp: syscall_reliable)
  moreover have "check_file D c r w =
      check_reader D syscall c content (length content) (next_step (next_step w))"
    using False assms
    by (cases c) (auto simp: check_file_def bind_eff_def map_err_def open_ref_reliable syscall_reliable)
  ultimately show ?thesis by simp
qed

end
