(* ===== verification/Artifact.thy ===== *)
theory Artifact
  imports Content_Check
begin

text \<open>The \<open>Artifact\<close> struct of \<open>src/artifact.rs\<close> and its builder methods.\<close>

record artifact =
  key :: artifact_key
  sources :: "source list"
  art_check :: content_check
  art_freshness :: freshness
  art_provenance :: provenance
  expected_bytes :: "u64 option"

definition artifact_new :: "artifact_key \<Rightarrow> source list \<Rightarrow> artifact" where
  "artifact_new k ss =
     \<lparr>key = k, sources = ss, art_check = default_binary, art_freshness = Immutable,
      art_provenance = provenance_default, expected_bytes = None\<rparr>"

definition with_check :: "content_check \<Rightarrow> artifact \<Rightarrow> artifact" where
  "with_check c a = a\<lparr>art_check := c\<rparr>"

definition with_freshness :: "freshness \<Rightarrow> artifact \<Rightarrow> artifact" where
  "with_freshness f a = a\<lparr>art_freshness := f\<rparr>"

definition with_provenance :: "provenance \<Rightarrow> artifact \<Rightarrow> artifact" where
  "with_provenance p a = a\<lparr>art_provenance := p\<rparr>"

definition with_expected_bytes :: "u64 \<Rightarrow> artifact \<Rightarrow> artifact" where
  "with_expected_bytes n a = a\<lparr>expected_bytes := Some n\<rparr>"

text \<open>
  Content an artifact may be stored with: the size pin and the whole check tree, digest pins
  included.
\<close>

definition admissible :: "crates \<Rightarrow> artifact \<Rightarrow> bytes \<Rightarrow> bool" where
  "admissible D a c \<longleftrightarrow>
     (case expected_bytes a of None \<Rightarrow> True | Some n \<Rightarrow> n = length c) \<and> accepts D (art_check a) c"

end
