(* ===== verification/Receiver.thy ===== *)
theory Receiver
  imports Artifact
begin

text \<open>
  \<open>Receiver\<close> and \<open>Datastore::receive\<close> of \<open>src/store/mod.rs\<close>: the sink a transfer writes to.  A
  producer (an HTTP body, a mirror object, a file to import) is a function of the sink's \<open>write\<close>;
  the state it runs in is the world together with the receiver.  The file behind the receiver is
  the field \<open>temp\<close>, its hasher is the bytes hashed so far (\<open>hashed\<close>), and the budget \<open>Cell\<close> is a
  field of the world, charged when \<open>limited\<close>.

  The locale \<open>producer\<close> is what the store relies on: a producer touches the receiver through
  \<open>write\<close> alone, leaves the tree, the locks and the budget alone, and reports a failed write as an
  error.  Its lemmas say what \<open>receive\<close> then guarantees.
\<close>

section \<open>The receiver\<close>

definition PREFIX_BYTES :: nat where
  "PREFIX_BYTES = 8 * 1024"

record receiver =
  temp :: bytes
  hashed :: bytes
  rbytes :: u64
  head :: bytes
  prefix_checked :: bool
  rejected :: "check_failure option"
  limited :: bool
  limit_exceeded :: bool

definition receiver_new :: "bool \<Rightarrow> receiver" where
  "receiver_new lim = \<lparr>temp = [], hashed = [], rbytes = 0, head = [], prefix_checked = False,
     rejected = None, limited = lim, limit_exceeded = False\<rparr>"

type_synonym sink = "world \<times> receiver"

definition on_world :: "(world, 'e, 'a) eff \<Rightarrow> (sink, 'e, 'a) eff" where
  "on_world m = (\<lambda>(w, v). case m w of (r, w') \<Rightarrow> (r, (w', v)))"

definition rejection :: "check_failure \<Rightarrow> io_error" where
  "rejection f = io_other (check_name f @ '': '' @ got f)"

definition receiver_check_prefix :: "crates \<Rightarrow> content_check \<Rightarrow> (sink, io_error, unit) eff" where
  "receiver_check_prefix D c = (\<lambda>(w, v).
     let v = v\<lparr>prefix_checked := True\<rparr> in
     case check_prefix D c (head v) of
       Inl f \<Rightarrow> (Inl (rejection f), (w, v\<lparr>rejected := Some f\<rparr>))
     | Inr _ \<Rightarrow> (Inr (), (w, v)))"

text \<open>The charge against the budget, before anything else is looked at.\<close>

definition charge :: "nat \<Rightarrow> (sink, io_error, unit) eff" where
  "charge n = (\<lambda>(w, v).
     if \<not> limited v then (Inr (), (w, v))
     else (case checked_sub (budget w) n of
        Some remaining \<Rightarrow>
          if limit_exceeded v
          then (Inl (io_other ''fill byte reservation exhausted''), (w, v))
          else (Inr (), (w\<lparr>budget := remaining\<rparr>, v))
      | None \<Rightarrow>
          (Inl (io_other ''fill byte reservation exhausted''), (w, v\<lparr>limit_exceeded := True\<rparr>))))"

definition fail_if_rejected :: "(sink, io_error, unit) eff" where
  "fail_if_rejected = (\<lambda>(w, v).
     (case rejected v of Some f \<Rightarrow> Inl (rejection f) | None \<Rightarrow> Inr (), (w, v)))"

definition show_prefix :: "crates \<Rightarrow> content_check \<Rightarrow> bytes \<Rightarrow> (sink, io_error, unit) eff" where
  "show_prefix D c buf = (\<lambda>(w, v).
     if prefix_checked v then (Inr (), (w, v))
     else (let n = min (PREFIX_BYTES - length (head v)) (length buf);
               v = v\<lparr>head := head v @ take n buf\<rparr>
           in if length (head v) = PREFIX_BYTES then receiver_check_prefix D c (w, v)
              else (Inr (), (w, v))))"

text \<open>\<open>write_all\<close> on the temp file, then the hash and the count.\<close>

definition store_bytes :: "bytes \<Rightarrow> (sink, io_error, unit) eff" where
  "store_bytes buf = (\<lambda>(w, v).
     case syscall w of
       (Inl e, w') \<Rightarrow> (Inl e, (w', v\<lparr>temp := temp v @ take (torn w (steps w)) buf\<rparr>))
     | (Inr _, w') \<Rightarrow>
         (Inr (), (w', v\<lparr>temp := temp v @ buf, hashed := hashed v @ buf,
                        rbytes := rbytes v + length buf\<rparr>)))"

definition receiver_write :: "crates \<Rightarrow> content_check \<Rightarrow> bytes \<Rightarrow> (sink, io_error, unit) eff" where
  "receiver_write D c buf =
     bind_eff (charge (length buf)) (\<lambda>_.
     bind_eff fail_if_rejected (\<lambda>_.
     bind_eff (show_prefix D c buf) (\<lambda>_.
       store_bytes buf)))"

text \<open>A body shorter than the prefix window is checked at the end.\<close>

definition finish_prefix :: "crates \<Rightarrow> content_check \<Rightarrow> receiver \<Rightarrow> check_failure + unit" where
  "finish_prefix D c v = (if prefix_checked v then Inr () else check_prefix D c (head v))"

definition receiver_finish :: "crates \<Rightarrow> receiver \<Rightarrow> string \<times> u64" where
  "receiver_finish D v = (sha256 D (hashed v), rbytes v)"

section \<open>Receiving\<close>

text \<open>
  The closure the program passes to \<open>receive\<close> returns whether an object was served and may assign
  a variable it captures (the \<open>Download\<close> of an upstream fetch).  Here it returns an option:
  \<open>Some x\<close> is \<open>Ok(true)\<close> with \<open>x\<close> assigned, \<open>None\<close> is \<open>Ok(false)\<close>; \<open>receive\<close> hands \<open>x\<close> on.
\<close>

type_synonym 'a sink_action = "(sink, datastore_error, 'a) eff"
type_synonym sink_write = "bytes \<Rightarrow> (sink, io_error, unit) eff"

fun is_io_error :: "datastore_error \<Rightarrow> bool" where
  "is_io_error (Io _) = True"
| "is_io_error _ = False"

definition rejects :: "artifact \<Rightarrow> check_failure \<Rightarrow> datastore_error" where
  "rejects a f = ContentRejected (key a) f"

text \<open>The part of \<open>receive\<close> after the producer has run, on its result and the receiver.\<close>

definition received ::
    "crates \<Rightarrow> artifact \<Rightarrow> datastore_error + 'x option \<Rightarrow> receiver
      \<Rightarrow> datastore_error + ((bytes \<times> string \<times> u64) \<times> 'x) option" where
  "received D a result v =
     (if limit_exceeded v then Inl TransferLimit
      else bind_sum
        (case result of
           Inr served \<Rightarrow> Inr served
         | Inl e \<Rightarrow> if is_io_error e \<and> rejected v \<noteq> None then Inr None else Inl e)
        (\<lambda>served.
          case rejected v of
            Some f \<Rightarrow> Inl (rejects a f)
          | None \<Rightarrow>
              (case served of
                 None \<Rightarrow> Inr None
               | Some x \<Rightarrow>
                   (case finish_prefix D (art_check a) v of
                      Inl f \<Rightarrow> Inl (rejects a f)
                    | Inr _ \<Rightarrow> (case receiver_finish D v of
                        (d, n) \<Rightarrow> Inr (Some ((temp v, d, n), x)))))))"

definition receive ::
    "crates \<Rightarrow> artifact \<Rightarrow> bool \<Rightarrow> (sink_write \<Rightarrow> 'x option sink_action)
      \<Rightarrow> ((bytes \<times> string \<times> u64) \<times> 'x) option action" where
  "receive D a lim producer =
     bind_eff (map_err Io syscall) (\<lambda>_ w.
       case producer (receiver_write D (art_check a)) (w, receiver_new lim) of
         (result, (w', v)) \<Rightarrow> (received D a result v, w'))"

text \<open>A producer whose result is a \<open>bool\<close>: whether there was an object.\<close>

definition served :: "bool sink_action \<Rightarrow> unit option sink_action" where
  "served m = bind_eff m (\<lambda>b. ret (if b then Some () else None))"

text \<open>\<open>Write::write_all\<close> on the sink, whose \<open>write\<close> takes every buffer whole.\<close>

definition write_all :: "sink_write \<Rightarrow> bytes \<Rightarrow> (sink, io_error, unit) eff" where
  "write_all write buf = (if buf = [] then ret () else write buf)"

section \<open>What a write does\<close>

text \<open>The receiver of a transfer no write of which has failed.\<close>

definition intact :: "crates \<Rightarrow> content_check \<Rightarrow> receiver \<Rightarrow> bool" where
  "intact D c v \<longleftrightarrow>
     hashed v = temp v \<and> rbytes v = length (temp v)
     \<and> head v = take PREFIX_BYTES (temp v)
     \<and> (prefix_checked v \<longleftrightarrow> PREFIX_BYTES \<le> length (temp v))
     \<and> (prefix_checked v \<longrightarrow> check_prefix D c (head v) = Inr ())"

lemma intact_new [simp]: "intact D c (receiver_new lim)"
  by (simp add: intact_def receiver_new_def PREFIX_BYTES_def)

lemma receiver_writeE:
  assumes "receiver_write D c buf s = (Inr (), s')"
  obtains w v w1 w2 v1 where "s = (w, v)" "charge (length buf) (w, v) = (Inr (), (w1, v))"
    "rejected v = None" "show_prefix D c buf (w1, v) = (Inr (), (w1, v1))" "w2 = next_step w1"
    "s' = (w2, v1\<lparr>temp := temp v1 @ buf, hashed := hashed v1 @ buf,
                  rbytes := rbytes v1 + length buf\<rparr>)"
  using assms unfolding receiver_write_def
  by (auto elim!: bind_eff_InrE
      simp: charge_def fail_if_rejected_def show_prefix_def store_bytes_def receiver_check_prefix_def
        syscall_def Let_def
      split: prod.splits if_splits option.splits sum.splits)

definition keeps_intact :: "crates \<Rightarrow> content_check \<Rightarrow> sink \<Rightarrow> sink \<Rightarrow> bool" where
  "keeps_intact D c s s' \<longleftrightarrow> (intact D c (snd s) \<longrightarrow> intact D c (snd s'))"

interpretation keeps_intact: frame "keeps_intact D c" for D c
  by unfold_locales (auto simp: keeps_intact_def)

lemma show_prefix_head:
  assumes "show_prefix D c buf (w, v) = (Inr (), (w, v'))" "intact D c v"
  shows "temp v' = temp v \<and> hashed v' = hashed v \<and> rbytes v' = rbytes v
     \<and> head v' = take PREFIX_BYTES (temp v @ buf)
     \<and> (prefix_checked v' \<longleftrightarrow> PREFIX_BYTES \<le> length (temp v) + length buf)
     \<and> (prefix_checked v' \<longrightarrow> check_prefix D c (head v') = Inr ())"
proof (cases "prefix_checked v")
  case True
  with assms show ?thesis by (auto simp: show_prefix_def intact_def)
next
  case False
  with assms(2) have short: "length (temp v) < PREFIX_BYTES" "head v = temp v"
    by (auto simp: intact_def)
  then have "head v @ take (min (PREFIX_BYTES - length (head v)) (length buf)) buf
      = take PREFIX_BYTES (temp v @ buf)"
    by (simp add: min_def)
  with False assms short show ?thesis
    by (auto simp: show_prefix_def intact_def receiver_check_prefix_def Let_def min_def
        split: if_splits sum.splits)
qed

lemma write_keeps_intact: "yields (keeps_intact D c) (receiver_write D c buf)"
proof (rule yieldsI)
  fix s x s' assume "receiver_write D c buf s = (Inr x, s')"
  then have run: "receiver_write D c buf s = (Inr (), s')" by simp
  then show "keeps_intact D c s s'"
  proof (cases rule: receiver_writeE)
    case (1 w v w1 w2 v1)
    then show ?thesis
      using show_prefix_head [OF 1(4)] by (auto simp: keeps_intact_def intact_def)
  qed
qed

text \<open>Every byte that reaches the temp file has been charged, whatever fails.\<close>

definition paid :: "sink \<Rightarrow> sink \<Rightarrow> bool" where
  "paid s s' \<longleftrightarrow> (case (s, s') of ((w, v), (w', v')) \<Rightarrow>
     limited v' = limited v \<and> (\<not> limited v \<longrightarrow> budget w' = budget w)
     \<and> (limited v \<longrightarrow> budget w' + length (temp v') \<le> budget w + length (temp v)
          \<and> length (temp v) \<le> length (temp v')))"

interpretation paid: frame paid
  by unfold_locales (auto simp: paid_def)

lemma charge_shape:
  assumes "charge n (w, v) = (r, (w', v'))"
  shows "temp v' = temp v \<and> limited v' = limited v \<and> head v' = head v
    \<and> prefix_checked v' = prefix_checked v \<and> rejected v' = rejected v
    \<and> (\<not> limited v \<longrightarrow> budget w' = budget w \<and> r = Inr ())
    \<and> (limited v \<longrightarrow> budget w' \<le> budget w \<and> (r = Inr () \<longrightarrow> budget w = budget w' + n))"
  using assms by (auto simp: charge_def checked_sub_Some split: if_splits option.splits)

lemma show_prefix_shape:
  assumes "show_prefix D c buf (w, v) = (r, (w', v'))"
  shows "w' = w \<and> temp v' = temp v \<and> limited v' = limited v"
  using assms
  by (auto simp: show_prefix_def receiver_check_prefix_def Let_def split: if_splits sum.splits)

lemma store_bytes_shape:
  assumes "store_bytes buf (w, v) = (r, (w', v'))"
  shows "w' = next_step w \<and> limited v' = limited v \<and> prefix_checked v' = prefix_checked v
    \<and> rejected v' = rejected v \<and> head v' = head v \<and> (\<exists>n. temp v' = temp v @ take n buf)"
proof -
  have "\<exists>n. buf = take n buf" by (rule exI [of _ "length buf"]) simp
  with assms show ?thesis by (auto simp: store_bytes_def syscall_def split: option.splits)
qed

lemma write_rest_shape:
  assumes "bind_eff fail_if_rejected (\<lambda>_. bind_eff (show_prefix D c buf) (\<lambda>_. store_bytes buf)) (w, v)
      = (r, (w', v'))"
  shows "budget w' = budget w \<and> limited v' = limited v \<and> (\<exists>n. temp v' = temp v @ take n buf)"
  using assms
proof (cases rule: bind_eff_cases)
  case (stop e)
  then show ?thesis by (auto simp: fail_if_rejected_def intro: exI [of _ 0] split: option.splits)
next
  case (go x s1)
  from go(1) have s1: "s1 = (w, v)" by (auto simp: fail_if_rejected_def split: option.splits)
  from go(2) [unfolded s1] show ?thesis
  proof (cases rule: bind_eff_cases)
    case (stop e)
    then show ?thesis by (auto dest!: show_prefix_shape intro: exI [of _ 0])
  next
    case (go y s2)
    then show ?thesis
      by (cases s2) (auto simp: next_step_def dest!: show_prefix_shape store_bytes_shape)
  qed
qed

lemma write_paid: "keeps paid (receiver_write D c buf)"
proof (rule keepsI)
  fix s r s' assume run: "receiver_write D c buf s = (r, s')"
  obtain w v where s: "s = (w, v)" by (cases s)
  from run show "paid s s'"
    unfolding receiver_write_def
  proof (cases rule: bind_eff_cases)
    case (stop e)
    then show ?thesis using s by (cases s') (auto simp: paid_def dest!: charge_shape)
  next
    case (go x s1)
    obtain w1 v1 where s1: "s1 = (w1, v1)" by (cases s1)
    have c: "temp v1 = temp v" "limited v1 = limited v" "\<not> limited v \<longrightarrow> budget w1 = budget w"
      "limited v \<longrightarrow> budget w = budget w1 + length buf"
      using charge_shape [of "length buf" w v _ w1 v1] go(1) s s1 by auto
    obtain n w' v' where s': "s' = (w', v')" "budget w' = budget w1" "limited v' = limited v1"
      "temp v' = temp v1 @ take n buf"
      using go(2) s1 by (cases s') (auto dest!: write_rest_shape)
    have "length (take n buf) \<le> length buf" by simp
    with c s' s show ?thesis by (auto simp: paid_def)
  qed
qed

text \<open>Until the prefix has been accepted, less than the prefix is on disk.\<close>

definition short :: "receiver \<Rightarrow> bool" where
  "short v \<longleftrightarrow>
     (\<not> prefix_checked v \<longrightarrow>
        rejected v = None \<and> length (temp v) \<le> length (head v) \<and> length (head v) < PREFIX_BYTES)
     \<and> (rejected v \<noteq> None \<longrightarrow> length (temp v) < PREFIX_BYTES)"

definition keeps_short :: "sink \<Rightarrow> sink \<Rightarrow> bool" where
  "keeps_short s s' \<longleftrightarrow> (short (snd s) \<longrightarrow> short (snd s'))"

interpretation keeps_short: frame keeps_short
  by unfold_locales (auto simp: keeps_short_def)

lemma short_new [simp]: "short (receiver_new lim)"
  by (simp add: short_def receiver_new_def PREFIX_BYTES_def)

lemma show_prefix_short:
  assumes "show_prefix D c buf (w, v) = (r, (w', v'))" "short v" "rejected v = None"
  shows "short v'"
    and "r = Inr () \<Longrightarrow> rejected v' = None"
    and "r = Inr () \<Longrightarrow> \<not> prefix_checked v' \<Longrightarrow> length (temp v) + length buf \<le> length (head v')"
  using assms
  by (auto simp: show_prefix_def short_def receiver_check_prefix_def Let_def
      split: if_splits sum.splits)

lemma write_keeps_short: "keeps keeps_short (receiver_write D c buf)"
proof (rule keepsI)
  fix s r s' assume run: "receiver_write D c buf s = (r, s')"
  obtain w v where s: "s = (w, v)" by (cases s)
  obtain w' v' where s': "s' = (w', v')" by (cases s')
  have "short v'" if sv: "short v"
    using run unfolding receiver_write_def
  proof (cases rule: bind_eff_cases)
    case (stop e)
    then show ?thesis using s s' sv by (auto simp: short_def dest!: charge_shape)
  next
    case (go x s1)
    obtain w1 v1 where s1: "s1 = (w1, v1)" by (cases s1)
    have sv1: "short v1" using go(1) s s1 sv by (auto simp: short_def dest!: charge_shape)
    from go(2) show ?thesis
    proof (cases rule: bind_eff_cases)
      case (stop e)
      then show ?thesis using s1 s' sv1 by (auto simp: fail_if_rejected_def)
    next
      case (go y s2)
      from go(1) have s2: "s2 = s1" and nr: "rejected v1 = None"
        by (auto simp: fail_if_rejected_def s1 split: option.splits)
      from go(2) [unfolded s2 s1] show ?thesis
      proof (cases rule: bind_eff_cases)
        case (stop e)
        then show ?thesis using show_prefix_short(1) [OF _ sv1 nr] s' by auto
      next
        case (go z s3)
        obtain w3 v3 where s3: "s3 = (w3, v3)" by (cases s3)
        from show_prefix_short [OF go(1) [unfolded s3] sv1 nr]
        have "short v3" "rejected v3 = None"
          "\<not> prefix_checked v3 \<Longrightarrow> length (temp v1) + length buf \<le> length (head v3)" by auto
        moreover have "temp v3 = temp v1" using show_prefix_shape [OF go(1) [unfolded s3]] by simp
        moreover obtain n where "temp v' = temp v3 @ take n buf" "rejected v' = rejected v3"
          "prefix_checked v' = prefix_checked v3" "head v' = head v3"
          using store_bytes_shape [of buf w3 v3 r w' v'] go(2) s3 s' by auto
        moreover have "length (take n buf) \<le> length buf" by simp
        ultimately show ?thesis by (auto simp: short_def)
      qed
    qed
  qed
  then show "keeps_short s s'" by (simp add: keeps_short_def s s')
qed

section \<open>Producers\<close>

text \<open>Steps of a producer between its writes: requests and reads, which change no stored state.\<close>

definition quiet :: "world \<Rightarrow> world \<Rightarrow> bool" where
  "quiet w w' \<longleftrightarrow> files w' = files w \<and> env w' = env w \<and> held w' = held w
     \<and> lock_log w' = lock_log w \<and> budget w' = budget w"

lemma quiet_refl [simp]: "quiet w w"
  by (simp add: quiet_def)

text \<open>What a whole transfer leaves alone.\<close>

definition still :: "world \<Rightarrow> world \<Rightarrow> bool" where
  "still w w' \<longleftrightarrow> files w' = files w \<and> env w' = env w \<and> held w' = held w \<and> lock_log w' = lock_log w"

interpretation still: frame still
  by unfold_locales (auto simp: still_def)

interpretation sink_still: frame "\<lambda>s s'. still (fst s) (fst s')"
  by unfold_locales (auto intro: still.trans_R still.refl_R)

lemma still_keeps:
  "keeps (same files) m \<Longrightarrow> keeps (same env) m \<Longrightarrow> keeps (same held) m \<Longrightarrow> keeps (same lock_log) m
    \<Longrightarrow> keeps still m"
  by (auto simp: keeps_def same_def still_def)

lemma still_syscall: "keeps still syscall"
  by (intro still_keeps keeps_prims observers)

lemma write_still: "keeps (\<lambda>s s'. still (fst s) (fst s')) (receiver_write D c buf)"
  unfolding receiver_write_def
proof (intro sink_still.keeps_bind)
  show "keeps (\<lambda>s s'. still (fst s) (fst s')) (charge n)" for n
    by (auto simp: keeps_def charge_def still_def env_def split: option.splits)
  show "keeps (\<lambda>s s'. still (fst s) (fst s')) fail_if_rejected"
    by (auto simp: keeps_def fail_if_rejected_def still_def)
  show "keeps (\<lambda>s s'. still (fst s) (fst s')) (show_prefix D c buf)"
    by (auto simp: keeps_def show_prefix_def receiver_check_prefix_def Let_def still_def
        split: sum.splits)
  show "keeps (\<lambda>s s'. still (fst s) (fst s')) (store_bytes buf)"
    by (auto simp: keeps_def store_bytes_def syscall_def still_def observers split: option.splits)
qed

locale producer =
  fixes produce :: "sink_write \<Rightarrow> 'x option sink_action"
  assumes produce_yields: "frame R \<Longrightarrow> (\<And>w w' v. quiet w w' \<Longrightarrow> R (w, v) (w', v)) \<Longrightarrow>
        (\<And>b. yields R (write b)) \<Longrightarrow> yields R (produce write)"
    and produce_keeps: "frame R \<Longrightarrow> (\<And>w w' v. quiet w w' \<Longrightarrow> R (w, v) (w', v)) \<Longrightarrow>
        (\<And>b. keeps R (write b)) \<Longrightarrow> keeps R (produce write)"
begin

lemma produce_intact:
  assumes "produce (receiver_write D c) (w, receiver_new lim) = (Inr x, (w', v))"
  shows "intact D c v"
proof -
  have "yields (keeps_intact D c) (produce (receiver_write D c))"
    by (intro produce_yields write_keeps_intact keeps_intact.frame_axioms)
       (simp add: keeps_intact_def)
  from yieldsD [OF this assms] show ?thesis by (simp add: keeps_intact_def)
qed

lemma produce_paid:
  assumes "produce (receiver_write D c) (w, receiver_new lim) = (r, (w', v))"
  shows "limited v = lim \<and> (\<not> lim \<longrightarrow> budget w' = budget w)
     \<and> (lim \<longrightarrow> budget w' + length (temp v) \<le> budget w)"
proof -
  have "keeps paid (produce (receiver_write D c))"
    by (intro produce_keeps write_paid paid.frame_axioms) (auto simp: paid_def quiet_def)
  from keepsD [OF this assms] show ?thesis by (auto simp: paid_def receiver_new_def)
qed

lemma produce_short:
  assumes "produce (receiver_write D c) (w, receiver_new lim) = (r, (w', v))"
  shows "short v"
proof -
  have "keeps keeps_short (produce (receiver_write D c))"
    by (intro produce_keeps write_keeps_short keeps_short.frame_axioms) (simp add: keeps_short_def)
  from keepsD [OF this assms] show ?thesis by (simp add: keeps_short_def)
qed

lemma receive_still: "keeps still (receive D a lim produce)"
  unfolding receive_def
proof (rule still.keeps_bind)
  show "keeps still (map_err Io syscall)" by (intro still.keeps_rules still_syscall)
  have "keeps (\<lambda>s s'. still (fst s) (fst s')) (produce (receiver_write D (art_check a)))"
    by (intro produce_keeps write_still sink_still.frame_axioms) (auto simp: still_def quiet_def)
  then show "keeps still (\<lambda>w. case produce (receiver_write D (art_check a)) (w, receiver_new lim) of
      (result, w', v) \<Rightarrow> (received D a result v, w'))" for u :: unit
    by (intro keepsI) (auto dest: keepsD split: prod.splits)
qed

lemma receive_spends: "keeps (\<lambda>w w'. budget w' \<le> budget w) (receive D a lim produce)"
proof (rule keepsI)
  fix w r w' assume "receive D a lim produce w = (r, w')"
  then show "budget w' \<le> budget w"
    unfolding receive_def
  proof (cases rule: bind_eff_cases)
    case (stop e)
    then show ?thesis
      by (auto simp: map_err_def syscall_def next_step_def split: option.splits prod.splits sum.splits)
  next
    case (go u w1)
    then obtain result v where
      run: "produce (receiver_write D (art_check a)) (w1, receiver_new lim) = (result, (w', v))"
      by (auto split: prod.splits)
    have "budget w1 = budget w" using go(1)
      by (auto simp: map_err_def syscall_def next_step_def split: option.splits prod.splits sum.splits)
    with produce_paid [OF run] show ?thesis by (cases lim) auto
  qed
qed

text \<open>What the store learns from a received object.\<close>

lemma receive_Some:
  assumes "receive D a lim produce w = (Inr (Some ((t, d, n), x)), w')"
  shows "d = sha256 D t" and "n = length t"
    and "check_prefix D (art_check a) (take PREFIX_BYTES t) = Inr ()"
    and "lim \<Longrightarrow> budget w' + length t \<le> budget w"
proof -
  from assms obtain w1 result v where
    sys: "map_err Io syscall w = (Inr (), w1)"
    and run: "produce (receiver_write D (art_check a)) (w1, receiver_new lim) = (result, (w', v))"
    and rc: "received D a result v = Inr (Some ((t, d, n), x))"
    unfolding receive_def by (auto elim!: bind_eff_InrE split: prod.splits)
  from rc obtain served where "result = Inr served"
    by (auto simp: received_def split: if_splits sum.splits option.splits)
  with run have i: "intact D (art_check a) v" by (auto dest: produce_intact)
  from rc have t: "t = temp v" "d = sha256 D (hashed v)" "n = rbytes v"
    "finish_prefix D (art_check a) v = Inr ()"
    by (auto simp: received_def receiver_finish_def split: if_splits sum.splits option.splits)
  with i show "d = sha256 D t" "n = length t"
    "check_prefix D (art_check a) (take PREFIX_BYTES t) = Inr ()"
    by (auto simp: intact_def finish_prefix_def split: if_splits)
  have "budget w1 = budget w"
    using sys by (rule sameD [where f = budget, rotated])
      (intro same.keeps_rules keeps_prims observers)
  with produce_paid [OF run] t(1) show "lim \<Longrightarrow> budget w' + length t \<le> budget w" by simp
qed

end

section \<open>Copying a file into the sink\<close>

lemma quiet_next: "quiet w (next_step w)"
  by (simp add: quiet_def observers)

lemma keeps_on_world:
  assumes "\<And>w w' v. quiet w w' \<Longrightarrow> R (w, v) (w', v)" "\<And>w r w'. m w = (r, w') \<Longrightarrow> quiet w w'"
  shows "keeps R (on_world m)"
  using assms by (intro keepsI) (auto simp: on_world_def split: prod.splits)

lemma quiet_syscall: "syscall w = (r, w') \<Longrightarrow> quiet w w'"
  by (auto dest!: syscall_result simp: quiet_next)

text \<open>\<open>std::io::copy\<close>: a buffer at a time, until a read returns nothing.\<close>

function chunks :: "bytes \<Rightarrow> bytes list" where
  "chunks c = (if c = [] then [] else take 8192 c # chunks (drop 8192 c))"
  by pat_completeness auto
termination by (relation "measure length") auto

declare chunks.simps [simp del]

lemma concat_chunks [simp]: "concat (chunks c) = c"
  by (induction c rule: chunks.induct) (subst chunks.simps, simp)

definition copy_chunk :: "sink_write \<Rightarrow> bytes \<Rightarrow> (sink, io_error, unit) eff" where
  "copy_chunk write b = bind_eff (on_world syscall) (\<lambda>_. write_all write b)"

definition io_copy :: "bytes \<Rightarrow> sink_write \<Rightarrow> (sink, io_error, unit) eff" where
  "io_copy c write = bind_eff (for_each (copy_chunk write) (chunks c)) (\<lambda>_. on_world syscall)"

definition copy_file :: "bytes \<Rightarrow> sink_write \<Rightarrow> bool sink_action" where
  "copy_file c write = bind_eff (map_err Io (io_copy c write)) (\<lambda>_. ret True)"

lemma served_yields: "frame R \<Longrightarrow> yields R m \<Longrightarrow> yields R (served m)"
  unfolding served_def by (intro frame.yields_rules)

lemma served_keeps: "frame R \<Longrightarrow> keeps R m \<Longrightarrow> keeps R (served m)"
  unfolding served_def by (intro frame.keeps_rules)

interpretation copying: producer "\<lambda>out. served (copy_file c out)" for c
proof
  fix R :: "sink \<Rightarrow> sink \<Rightarrow> bool" and out
  assume R: "frame R" and q: "\<And>w w' v. quiet w w' \<Longrightarrow> R (w, v) (w', v)"
  note sys = keeps_on_world [of R syscall, OF q quiet_syscall]
  note y = frame.yields_rules [OF R] and k = frame.keeps_rules [OF R]
  show "yields R (served (copy_file c out))" if "\<And>b. yields R (out b)"
    unfolding copy_file_def io_copy_def copy_chunk_def write_all_def
    by (intro served_yields [OF R] y keeps_yields [OF sys]) (auto intro: y that)
  show "keeps R (served (copy_file c out))" if "\<And>b. keeps R (out b)"
    unfolding copy_file_def io_copy_def copy_chunk_def write_all_def
    by (intro served_keeps [OF R] k sys) (auto intro: k that)
qed

section \<open>Transfers that succeed\<close>

text \<open>A transfer without failures, within its budget, of acceptable content.\<close>

definition receptive :: "crates \<Rightarrow> content_check \<Rightarrow> bytes \<Rightarrow> sink \<Rightarrow> bool" where
  "receptive D c rest s \<longleftrightarrow> (case s of (w, v) \<Rightarrow>
     reliable w \<and> intact D c v \<and> rejected v = None \<and> \<not> limit_exceeded v
     \<and> check_prefix D c (take PREFIX_BYTES (temp v @ rest)) = Inr ()
     \<and> (limited v \<longrightarrow> length rest \<le> budget w))"

lemma receptive_write:
  assumes "receptive D c (buf @ rest) (w, v)"
  shows "\<exists>w' v'. receiver_write D c buf (w, v) = (Inr (), (w', v'))
     \<and> receptive D c rest (w', v') \<and> temp v' = temp v @ buf \<and> limited v' = limited v"
proof -
  let ?w = "if limited v then w\<lparr>budget := budget w - length buf\<rparr> else w"
  have r: "reliable w" and i: "intact D c v" and nr: "rejected v = None" "\<not> limit_exceeded v"
    and cp: "check_prefix D c (take PREFIX_BYTES (temp v @ buf @ rest)) = Inr ()"
    and b: "limited v \<longrightarrow> length buf + length rest \<le> budget w"
    using assms by (simp_all add: receptive_def)
  have ch: "charge (length buf) (w, v) = (Inr (), (?w, v))"
    using b nr by (auto simp: charge_def checked_sub_def)
  have fr: "fail_if_rejected (?w, v) = (Inr (), (?w, v))"
    using nr by (simp add: fail_if_rejected_def)
  obtain v1 where sp: "show_prefix D c buf (?w, v) = (Inr (), (?w, v1))"
    and v1: "rejected v1 = None" "limit_exceeded v1 = limit_exceeded v" "limited v1 = limited v"
  proof (cases "prefix_checked v")
    case True
    with nr that show thesis by (simp add: show_prefix_def)
  next
    case False
    let ?h = "take PREFIX_BYTES (temp v @ buf)"
    have h: "head v @ take (min (PREFIX_BYTES - length (head v)) (length buf)) buf = ?h"
      using i False by (auto simp: intact_def min_def)
    have cpv: "check_prefix D c ?h = Inr ()" if "length ?h = PREFIX_BYTES"
    proof -
      have "PREFIX_BYTES \<le> length (temp v @ buf)" using that by simp
      then have "?h = take PREFIX_BYTES (temp v @ buf @ rest)" by (auto simp: le_diff_conv)
      with cp show ?thesis by (simp only:)
    qed
    let ?v1 = "if length ?h = PREFIX_BYTES then v\<lparr>head := ?h, prefix_checked := True\<rparr>
      else v\<lparr>head := ?h\<rparr>"
    have sp: "show_prefix D c buf (?w, v) = (Inr (), (?w, ?v1))"
      using False cpv by (simp add: show_prefix_def Let_def h receiver_check_prefix_def del: take_append length_take length_append)
    show thesis by (rule that [OF sp]) (use nr in simp_all)
  qed
  let ?v = "v1\<lparr>temp := temp v1 @ buf, hashed := hashed v1 @ buf, rbytes := rbytes v1 + length buf\<rparr>"
  have rw: "reliable ?w" using r by (simp add: reliable_def)
  have st: "store_bytes buf (?w, v1) = (Inr (), (next_step ?w, ?v))"
    by (simp add: store_bytes_def syscall_reliable [OF rw])
  have run: "receiver_write D c buf (w, v) = (Inr (), (next_step ?w, ?v))"
    unfolding receiver_write_def
    by (simp only: bind_eff_def prod.case sum.case ch fr sp st)
  have "temp v1 = temp v" using show_prefix_shape [OF sp] by simp
  moreover have "intact D c ?v"
    using write_keeps_intact [of D c buf] run i by (auto simp: yields_def keeps_intact_def)
  moreover have "limited v1 \<longrightarrow> length rest \<le> budget (next_step ?w)"
    using b v1(3) by (auto simp: next_step_def)
  ultimately have "receptive D c rest (next_step ?w, ?v)"
    using rw v1 cp nr unfolding receptive_def prod.case
    by (intro conjI) (simp_all del: take_append)
  with run v1(3) \<open>temp v1 = temp v\<close> show ?thesis
    by (intro exI [of _ "next_step ?w"] exI [of _ ?v] conjI) simp_all
qed

lemma receptive_world:
  "receptive D c rest (w, v) \<Longrightarrow> receptive D c rest (next_step w, v)"
  by (auto simp: receptive_def next_step_def reliable_def)

lemma copy_chunks_receptive:
  assumes "receptive D c (concat bs @ rest) (w, v)" "[] \<notin> set bs"
  shows "\<exists>w' v'. for_each (copy_chunk (receiver_write D c)) bs (w, v) = (Inr (), (w', v'))
     \<and> receptive D c rest (w', v') \<and> temp v' = temp v @ concat bs \<and> limited v' = limited v"
  using assms
proof (induction bs arbitrary: w v)
  case (Cons b bs)
  have "reliable w" using Cons.prems(1) by (simp add: receptive_def)
  then have sys: "on_world syscall (w, v) = (Inr (), (next_step w, v))"
    by (simp add: on_world_def syscall_reliable)
  have "receptive D c (b @ concat bs @ rest) (next_step w, v)"
    using Cons.prems(1) by (intro receptive_world) simp
  from receptive_write [OF this] obtain w1 v1 where
    1: "receiver_write D c b (next_step w, v) = (Inr (), (w1, v1))"
      "receptive D c (concat bs @ rest) (w1, v1)" "temp v1 = temp v @ b" "limited v1 = limited v"
    by blast
  from Cons.IH [OF 1(2)] Cons.prems(2) obtain w2 v2 where
    2: "for_each (copy_chunk (receiver_write D c)) bs (w1, v1) = (Inr (), (w2, v2))"
      "receptive D c rest (w2, v2)" "temp v2 = temp v1 @ concat bs" "limited v2 = limited v1"
    by auto
  have "for_each (copy_chunk (receiver_write D c)) (b # bs) (w, v) = (Inr (), (w2, v2))"
    using Cons.prems(2) sys 1(1) 2(1) by (auto simp: copy_chunk_def write_all_def bind_eff_def)
  with 1 2 show ?case by auto
qed auto

lemma chunks_nonempty: "[] \<notin> set (chunks c)"
  by (induction c rule: chunks.induct) (subst chunks.simps, simp)

text \<open>A file that passes the prefix check is received whole.\<close>

lemma receive_copy:
  assumes "reliable w" "check_prefix D (art_check a) (take PREFIX_BYTES c) = Inr ()"
    "lim \<longrightarrow> length c \<le> budget w"
  shows "\<exists>w'. receive D a lim (\<lambda>out. served (copy_file c out)) w
     = (Inr (Some ((c, sha256 D c, length c), ())), w')"
proof -
  let ?out = "receiver_write D (art_check a)"
  have sys: "map_err Io syscall w = (Inr (), next_step w)"
    by (simp add: map_err_def syscall_reliable [OF assms(1)])
  have "receptive D (art_check a) (concat (chunks c) @ []) (next_step w, receiver_new lim)"
    using assms by (simp add: receptive_def receiver_new_def next_step_def reliable_def
        intact_def PREFIX_BYTES_def)
  from copy_chunks_receptive [OF this chunks_nonempty] obtain w1 v1 where
    1: "for_each (copy_chunk ?out) (chunks c) (next_step w, receiver_new lim) = (Inr (), (w1, v1))"
      "receptive D (art_check a) [] (w1, v1)" "temp v1 = c"
    by (auto simp: receiver_new_def)
  have "reliable w1" using 1(2) by (simp add: receptive_def)
  then have run: "served (copy_file c ?out) (next_step w, receiver_new lim) = (Inr (Some ()), (next_step w1, v1))"
    using 1(1)
    by (simp add: served_def copy_file_def io_copy_def bind_eff_def map_err_def on_world_def syscall_reliable)
  have "received D a (Inr (Some ())) v1 = Inr (Some ((c, sha256 D c, length c), ()))"
    using 1(2,3)
    by (auto simp: received_def receptive_def finish_prefix_def receiver_finish_def intact_def)
  with run sys show ?thesis by (simp add: receive_def bind_eff_def)
qed

end
