(* ===== verification/Fetch.thy ===== *)
theory Fetch
  imports Receiver
begin

text \<open>
  \<open>src/fetch.rs\<close> and \<open>src/mirror/http.rs\<close>: requests with hand-followed redirects, streamed into a
  sink.  A response comes from \<open>net\<close> of the world, which sees the requests sent before (the
  cookie jar of the client is part of it); every request is appended to \<open>sent\<close>.  A credential
  provider is the pair of its two trait functions.  Progress reports are not modelled.

  The lemmas state which credentials travel where, how many requests one download makes and over
  which scheme, and that a download is a \<open>producer\<close>.
\<close>

section \<open>Credentials and providers\<close>

datatype credential = Basic string string | Bearer string "u64 option"

record provider =
  credential_for :: "string \<Rightarrow> datastore_error + credential option"
  identity_for :: "string \<Rightarrow> string option"

record download =
  dl_etag :: "string option"
  dl_identity :: "string option"

definition MAX_HOPS :: nat where
  "MAX_HOPS = 10"

section \<open>URLs\<close>

text \<open>Origin and path only: no query, no fragment, no userinfo.\<close>

definition sanitize :: "crates \<Rightarrow> string \<Rightarrow> string" where
  "sanitize D raw =
     (case url_parse D raw of
        Inr u \<Rightarrow>
          (case (host u, port u) of
             (Some h, Some p) \<Rightarrow> scheme u @ ''://'' @ h @ '':'' @ decimal p @ url_path u
           | (Some h, None) \<Rightarrow> scheme u @ ''://'' @ h @ url_path u
           | (None, _) \<Rightarrow> scheme u @ '':'' @ url_path u)
      | Inl _ \<Rightarrow> ''<unparseable url>'')"

definition parse_source_url :: "crates \<Rightarrow> string \<Rightarrow> datastore_error + parsed_url" where
  "parse_source_url D raw =
     (case url_parse D raw of
        Inl e \<Rightarrow> Inl (Config (''invalid source URL: '' @ e))
      | Inr u \<Rightarrow>
          if username u \<noteq> [] \<or> password u \<noteq> None
          then Inl (Config (''source URL '' @ sanitize D raw
                 @ '' carries userinfo; supply credentials through a CredentialProvider''))
          else if scheme u \<noteq> ''http'' \<and> scheme u \<noteq> ''https''
          then Inl (Config (''source URL '' @ sanitize D raw @ '' is not http(s)''))
          else Inr u)"

definition host_of :: "crates \<Rightarrow> parsed_url \<Rightarrow> datastore_error + string" where
  "host_of D u =
     ok_or (Config (''URL '' @ sanitize D (url_text u) @ '' has no host'')) (host u)"

text \<open>A redirect target is held to the rules of a source URL, and https is never left.\<close>

definition validate_hop :: "crates \<Rightarrow> parsed_url \<Rightarrow> parsed_url \<Rightarrow> datastore_error + parsed_url" where
  "validate_hop D from to_url =
     bind_sum (parse_source_url D (url_text to_url)) (\<lambda>checked.
       if scheme from = ''https'' \<and> scheme checked \<noteq> ''https''
       then Inl (Mirror (sanitize D (url_text from) @ '' redirected to plaintext ''
              @ sanitize D (url_text checked) @ ''; refusing the downgrade''))
       else Inr checked)"

section \<open>Requests\<close>

definition lookup :: "provider option \<Rightarrow> string \<Rightarrow> datastore_error + credential option" where
  "lookup provider h = (case provider of Some p \<Rightarrow> credential_for p h | None \<Rightarrow> Inr None)"

text \<open>The authorization header of a credential, and whether the credential looks expired.\<close>

definition apply_credential :: "credential option \<Rightarrow> (world, 'e, auth option \<times> bool) eff" where
  "apply_credential c =
     (case c of
        None \<Rightarrow> ret (None, False)
      | Some (Basic user secret) \<Rightarrow> ret (Some (Basic_auth user secret), False)
      | Some (Bearer secret expires_at) \<Rightarrow>
          (case expires_at of
             None \<Rightarrow> ret (Some (Bearer_auth secret), False)
           | Some at \<Rightarrow> bind_eff now_unix (\<lambda>now. ret (Some (Bearer_auth secret), at \<le> now))))"

definition send :: "request \<Rightarrow> (world, datastore_error, response) eff" where
  "send q w =
     ((case net w (sent w) q of None \<Rightarrow> Inl Http | Some r \<Rightarrow> Inr r),
      next_step (w\<lparr>sent := sent w @ [q]\<rparr>))"

definition is_redirection :: "nat \<Rightarrow> bool" where
  "is_redirection s \<longleftrightarrow> 300 \<le> s \<and> s < 400"

definition error_for_status :: "response \<Rightarrow> datastore_error + response" where
  "error_for_status r = (if 400 \<le> status r \<and> status r < 600 then Inl Http else Inr r)"

text \<open>The read loop: a read of no bytes ends the body.\<close>

fun stream_chunks :: "bytes list \<Rightarrow> bool \<Rightarrow> sink_write \<Rightarrow> u64 \<Rightarrow> (sink, io_error, u64) eff" where
  "stream_chunks [] fails out received_so_far =
     (if fails then throw (io_other ''error reading a body from connection'') else ret received_so_far)"
| "stream_chunks (b # bs) fails out received_so_far =
     (if b = [] then ret received_so_far
      else bind_eff (write_all out b) (\<lambda>_. stream_chunks bs fails out (received_so_far + length b)))"

definition stream :: "response \<Rightarrow> sink_write \<Rightarrow> u64 sink_action" where
  "stream r out = map_err Io (stream_chunks (body r) (body_fails r) out 0)"

text \<open>
  The hops that remain, from the URL of this one.  \<open>remaining\<close> counts down from \<open>MAX_HOPS\<close>, so the
  source's \<open>hop > 0\<close> is \<open>remaining < MAX_HOPS\<close>.
\<close>

definition choose_credential ::
    "provider option \<Rightarrow> source \<Rightarrow> bool \<Rightarrow> string \<Rightarrow> string \<Rightarrow> credential option
      \<Rightarrow> datastore_error + (credential option \<times> string)" where
  "choose_credential provider src redirected h origin_host origin =
     bind_sum (lookup provider h) (\<lambda>found.
       case found of
         Some c \<Rightarrow> Inr (Some c, h)
       | None \<Rightarrow>
           if redirected \<and> trust_redirects src then Inr (origin, origin_host) else Inr (None, h))"

definition respond ::
    "crates \<Rightarrow> sink_write \<Rightarrow> parsed_url \<Rightarrow> string \<Rightarrow> credential option \<Rightarrow> bool \<Rightarrow> string option
      \<Rightarrow> (parsed_url \<Rightarrow> download option sink_action) \<Rightarrow> response \<Rightarrow> download option sink_action" where
  "respond D out u h c looks_expired identity follow r =
     (if is_redirection (status r)
      then (case location_header r of
         None \<Rightarrow> throw (Mirror (h @ '' redirected without a Location header''))
       | Some location \<Rightarrow>
           (case url_join D u location of
              Inl e \<Rightarrow> throw (Mirror (''bad redirect from '' @ h @ '': '' @ e))
            | Inr target \<Rightarrow> bind_eff (of_sum (validate_hop D u target)) follow))
      else if status r = 401 \<or> status r = 403
      then throw (if c \<noteq> None then CredentialRejected h (status r) looks_expired
                  else NoCredential h)
      else if status r = 404 then ret None
      else bind_eff (of_sum (error_for_status r)) (\<lambda>r.
           bind_eff (stream r out) (\<lambda>_.
             ret (Some \<lparr>dl_etag = etag_header r, dl_identity = identity\<rparr>))))"

definition identity_after ::
    "provider option \<Rightarrow> credential option \<Rightarrow> string \<Rightarrow> string option \<Rightarrow> string option" where
  "identity_after provider c credential_host identity =
     (case (c, provider) of
        (Some _, Some p) \<Rightarrow> identity_for p credential_host
      | _ \<Rightarrow> identity)"

fun request_loop ::
    "crates \<Rightarrow> provider option \<Rightarrow> source \<Rightarrow> sink_write \<Rightarrow> string \<Rightarrow> credential option
      \<Rightarrow> nat \<Rightarrow> parsed_url \<Rightarrow> string option \<Rightarrow> download option sink_action" where
  "request_loop D provider src out origin_host origin 0 u identity =
     throw (Mirror (''more than '' @ decimal MAX_HOPS @ '' redirects from '' @ sanitize D (url src)))"
| "request_loop D provider src out origin_host origin (Suc remaining) u identity =
     bind_eff (of_sum (host_of D u)) (\<lambda>h.
     bind_eff (of_sum (choose_credential provider src (Suc remaining < MAX_HOPS) h origin_host origin))
       (\<lambda>(c, credential_host).
     bind_eff (on_world (apply_credential c)) (\<lambda>(a, looks_expired).
     bind_eff (on_world (send \<lparr>req_url = url_text u, req_auth = a\<rparr>)) (\<lambda>r.
       let identity = identity_after provider c credential_host identity in
       respond D out u h c looks_expired identity
         (\<lambda>u. request_loop D provider src out origin_host origin remaining u identity) r))))"

definition request ::
    "crates \<Rightarrow> provider option \<Rightarrow> source \<Rightarrow> sink_write \<Rightarrow> download option sink_action" where
  "request D provider src out =
     bind_eff (of_sum (parse_source_url D (url src))) (\<lambda>u.
     bind_eff (of_sum (host_of D u)) (\<lambda>origin_host.
     bind_eff (of_sum (lookup provider origin_host)) (\<lambda>origin.
       request_loop D provider src out origin_host origin MAX_HOPS u None)))"

section \<open>The HTTP mirror\<close>

record mirror_read =
  mirror_fetch :: "artifact_key \<Rightarrow> sink_write \<Rightarrow> bool sink_action"
  mirror_location :: "artifact_key \<Rightarrow> string"

definition http_mirror_base :: "crates \<Rightarrow> string \<Rightarrow> datastore_error + string" where
  "http_mirror_base D base_url =
     (case url_parse D base_url of
        Inl e \<Rightarrow> Inl (Mirror (''invalid mirror URL: '' @ e))
      | Inr u \<Rightarrow>
          if username u \<noteq> [] \<or> password u \<noteq> None
          then Inl (Mirror ''mirror URL must not carry userinfo'')
          else if \<not> (scheme u = ''http'' \<or> scheme u = ''https'')
          then Inl (Mirror ''mirror URL must be http(s)'')
          else Inr (trim_end_matches (CHR ''/'') (sanitize D base_url)))"

definition http_location :: "string \<Rightarrow> artifact_key \<Rightarrow> string" where
  "http_location base k = base @ ''/artifact/'' @ as_str k"

definition http_fetch :: "crates \<Rightarrow> string \<Rightarrow> artifact_key \<Rightarrow> sink_write \<Rightarrow> bool sink_action" where
  "http_fetch D base k out =
     handle (request D None (source_new (http_location base k)) out) (\<lambda>r.
       case r of
         Inr (Some _) \<Rightarrow> ret True
       | Inr None \<Rightarrow> ret False
       | Inl (NoCredential h) \<Rightarrow>
           throw (Mirror (h @ '' refused the request (HTTP 401/403); the mirror is expected to need no credentials''))
       | Inl e \<Rightarrow> throw e)"

definition http_mirror_new :: "crates \<Rightarrow> string \<Rightarrow> datastore_error + mirror_read" where
  "http_mirror_new D base_url =
     bind_sum (http_mirror_base D base_url) (\<lambda>base.
       Inr \<lparr>mirror_fetch = http_fetch D base, mirror_location = http_location base\<rparr>)"

section \<open>A download is a producer\<close>

lemma quiet_send: "send q w = (r, w') \<Longrightarrow> quiet w w'"
  by (auto simp: send_def next_step_def quiet_def env_def)

lemma quiet_apply: "apply_credential c w = (r, w') \<Longrightarrow> quiet w w'"
  by (auto simp: apply_credential_def bind_eff_def now_unix_def quiet_next
      split: option.splits credential.splits)

lemma stream_yields:
  assumes "frame R" "\<And>b. yields R (out b)"
  shows "yields R (stream r out)"
proof -
  note y = frame.yields_rules [OF assms(1)]
  have "yields R (stream_chunks bs fails out n)" for bs fails n
    by (induction bs arbitrary: n) (auto simp: write_all_def intro!: y assms(2))
  then show ?thesis unfolding stream_def by (intro y)
qed

lemma stream_keeps:
  assumes "frame R" "\<And>b. keeps R (out b)"
  shows "keeps R (stream r out)"
proof -
  note k = frame.keeps_rules [OF assms(1)]
  have "keeps R (stream_chunks bs fails out n)" for bs fails n
    by (induction bs arbitrary: n) (auto simp: write_all_def intro!: k assms(2))
  then show ?thesis unfolding stream_def by (intro k)
qed

lemma request_loop_yields:
  assumes R: "frame R" and q: "\<And>w w' v. quiet w w' \<Longrightarrow> R (w, v) (w', v)"
    and out: "\<And>b. yields R (out b)"
  shows "yields R (request_loop D provider src out oh oc n u identity)"
proof (induction n arbitrary: u identity)
  case 0
  show ?case unfolding request_loop.simps by (rule frame.yields_throw [OF R])
next
  case (Suc n)
  note y = frame.yields_rules [OF R]
  show ?case
    unfolding request_loop.simps respond_def Let_def
    by (intro y keeps_yields [OF keeps_on_world [of R "send _", OF q quiet_send]]
        keeps_yields [OF keeps_on_world [of R "apply_credential _", OF q quiet_apply]]
        stream_yields [OF R out] Suc.IH)
qed

lemma request_loop_keeps:
  assumes R: "frame R" and q: "\<And>w w' v. quiet w w' \<Longrightarrow> R (w, v) (w', v)"
    and out: "\<And>b. keeps R (out b)"
  shows "keeps R (request_loop D provider src out oh oc n u identity)"
proof (induction n arbitrary: u identity)
  case 0
  show ?case unfolding request_loop.simps by (rule frame.keeps_throw [OF R])
next
  case (Suc n)
  note k = frame.keeps_rules [OF R]
  show ?case
    unfolding request_loop.simps respond_def Let_def
    by (intro k keeps_on_world [of R "send _", OF q quiet_send]
        keeps_on_world [of R "apply_credential _", OF q quiet_apply]
        stream_keeps [OF R out] Suc.IH)
qed

lemma request_yields:
  assumes "frame R" "\<And>w w' v. quiet w w' \<Longrightarrow> R (w, v) (w', v)" "\<And>b. yields R (out b)"
  shows "yields R (request D provider src out)"
  unfolding request_def
  by (intro frame.yields_rules [OF assms(1)] request_loop_yields assms)

lemma request_keeps:
  assumes "frame R" "\<And>w w' v. quiet w w' \<Longrightarrow> R (w, v) (w', v)" "\<And>b. keeps R (out b)"
  shows "keeps R (request D provider src out)"
  unfolding request_def
  by (intro frame.keeps_rules [OF assms(1)] request_loop_keeps assms)

interpretation downloading: producer "request D provider src" for D provider src
  by unfold_locales (auto intro: request_yields request_keeps)

lemma http_fetch_keeps:
  assumes "frame R" "\<And>w w' v. quiet w w' \<Longrightarrow> R (w, v) (w', v)" "\<And>b. keeps R (out b)"
  shows "keeps R (http_fetch D base k out)"
  unfolding http_fetch_def
  by (intro frame.keeps_rules [OF assms(1)] request_keeps [OF assms])
     (auto intro: frame.keeps_rules [OF assms(1)] split: datastore_error.splits)

interpretation http: producer "\<lambda>out. served (http_fetch D base k out)" for D base k
proof
  fix R :: "sink \<Rightarrow> sink \<Rightarrow> bool" and out
  assume R: "frame R" and q: "\<And>w w' v. quiet w w' \<Longrightarrow> R (w, v) (w', v)"
  note y = frame.yields_rules [OF R]
  show "yields R (served (http_fetch D base k out))" if "\<And>b. yields R (out b)"
    unfolding http_fetch_def
    by (intro served_yields [OF R], rule frame.yields_handle [OF R request_yields [OF R q that]])
      (auto split: option.splits datastore_error.splits intro: y)
  show "keeps R (served (http_fetch D base k out))" if "\<And>b. keeps R (out b)"
    by (rule served_keeps [OF R http_fetch_keeps [OF R q that]])
qed

section \<open>Which requests a download makes\<close>

fun header_of :: "credential \<Rightarrow> auth" where
  "header_of (Basic user secret) = Basic_auth user secret"
| "header_of (Bearer secret _) = Bearer_auth secret"

text \<open>
  The rules for one request of a download: it goes to an http(s) URL without userinfo, to https
  when the source is https, and what it carries is the credential of its own host, or, for a
  source that trusts redirects, the credential of the source's host, or nothing.
\<close>

definition permitted ::
    "crates \<Rightarrow> provider option \<Rightarrow> source \<Rightarrow> parsed_url \<Rightarrow> string \<Rightarrow> request \<Rightarrow> bool" where
  "permitted D provider src u0 origin_host q \<longleftrightarrow>
     (\<exists>raw u h. url_parse D raw = Inr u \<and> req_url q = url_text u \<and> host u = Some h
        \<and> username u = [] \<and> password u = None \<and> (scheme u = ''http'' \<or> scheme u = ''https'')
        \<and> (scheme u0 = ''https'' \<longrightarrow> scheme u = ''https'')
        \<and> (req_auth q = None
           \<or> (\<exists>c. lookup provider h = Inr (Some c) \<and> req_auth q = Some (header_of c))
           \<or> (trust_redirects src \<and> lookup provider h = Inr None
                \<and> (\<exists>c. lookup provider origin_host = Inr (Some c) \<and> req_auth q = Some (header_of c)))))"

text \<open>At most \<open>n\<close> further requests, all of them satisfying \<open>P\<close>.\<close>

definition asks :: "(request \<Rightarrow> bool) \<Rightarrow> nat \<Rightarrow> world \<Rightarrow> world \<Rightarrow> bool" where
  "asks P n w w' \<longleftrightarrow> (\<exists>qs. sent w' = sent w @ qs \<and> length qs \<le> n \<and> (\<forall>q \<in> set qs. P q))"

lemma asks_same: "sent w' = sent w \<Longrightarrow> asks P n w w'"
  by (auto simp: asks_def intro: exI [of _ "[]"])

lemma asks_trans:
  assumes "asks P m w w1" "asks P n w1 w2"
  shows "asks P (m + n) w w2"
proof -
  from assms obtain as bs where "sent w1 = sent w @ as" "sent w2 = sent w1 @ bs"
    "length as \<le> m" "length bs \<le> n" "\<forall>q \<in> set as. P q" "\<forall>q \<in> set bs. P q"
    unfolding asks_def by auto
  then show ?thesis unfolding asks_def by (intro exI [of _ "as @ bs"]) auto
qed

lemma asks_mono: "asks P m w w' \<Longrightarrow> m \<le> n \<Longrightarrow> asks P n w w'"
  by (auto simp: asks_def)

lemma asks_0: "asks P 0 w w' \<longleftrightarrow> sent w' = sent w"
  by (auto simp: asks_def)

lemma parse_source_url_Inr:
  "parse_source_url D raw = Inr u \<Longrightarrow>
     url_parse D raw = Inr u \<and> username u = [] \<and> password u = None
     \<and> (scheme u = ''http'' \<or> scheme u = ''https'')"
  by (auto simp: parse_source_url_def split: sum.splits if_splits)

lemma validate_hop_Inr:
  "validate_hop D from target = Inr u \<Longrightarrow>
     parse_source_url D (url_text target) = Inr u \<and> (scheme from = ''https'' \<longrightarrow> scheme u = ''https'')"
  by (auto simp: validate_hop_def elim!: bind_sum_InrE split: if_splits)

lemma apply_credential_sent: "apply_credential c w = (r, w') \<Longrightarrow> sent w' = sent w"
  by (auto simp: apply_credential_def bind_eff_def now_unix_def observers
      split: option.splits credential.splits)

lemma apply_credential_header:
  "apply_credential c w = (Inr (a, b), w') \<Longrightarrow> a = map_option header_of c"
  by (auto simp: apply_credential_def elim!: bind_eff_InrE split: option.splits credential.splits)

lemma choose_credential_Inr:
  assumes "choose_credential provider src rd h oh origin = Inr (c, ch)"
  shows "c = None \<or> lookup provider h = Inr c
     \<or> (trust_redirects src \<and> lookup provider h = Inr None \<and> c = origin)"
  using assms by (auto simp: choose_credential_def elim!: bind_sum_InrE split: option.splits if_splits)

definition good_url :: "crates \<Rightarrow> parsed_url \<Rightarrow> parsed_url \<Rightarrow> bool" where
  "good_url D u0 u \<longleftrightarrow> (\<exists>raw. parse_source_url D raw = Inr u) \<and> (scheme u0 = ''https'' \<longrightarrow> scheme u = ''https'')"

lemma sink_stream_sent:
  assumes "\<And>b. keeps (same (sent \<circ> fst)) (out b)"
  shows "keeps (same (sent \<circ> fst)) (stream r out)"
  by (rule stream_keeps [OF same.frame_axioms assms])

lemma respond_asks:
  assumes out: "\<And>b. keeps (same (sent \<circ> fst)) (out b)"
    and good: "good_url D u0 u"
    and follow: "\<And>u t r t'. good_url D u0 u \<Longrightarrow> follow u t = (r, t') \<Longrightarrow> asks P n (fst t) (fst t')"
    and run: "respond D out u h c le identity follow r s = (x, s')"
  shows "asks P n (fst s) (fst s')"
proof (cases "is_redirection (status r)")
  case False
  have "keeps (same (sent \<circ> fst)) (respond D out u h c le identity follow r)"
    using False unfolding respond_def
    by (simp only: if_False) (intro same.keeps_rules sink_stream_sent out)
  from keepsD [OF this run] show ?thesis by (intro asks_same) (simp add: same_def)
next
  case True
  consider (stop) "s' = s" | (go) target u' where
    "validate_hop D u target = Inr u'" "follow u' s = (x, s')"
    using run True
    by (auto simp: respond_def split: option.splits sum.splits elim!: bind_eff_cases)
  then show ?thesis
  proof cases
    case go
    from validate_hop_Inr [OF go(1)] good have "good_url D u0 u'"
      by (auto simp: good_url_def)
    from follow [OF this go(2)] show ?thesis .
  qed (simp add: asks_same)
qed

text \<open>One hop: the URL's host, a credential for it, and the request.\<close>

lemma permitted_request:
  assumes "good_url D u0 u" "host u = Some h" "lookup provider oh = Inr origin"
    "choose_credential provider src rd h oh origin = Inr (c, ch)"
  shows "permitted D provider src u0 oh \<lparr>req_url = url_text u, req_auth = map_option header_of c\<rparr>"
proof -
  obtain raw where "parse_source_url D raw = Inr u" "scheme u0 = ''https'' \<longrightarrow> scheme u = ''https''"
    using assms(1) by (auto simp: good_url_def)
  moreover from choose_credential_Inr [OF assms(4)] have
    "c = None \<or> (\<exists>x. c = Some x \<and> lookup provider h = Inr (Some x))
     \<or> (trust_redirects src \<and> lookup provider h = Inr None \<and> (\<exists>x. c = Some x \<and> lookup provider oh = Inr (Some x)))"
    using assms(3) by (cases c) auto
  ultimately show ?thesis
    using parse_source_url_Inr [of D raw u] assms(2)
    unfolding permitted_def
    by (intro exI [where x = raw], intro exI [where x = u], intro exI [where x = h]) auto
qed

lemma send_asks: "P q \<Longrightarrow> send q w = (r, w') \<Longrightarrow> asks P 1 w w'"
  by (auto simp: send_def asks_def next_step_def intro: exI [of _ "[q]"])

lemma request_loop_asks:
  assumes out: "\<And>b. keeps (same (sent \<circ> fst)) (out b)"
    and origin: "lookup provider oh = Inr origin"
    and run: "request_loop D provider src out oh origin n u identity s = (r, s')"
    and good: "good_url D u0 u"
  shows "asks (permitted D provider src u0 oh) n (fst s) (fst s')"
  using run good
proof (induction n arbitrary: u identity s r s')
  case 0
  then show ?case by (simp add: asks_same)
next
  case (Suc n)
  let ?P = "permitted D provider src u0 oh"
  from Suc.prems(1) show ?case
    unfolding request_loop.simps
  proof (cases rule: bind_eff_cases)
    case (go h s1)
    then have h: "host u = Some h" "s1 = s" by (simp_all add: host_of_def)
    from go(2) show ?thesis
    proof (cases rule: bind_eff_cases)
      case (go cc s2)
      obtain c ch where cc: "cc = (c, ch)" by (cases cc)
      from go(1) cc h(2) have c: "choose_credential provider src (Suc n < MAX_HOPS) h oh origin = Inr (c, ch)"
        "s2 = s" by simp_all
      from go(2) [unfolded cc prod.case] show ?thesis
      proof (cases rule: bind_eff_cases)
        case (go al s3)
        obtain a le where al: "al = (a, le)" by (cases al)
        from go(1) c(2) al have a: "a = map_option header_of c" "sent (fst s3) = sent (fst s)"
          by (auto simp: on_world_def split: prod.splits
              dest: apply_credential_header apply_credential_sent)
        have ok: "?P \<lparr>req_url = url_text u, req_auth = a\<rparr>"
          using permitted_request [OF Suc.prems(2) h(1) origin c(1)] a(1) by simp
        have step: "asks ?P 1 (fst s) (fst t)"
          if "on_world (send \<lparr>req_url = url_text u, req_auth = a\<rparr>) s3 = (x, t)" for x t
          using that send_asks [of ?P, OF ok] asks_trans [of ?P 0 "fst s" "fst s3" 1] asks_same [OF a(2), of ?P 0]
          by (auto simp: on_world_def split: prod.splits)
        from go(2) [unfolded al prod.case] show ?thesis
        proof (cases rule: bind_eff_cases)
          case (stop e)
          from step [OF this(1)] show ?thesis by (rule asks_mono) simp
        next
          case (go resp s4)
          have "asks ?P n (fst s4) (fst s')"
            by (rule respond_asks [OF out Suc.prems(2) Suc.IH go(2) [unfolded Let_def]])
          from asks_trans [OF step [OF go(1)] this] show ?thesis by simp
        qed
      qed (use c in \<open>auto simp: on_world_def intro!: asks_same dest: apply_credential_sent split: prod.splits\<close>)
    qed (use h in \<open>auto intro: asks_same\<close>)
  qed (auto intro: asks_same)
qed

text \<open>A whole download.\<close>

lemma request_asks:
  assumes out: "\<And>b. keeps (same (sent \<circ> fst)) (out b)"
    and run: "request D provider src out s = (r, s')"
  shows "sent (fst s') = sent (fst s)
     \<or> (\<exists>u0 h. parse_source_url D (url src) = Inr u0 \<and> host u0 = Some h
          \<and> asks (permitted D provider src u0 h) MAX_HOPS (fst s) (fst s'))"
proof -
  consider (none) "s' = s" | (go) u0 h origin where "parse_source_url D (url src) = Inr u0"
    "host u0 = Some h" "lookup provider h = Inr origin"
    "request_loop D provider src out h origin MAX_HOPS u0 None s = (r, s')"
    using run unfolding request_def by (auto elim!: bind_eff_cases simp: host_of_def)
  then show ?thesis
  proof cases
    case go
    have "good_url D u0 u0" using go(1) by (auto simp: good_url_def)
    from request_loop_asks [OF out go(3,4) this] go(1,2) show ?thesis by blast
  qed simp
qed

end
