(* ===== verification/Blob_Index.thy ===== *)
theory Blob_Index
  imports Prelude
begin

text \<open>
  The contract between the on-disk layout and the store: an index of keys over content addressed
  blobs.  \<open>blob_index\<close> has the four operations that write, with the promise that each changes at
  most the one key or address it is called on, whatever fails, and that a successful call did what
  it says.  \<open>scanned_index\<close> adds a scan that misses no entry.  The lemmas are about the client: the
  two orders of calls (blob before entry when publishing, scan after removing the entry when
  evicting) whose every effect, complete or cut short, is a sequence of steps of an abstract index.
\<close>

section \<open>The abstract index\<close>

text \<open>
  What the store promises to its clients: entries \<open>E\<close> by key and blobs \<open>B\<close> by address.  A blob is only
  added where there is none and fits its address; an entry is only recorded when its blob is there;
  a blob only goes when no entry refers to it.
\<close>

inductive index_step ::
    "('e \<Rightarrow> 'd) \<Rightarrow> ('d \<Rightarrow> 'b \<Rightarrow> bool) \<Rightarrow> ('k \<Rightarrow> 'e option) \<times> ('d \<Rightarrow> 'b option)
      \<Rightarrow> ('k \<Rightarrow> 'e option) \<times> ('d \<Rightarrow> 'b option) \<Rightarrow> bool" for addr fits where
  add_blob: "B d = None \<Longrightarrow> fits d b \<Longrightarrow> index_step addr fits (E, B) (E, B(d \<mapsto> b))"
| put: "B (addr e) = Some b \<Longrightarrow> fits (addr e) b \<Longrightarrow> index_step addr fits (E, B) (E(k \<mapsto> e), B)"
| forget: "index_step addr fits (E, B) (E(k := None), B)"
| reclaim: "(\<And>k e. E k = Some e \<Longrightarrow> addr e \<noteq> d) \<Longrightarrow> index_step addr fits (E, B) (E, B(d := None))"

inductive_cases index_stepE: "index_step addr fits (E, B) (E', B')"

definition index_steps ::
    "('e \<Rightarrow> 'd) \<Rightarrow> ('d \<Rightarrow> 'b \<Rightarrow> bool) \<Rightarrow> ('k \<Rightarrow> 'e option) \<times> ('d \<Rightarrow> 'b option)
      \<Rightarrow> ('k \<Rightarrow> 'e option) \<times> ('d \<Rightarrow> 'b option) \<Rightarrow> bool" where
  "index_steps addr fits = (index_step addr fits)\<^sup>*\<^sup>*"

lemma index_steps_refl [simp]: "index_steps addr fits v v"
  by (simp add: index_steps_def)

lemma index_steps_trans: "index_steps addr fits u v \<Longrightarrow> index_steps addr fits v x \<Longrightarrow> index_steps addr fits u x"
  unfolding index_steps_def by (rule rtranclp_trans)

lemma index_steps_one: "index_step addr fits u v \<Longrightarrow> index_steps addr fits u v"
  unfolding index_steps_def by (rule r_into_rtranclp)

text \<open>Every entry is backed by a blob that fits its address, and stays so.\<close>

definition index_backed :: "('e \<Rightarrow> 'd) \<Rightarrow> ('d \<Rightarrow> 'b \<Rightarrow> bool) \<Rightarrow> ('k \<Rightarrow> 'e option) \<times> ('d \<Rightarrow> 'b option) \<Rightarrow> bool" where
  "index_backed addr fits = (\<lambda>(E, B).
     \<forall>k e. E k = Some e \<longrightarrow> (\<exists>b. B (addr e) = Some b \<and> fits (addr e) b))"

lemma index_step_backed: "index_step addr fits u v \<Longrightarrow> index_backed addr fits u \<Longrightarrow> index_backed addr fits v"
  by (induction rule: index_step.induct) (auto simp: index_backed_def split: if_splits)

lemma index_steps_backed: "index_steps addr fits u v \<Longrightarrow> index_backed addr fits u \<Longrightarrow> index_backed addr fits v"
  unfolding index_steps_def by (induction rule: rtranclp_induct) (auto dest: index_step_backed)

section \<open>The contract\<close>

locale blob_index =
  fixes wf :: "'s \<Rightarrow> bool"
    and entries :: "'s \<Rightarrow> 'k \<Rightarrow> 'e option"
    and blobs :: "'s \<Rightarrow> 'd \<Rightarrow> 'b option"
    and addr :: "'e \<Rightarrow> 'd"
    and fits :: "'d \<Rightarrow> 'b \<Rightarrow> bool"
    and proper :: "'k \<Rightarrow> 'e \<Rightarrow> bool"
    and put_entry :: "'k \<Rightarrow> 'e \<Rightarrow> ('s, 'x, unit) eff"
    and drop_entry :: "'k \<Rightarrow> ('s, 'x, bool) eff"
    and put_blob :: "'b \<Rightarrow> 'd \<Rightarrow> ('s, 'x, 'p option) eff"
    and drop_blob :: "'d \<Rightarrow> ('s, 'x, unit) eff"
  assumes put_entry_wf: "wf s \<Longrightarrow> put_entry k e s = (r, s') \<Longrightarrow> wf s'"
    and put_entry_blobs: "put_entry k e s = (r, s') \<Longrightarrow> blobs s' = blobs s"
    and put_entry_entries: "proper k e \<Longrightarrow> put_entry k e s = (r, s') \<Longrightarrow>
          entries s' = entries s \<or> entries s' = (entries s)(k \<mapsto> e)"
    and put_entry_done: "proper k e \<Longrightarrow> put_entry k e s = (Inr (), s') \<Longrightarrow>
          entries s' = (entries s)(k \<mapsto> e)"
    and drop_entry_wf: "wf s \<Longrightarrow> drop_entry k s = (r', s') \<Longrightarrow> wf s'"
    and drop_entry_blobs: "drop_entry k s = (r', s') \<Longrightarrow> blobs s' = blobs s"
    and drop_entry_entries: "drop_entry k s = (r', s') \<Longrightarrow>
          entries s' = entries s \<or> entries s' = (entries s)(k := None)"
    and drop_entry_done: "drop_entry k s = (Inr b', s') \<Longrightarrow> entries s' = (entries s)(k := None)"
    and put_blob_wf: "wf s \<Longrightarrow> put_blob b d s = (q, s') \<Longrightarrow> wf s'"
    and put_blob_entries: "put_blob b d s = (q, s') \<Longrightarrow> entries s' = entries s"
    and put_blob_blobs: "wf s \<Longrightarrow> put_blob b d s = (q, s') \<Longrightarrow>
          blobs s' = blobs s \<or> blobs s d = None \<and> blobs s' = (blobs s)(d \<mapsto> b)"
    and put_blob_done: "put_blob b d s = (Inr (Some p), s') \<Longrightarrow>
          (\<exists>c. blobs s' d = Some c \<and> (fits d c \<or> c = b))"
    and drop_blob_wf: "wf s \<Longrightarrow> drop_blob d s = (r, s') \<Longrightarrow> wf s'"
    and drop_blob_entries: "drop_blob d s = (r, s') \<Longrightarrow> entries s' = entries s"
    and drop_blob_blobs: "drop_blob d s = (r, s') \<Longrightarrow>
          blobs s' = blobs s \<or> blobs s' = (blobs s)(d := None)"
    and drop_blob_done: "drop_blob d s = (Inr (), s') \<Longrightarrow> blobs s' = (blobs s)(d := None)"
begin

definition view :: "'s \<Rightarrow> ('k \<Rightarrow> 'e option) \<times> ('d \<Rightarrow> 'b option)" where
  "view s = (entries s, blobs s)"

definition refines :: "'s \<Rightarrow> 's \<Rightarrow> bool" where
  "refines s s' \<longleftrightarrow> (wf s \<longrightarrow> wf s' \<and> index_steps addr fits (view s) (view s'))"

sublocale kc: frame refines
  by unfold_locales (auto simp: refines_def intro: index_steps_trans)

lemma refines_same: "wf s' = wf s \<Longrightarrow> entries s' = entries s \<Longrightarrow> blobs s' = blobs s \<Longrightarrow> refines s s'"
  by (simp add: refines_def view_def)

lemma refines_step: "(wf s \<Longrightarrow> wf s' \<and> index_step addr fits (view s) (view s')) \<Longrightarrow> refines s s'"
  by (simp add: refines_def index_steps_one)

lemma refines_put_blob:
  assumes "put_blob b d s = (q, s')" "fits d b"
  shows "refines s s'"
proof (cases "blobs s' = blobs s")
  case True
  with put_blob_wf [OF _ assms(1)] put_blob_entries [OF assms(1)] show ?thesis
    by (auto simp: refines_def view_def)
next
  case False
  with put_blob_wf [OF _ assms(1)] put_blob_blobs [OF _ assms(1)] put_blob_entries [OF assms(1)] assms(2)
  show ?thesis by (intro refines_step) (auto simp: view_def intro: index_step.add_blob)
qed

lemma refines_put_entry:
  assumes "put_entry k e s = (r, s')" "proper k e" "blobs s (addr e) = Some b" "fits (addr e) b"
  shows "refines s s'"
proof (cases "entries s' = entries s")
  case True
  with put_entry_wf [OF _ assms(1)] put_entry_blobs [OF assms(1)] show ?thesis
    by (auto simp: refines_def view_def)
next
  case False
  with put_entry_wf [OF _ assms(1)] put_entry_entries [OF assms(2,1)] put_entry_blobs [OF assms(1)] assms(3,4)
  show ?thesis by (intro refines_step) (auto simp: view_def intro: index_step.put)
qed

lemma refines_drop_entry: "drop_entry k s = (r, s') \<Longrightarrow> refines s s'"
  using drop_entry_entries [of k s r s'] drop_entry_blobs [of k s r s'] drop_entry_wf [of s k r s']
    index_step.forget [of addr fits "entries s" "blobs s" k]
  by (auto simp: refines_def view_def intro: index_steps_one)

lemma refines_drop_blob:
  assumes "drop_blob d s = (r, s')" "\<And>k e. wf s \<Longrightarrow> entries s k = Some e \<Longrightarrow> addr e \<noteq> d"
  shows "refines s s'"
proof (cases "blobs s' = blobs s")
  case True
  with drop_blob_wf [OF _ assms(1)] drop_blob_entries [OF assms(1)] show ?thesis
    by (auto simp: refines_def view_def)
next
  case False
  with drop_blob_wf [OF _ assms(1)] drop_blob_blobs [OF assms(1)] drop_blob_entries [OF assms(1)] assms(2)
  show ?thesis by (intro refines_step) (auto simp: view_def intro: index_step.reclaim)
qed

lemma keeps_drop_entry: "keeps refines (drop_entry k)"
  by (rule keepsI) (rule refines_drop_entry)

text \<open>Publication: the blob first, then the entry.\<close>

lemma keeps_publication:
  assumes "fits (addr e) b" "proper k e"
  shows "keeps refines
    (bind_eff (put_blob b (addr e)) (\<lambda>q. case q of None \<Rightarrow> throw x
       | Some p \<Rightarrow> bind_eff (put_entry k e) (\<lambda>_. ret p)))"
proof (rule keepsI)
  fix s r s'
  assume run: "bind_eff (put_blob b (addr e)) (\<lambda>q. case q of None \<Rightarrow> throw x
       | Some p \<Rightarrow> bind_eff (put_entry k e) (\<lambda>_. ret p)) s = (r, s')"
  then obtain q s1 where pb: "put_blob b (addr e) s = (q, s1)" by (metis surj_pair)
  have 1: "refines s s1"
    using pb assms(1) by (rule refines_put_blob)
  show "refines s s'"
  proof (cases "\<exists>p. q = Inr (Some p)")
    case False
    with run pb have "s' = s1" by (cases q) (auto simp: bind_eff_def split: option.splits)
    with 1 show ?thesis by simp
  next
    case True
    then obtain p where q: "q = Inr (Some p)" by blast
    with run pb obtain r2 where pe: "put_entry k e s1 = (r2, s')"
      by (auto simp: bind_eff_def split: prod.splits sum.splits)
    from put_blob_done [OF pb [unfolded q]] assms(1)
    obtain c where "blobs s1 (addr e) = Some c" "fits (addr e) c" by auto
    from refines_put_entry [OF pe assms(2) this] have "refines s1 s'" .
    with 1 show ?thesis by (rule kc.trans_R)
  qed
qed

lemma publication_done:
  assumes "bind_eff (put_blob b (addr e)) (\<lambda>q. case q of None \<Rightarrow> throw x
       | Some p \<Rightarrow> bind_eff (put_entry k e) (\<lambda>_. ret p)) s = (Inr p, s')"
    "fits (addr e) b" "proper k e"
  shows "entries s' = (entries s)(k \<mapsto> e) \<and> (\<exists>c. blobs s' (addr e) = Some c \<and> fits (addr e) c)"
proof -
  from assms(1) obtain s1 where
    pb: "put_blob b (addr e) s = (Inr (Some p), s1)" and pe: "put_entry k e s1 = (Inr (), s')"
    by (auto elim!: bind_eff_InrE split: option.splits)
  show ?thesis
    using put_blob_done [OF pb] put_blob_entries [OF pb] put_entry_done [OF assms(3) pe]
      put_entry_blobs [OF pe] assms(2) by auto
qed

end

text \<open>With a scan that misses no entry, evicting an unreferenced blob is safe.\<close>

locale scanned_index =
  blob_index wf entries blobs addr fits proper put_entry drop_entry put_blob drop_blob
  for wf :: "'s \<Rightarrow> bool"
    and entries :: "'s \<Rightarrow> 'k \<Rightarrow> 'e option"
    and blobs :: "'s \<Rightarrow> 'd \<Rightarrow> 'b option"
    and addr :: "'e \<Rightarrow> 'd"
    and fits :: "'d \<Rightarrow> 'b \<Rightarrow> bool"
    and proper :: "'k \<Rightarrow> 'e \<Rightarrow> bool"
    and put_entry :: "'k \<Rightarrow> 'e \<Rightarrow> ('s, 'x, unit) eff"
    and drop_entry :: "'k \<Rightarrow> ('s, 'x, bool) eff"
    and put_blob :: "'b \<Rightarrow> 'd \<Rightarrow> ('s, 'x, 'p option) eff"
    and drop_blob :: "'d \<Rightarrow> ('s, 'x, unit) eff" +
  fixes scan :: "('s, 'x, ('k \<times> 'e) list) eff"
  assumes scan_wf: "wf s \<Longrightarrow> scan s = (q', s') \<Longrightarrow> wf s'"
    and scan_entries: "scan s = (q', s') \<Longrightarrow> entries s' = entries s"
    and scan_blobs: "scan s = (q', s') \<Longrightarrow> blobs s' = blobs s"
    and scan_complete: "wf s \<Longrightarrow> scan s = (Inr xs, s') \<Longrightarrow> entries s k = Some e \<Longrightarrow> (k, e) \<in> set xs"
begin

lemma keeps_scan: "keeps refines scan"
proof (rule keepsI)
  fix s r s' assume sc: "scan s = (r, s')"
  from scan_wf [OF _ sc] scan_entries [OF sc] scan_blobs [OF sc] show "refines s s'"
    by (simp add: refines_def view_def)
qed

lemma keeps_reclaim:
  assumes m: "keeps refines m" and n: "\<And>y. keeps refines (n y)"
  shows "keeps refines
    (bind_eff scan (\<lambda>xs.
       if list_ex (\<lambda>(_, e). addr e = d) xs then m else bind_eff (drop_blob d) n))"
proof (rule keepsI)
  fix s r s'
  let ?g = "\<lambda>xs. if list_ex (\<lambda>(_, e). addr e = d) xs then m else bind_eff (drop_blob d) n"
  assume "bind_eff scan ?g s = (r, s')"
  then show "refines s s'"
  proof (cases rule: bind_eff_cases)
    case (stop e)
    then show ?thesis by (blast intro: keepsD [OF keeps_scan])
  next
    case (go xs s1)
    have 1: "refines s s1" by (rule keepsD [OF keeps_scan go(1)])
    show ?thesis
    proof (cases "list_ex (\<lambda>(_, e). addr e = d) xs")
      case True
      with go(2) 1 m show ?thesis by (auto intro: kc.trans_R dest: keepsD)
    next
      case False
      obtain q s2 where db: "drop_blob d s1 = (q, s2)" by (metis surj_pair)
      have 2: "refines s s2"
      proof (cases "wf s")
        case True
        have "addr e \<noteq> d" if "entries s1 k = Some e" for k e
          using scan_complete [OF True go(1), of k e] that False scan_entries [OF go(1)]
          by (force simp: list_ex_iff)
        with refines_drop_blob [OF db] 1 show ?thesis by (blast intro: kc.trans_R)
      qed (simp add: refines_def)
      have "refines s2 s'"
        using go(2) False db n by (cases q) (auto simp: bind_eff_def kc.refl_R dest: keepsD)
      with 2 show ?thesis by (rule kc.trans_R)
    qed
  qed
qed

end

end
