(* ===== verification/Layout.thy ===== *)
theory Layout
  imports Content_Check Blob_Index "HOL-Library.Product_Lexorder"
begin

text \<open>
  \<open>src/store/layout.rs\<close>: the on-disk layout of the cache, relative to its root.

  First the operations, statement by statement.  Then what a directory tree means as a cache:
  \<open>entry_text\<close> (the sidecar of a key), \<open>entry_of\<close> (the entry it parses to) and \<open>blob_of\<close> (the blob
  of a digest), with the effect of every operation on these views under every schedule of
  failures, and the completeness of the two scans.
\<close>

section \<open>Paths and locks\<close>

definition ensure :: "unit action" where
  "ensure = for_each (\<lambda>dir. map_err Io (create_dir_all [dir])) [''blobs'', ''index'', ''tmp'', ''locks'']"

definition blob_path :: "string \<Rightarrow> path" where
  "blob_path d = [''blobs'', take 2 d, d]"

definition index_path :: "artifact_key \<Rightarrow> path" where
  "index_path k = ''index'' # split_on (CHR ''/'') (as_str k @ ''.json'')"

definition display_path :: "path \<Rightarrow> string" where
  "display_path p = join (CHR ''/'') p"

definition tmp_file :: "bytes action" where
  "tmp_file = map_err Io (bind_eff syscall (\<lambda>_. ret []))"

definition lock_name :: "crates \<Rightarrow> artifact_key \<Rightarrow> string" where
  "lock_name D k = sha256 D (as_bytes (as_str k)) @ ''.lock''"

definition lock :: "crates \<Rightarrow> artifact_key \<Rightarrow> 'a action \<Rightarrow> 'a action" where
  "lock D k m = with_lock (lock_name D k) m"

definition store_lock :: "'a action \<Rightarrow> 'a action" where
  "store_lock m = with_lock ''.store.lock'' m"

section \<open>Sidecars\<close>

definition corrupt :: "artifact_key \<Rightarrow> string \<Rightarrow> datastore_error" where
  "corrupt k detail =
     Io (io_other (''corrupt index sidecar '' @ display_path (index_path k) @ '': '' @ detail))"

definition decode_entry :: "crates \<Rightarrow> artifact_key \<Rightarrow> string \<Rightarrow> datastore_error + index_entry" where
  "decode_entry D k text =
     (case from_json D text of
        Inl detail \<Rightarrow> Inl (corrupt k detail)
      | Inr entry \<Rightarrow>
          if is_digest (digest entry) then Inr entry
          else Inl (corrupt k ''digest is not 64 lowercase hex characters''))"

definition read_entry :: "crates \<Rightarrow> artifact_key \<Rightarrow> index_entry option action" where
  "read_entry D k = handle (read_to_string (index_path k)) (\<lambda>r.
     case r of
       Inl e \<Rightarrow> if io_kind e = Not_found then ret None else throw (Io e)
     | Inr text \<Rightarrow> bind_eff (of_sum (decode_entry D k text)) (\<lambda>entry. ret (Some entry)))"

text \<open>Make a rename durable: open the directory and sync it.\<close>

definition sync_dir :: "path \<Rightarrow> unit action" where
  "sync_dir dir = map_err Io (bind_eff syscall (\<lambda>_. syscall))"

definition write_entry :: "crates \<Rightarrow> artifact_key \<Rightarrow> index_entry \<Rightarrow> unit action" where
  "write_entry D k entry =
     (let p = index_path k; parent = butlast p in
      bind_eff (map_err Io (create_dir_all parent)) (\<lambda>_.
      bind_eff (map_err Io syscall) (\<lambda>_.
      bind_eff (map_err Io syscall) (\<lambda>_.
      bind_eff (map_err Io syscall) (\<lambda>_.
      bind_eff (map_err Io (persist (as_bytes (to_json D entry)) p)) (\<lambda>_.
        sync_dir parent))))))"

definition remove_entry :: "artifact_key \<Rightarrow> bool action" where
  "remove_entry k = handle (remove_file (index_path k)) (\<lambda>r.
     case r of
       Inr _ \<Rightarrow> ret True
     | Inl e \<Rightarrow> if io_kind e = Not_found then ret False else throw (Io e))"

text \<open>
  The keys a walk collects.  The first argument bounds the recursion by the depth of the tree
  (\<open>depth\<close>), which \<open>walk_complete\<close> shows to be enough.
\<close>

definition key_of_path :: "path \<Rightarrow> path \<Rightarrow> artifact_key option" where
  "key_of_path base p =
     (let text = display_path (drop (length base) p) in
      if \<not> utf8_valid (as_bytes text) then None
      else (case strip_suffix ''.json'' text of
              None \<Rightarrow> None
            | Some stem \<Rightarrow>
                (case artifact_key_new (replace_char (CHR 0x5C) (CHR ''/'') stem) of
                   Inl _ \<Rightarrow> None
                 | Inr k \<Rightarrow> Some k)))"

fun walk :: "nat \<Rightarrow> path \<Rightarrow> path \<Rightarrow> artifact_key list action" where
  "walk 0 base dir = ret []"
| "walk (Suc fuel) base dir =
     bind_eff (map_err Io (read_dir dir)) (\<lambda>entries.
       collect (\<lambda>p.
         bind_eff (is_dir p) (\<lambda>d.
           if d then walk fuel base p
           else ret (case key_of_path base p of None \<Rightarrow> [] | Some k \<Rightarrow> [k]))) entries)"

definition depth :: "world \<Rightarrow> nat" where
  "depth w = Suc (foldr max (map (length \<circ> fst) (files w)) 0)"

definition keys :: "artifact_key list action" where
  "keys w = bind_eff (is_dir [''index'']) (\<lambda>d.
     bind_eff (if d then walk (depth w) [''index''] [''index''] else ret []) (\<lambda>ks.
       ret (sort ks))) w"

section \<open>Blobs\<close>

definition publish_blob :: "crates \<Rightarrow> bytes \<Rightarrow> string \<Rightarrow> path option action" where
  "publish_blob D tmp d =
     (let p = blob_path d; parent = butlast p in
      bind_eff (is_file p) (\<lambda>exists.
        if exists
        then bind_eff (map_err Io (digest_file D (Stored p))) (\<lambda>actual.
          ret (if actual = d then Some p else None))
        else
          bind_eff (map_err Io (create_dir_all parent)) (\<lambda>_.
          bind_eff (map_err Io syscall) (\<lambda>_.
          bind_eff (map_err Io (persist tmp p)) (\<lambda>_.
          bind_eff (sync_dir parent) (\<lambda>_. ret (Some p)))))))"

definition file_type_is_file :: "path \<Rightarrow> bool io" where
  "file_type_is_file p = bind_eff syscall (\<lambda>_. gets (\<lambda>w. file_at w p \<noteq> None))"

definition list_blob :: "path \<Rightarrow> (string \<times> u64) list action" where
  "list_blob p =
     (let name = last p in
      if utf8_valid (as_bytes name) \<and> is_digest name
      then bind_eff (map_err Io (file_type_is_file p)) (\<lambda>regular.
        if regular
        then bind_eff (map_err Io (file_length p)) (\<lambda>len. ret [(name, len)])
        else ret [])
      else ret [])"

definition list_shard :: "path \<Rightarrow> (string \<times> u64) list action" where
  "list_shard shard =
     bind_eff (is_dir shard) (\<lambda>d.
       if d then bind_eff (map_err Io (read_dir shard)) (collect list_blob) else ret [])"

definition blobs :: "(string \<times> u64) list action" where
  "blobs =
     bind_eff (is_dir [''blobs'']) (\<lambda>d.
       if d
       then bind_eff (map_err Io (read_dir [''blobs''])) (\<lambda>shards.
         bind_eff (collect list_shard shards) (\<lambda>out. ret (sort out)))
       else ret [])"

definition remove_blob :: "string \<Rightarrow> unit action" where
  "remove_blob d = handle (remove_file (blob_path d)) (\<lambda>r.
     case r of
       Inr _ \<Rightarrow> ret ()
     | Inl e \<Rightarrow> if io_kind e = Not_found then ret () else throw (Io e))"


section \<open>Paths\<close>

lemma index_path_inject [simp]: "index_path j = index_path k \<longleftrightarrow> j = k"
  by (cases j; cases k) (simp add: index_path_def)

lemma blob_path_inject [simp]: "blob_path d = blob_path d' \<longleftrightarrow> d = d'"
  by (auto simp: blob_path_def)

lemma index_blob_distinct [simp]: "index_path k \<noteq> blob_path d" "blob_path d \<noteq> index_path k"
  by (simp_all add: index_path_def blob_path_def)

lemma index_path_not_Nil [simp]: "index_path k \<noteq> []"
  by (simp add: index_path_def)

lemma blob_path_not_Nil [simp]: "blob_path d \<noteq> []"
  by (simp add: blob_path_def)

lemma butlast_blob_path [simp]: "butlast (blob_path d) = [''blobs'', take 2 d]"
  by (simp add: blob_path_def)

section \<open>The cache a tree stands for\<close>

definition entry_text :: "world \<Rightarrow> artifact_key \<Rightarrow> bytes option" where
  "entry_text w k = file_at w (index_path k)"

definition parse_entry :: "crates \<Rightarrow> artifact_key \<Rightarrow> bytes \<Rightarrow> index_entry option" where
  "parse_entry D k c =
     (case from_utf8 c of
        None \<Rightarrow> None
      | Some text \<Rightarrow> (case decode_entry D k text of Inl _ \<Rightarrow> None | Inr e \<Rightarrow> Some e))"

definition entry_of :: "crates \<Rightarrow> world \<Rightarrow> artifact_key \<Rightarrow> index_entry option" where
  "entry_of D w k = (if valid_key k then Option.bind (entry_text w k) (parse_entry D k) else None)"

definition blob_of :: "world \<Rightarrow> string \<Rightarrow> bytes option" where
  "blob_of w d = file_at w (blob_path d)"

text \<open>At most the file \<open>p\<close> changes, and it changes to \<open>c\<close>.\<close>

definition may_set :: "path \<Rightarrow> bytes option \<Rightarrow> world \<Rightarrow> world \<Rightarrow> bool" where
  "may_set p c w w' \<longleftrightarrow> file_at w' = file_at w \<or> file_at w' = (file_at w)(p := c)"

interpretation may_set: frame "may_set p c"
  by unfold_locales (auto simp: may_set_def)

lemma keeps_may_set: "keeps (same file_at) m \<Longrightarrow> keeps (may_set p c) m"
  by (erule keeps_mono) (simp add: same_def may_set_def)

lemma observer_file_at [observers]: "observer file_at"
  by (auto simp: observer_def)

lemma persist_may_set: "keeps (may_set p (Some c)) (persist c p)"
proof (rule keepsI)
  fix w r w' assume "persist c p w = (r, w')"
  then show "may_set p (Some c) w w'"
    using persist_InrD [of c p w w'] persist_Inl [of c p w _ w']
    by (cases r) (auto simp: may_set_def file_at_set_file fun_eq_iff)
qed

lemma remove_file_may_set: "keeps (may_set p None) (remove_file p)"
proof (rule keepsI)
  fix w r w' assume "remove_file p w = (r, w')"
  then show "may_set p None w w'"
    using remove_file_InrD [of p w w'] remove_file_Inl [of p w _ w']
    by (cases r) (auto simp: may_set_def file_at_unset fun_eq_iff)
qed

section \<open>What each operation leaves alone\<close>

lemma keeps_read_entry [keeps_prims]: "observer f \<Longrightarrow> keeps (same f) (read_entry D k)"
  unfolding read_entry_def by (intro same.keeps_rules keeps_prims)

lemma keeps_sync_dir [keeps_prims]: "observer f \<Longrightarrow> keeps (same f) (sync_dir p)"
  unfolding sync_dir_def by (intro same.keeps_rules keeps_prims)

lemma keeps_tmp_file [keeps_prims]: "observer f \<Longrightarrow> keeps (same f) tmp_file"
  unfolding tmp_file_def by (intro same.keeps_rules keeps_prims)

lemma keeps_walk [keeps_prims]: "observer f \<Longrightarrow> keeps (same f) (walk n base dir)"
  by (induction n arbitrary: dir) (auto intro!: same.keeps_rules keeps_prims)

lemma keeps_keys [keeps_prims]:
  assumes "observer f"
  shows "keeps (same f) keys"
proof (rule keepsI)
  fix w r w' assume "keys w = (r, w')"
  moreover have "keeps (same f) (bind_eff (is_dir [''index'']) (\<lambda>d.
     bind_eff (if d then walk (depth w) [''index''] [''index''] else ret []) (\<lambda>ks. ret (sort ks))))"
    by (intro same.keeps_rules keeps_prims assms)
  ultimately show "same f w w'" by (auto simp: keys_def dest: keepsD)
qed

lemma keeps_list_blob [keeps_prims]: "observer f \<Longrightarrow> keeps (same f) (list_blob p)"
  unfolding list_blob_def Let_def file_type_is_file_def by (intro same.keeps_rules keeps_prims)

lemma keeps_list_shard [keeps_prims]: "observer f \<Longrightarrow> keeps (same f) (list_shard p)"
  unfolding list_shard_def by (intro same.keeps_rules keeps_prims)

lemma keeps_blobs [keeps_prims]: "observer f \<Longrightarrow> keeps (same f) blobs"
  unfolding blobs_def by (intro same.keeps_rules keeps_prims)


lemma keeps_write_entry [keeps_prims]: "tree_observer f \<Longrightarrow> keeps (same f) (write_entry D k e)"
  unfolding write_entry_def Let_def by (intro same.keeps_rules keeps_prims observer_tree)

lemma keeps_remove_entry [keeps_prims]: "tree_observer f \<Longrightarrow> keeps (same f) (remove_entry k)"
  unfolding remove_entry_def by (intro same.keeps_rules keeps_prims)

lemma keeps_remove_blob [keeps_prims]: "tree_observer f \<Longrightarrow> keeps (same f) (remove_blob d)"
  unfolding remove_blob_def by (intro same.keeps_rules keeps_prims)

lemma keeps_publish_blob [keeps_prims]: "tree_observer f \<Longrightarrow> keeps (same f) (publish_blob D tmp d)"
  unfolding publish_blob_def Let_def by (intro same.keeps_rules keeps_prims observer_tree)

lemma keeps_lock [keeps_prims]:
  "lock_observer f \<Longrightarrow> keeps (same f) m \<Longrightarrow> keeps (same f) (lock D k m)"
  unfolding lock_def by (rule keeps_with_lock)

lemma keeps_store_lock [keeps_prims]:
  "lock_observer f \<Longrightarrow> keeps (same f) m \<Longrightarrow> keeps (same f) (store_lock m)"
  unfolding store_lock_def by (rule keeps_with_lock)

section \<open>What each operation does\<close>

lemma decode_entry_Inr [simp]:
  "decode_entry D k text = Inr e \<longleftrightarrow> from_json D text = Inr e \<and> is_digest (digest e)"
  by (auto simp: decode_entry_def split: sum.splits)

lemma parse_entry_Some:
  "parse_entry D k c = Some e \<longleftrightarrow>
     (\<exists>t. c = as_bytes t \<and> utf8_valid c \<and> from_json D t = Inr e \<and> is_digest (digest e))"
  by (auto simp: parse_entry_def from_utf8_Some split: option.splits sum.splits)
     (auto simp: decode_entry_def from_utf8_as_bytes split: sum.splits if_splits)

lemma read_entry_Inr:
  assumes "read_entry D k w = (Inr r, w')"
  shows "(case r of
            None \<Rightarrow> entry_text w k = None
          | Some e \<Rightarrow> \<exists>c. entry_text w k = Some c \<and> parse_entry D k c = Some e)"
  using assms unfolding read_entry_def
  by (auto elim!: handleE bind_eff_cases dest!: read_to_string_InrD
      dest: read_to_string_not_found
      simp: entry_text_def parse_entry_Some
      split: sum.splits if_splits option.splits)

lemma read_entry_Some:
  assumes "read_entry D k w = (Inr (Some e), w')" "valid_key k"
  shows "entry_of D w k = Some e"
  using read_entry_Inr [OF assms(1)] assms(2) by (auto simp: entry_of_def)

lemma read_entry_None:
  assumes "read_entry D k w = (Inr None, w')"
  shows "entry_of D w k = None"
  using read_entry_Inr [OF assms] by (simp add: entry_of_def)

lemma entry_of_digest: "entry_of D w k = Some e \<Longrightarrow> is_digest (digest e)"
  by (auto simp: entry_of_def parse_entry_Some bind_eq_Some_conv split: if_splits)

lemma read_entry_digest: "read_entry D k w = (Inr (Some e), w') \<Longrightarrow> is_digest (digest e)"
  by (drule read_entry_Inr) (auto simp: parse_entry_Some)

lemma write_entry_effect: "keeps (may_set (index_path k) (Some (as_bytes (to_json D e)))) (write_entry D k e)"
  unfolding write_entry_def Let_def
  by (intro may_set.keeps_rules persist_may_set keeps_may_set)
     (intro same.keeps_rules keeps_prims observers create_dir_all_file_at)+

lemma write_entry_done:
  assumes "write_entry D k e w = (Inr (), w')"
  shows "file_at w' = (file_at w)(index_path k := Some (as_bytes (to_json D e)))"
proof -
  let ?c = "as_bytes (to_json D e)"
  let ?p = "index_path k"
  from assms obtain w1 w2 where
    pre: "bind_eff (map_err Io (create_dir_all (butlast ?p))) (\<lambda>_.
            bind_eff (map_err Io syscall) (\<lambda>_. bind_eff (map_err Io syscall) (\<lambda>_. map_err Io syscall)))
          w = (Inr (), w1)"
    and p: "persist ?c ?p w1 = (Inr (), w2)" and post: "sync_dir (butlast ?p) w2 = (Inr (), w')"
    unfolding write_entry_def Let_def
    by (auto elim!: bind_eff_InrE dest!: map_err_InrE simp: map_err_Inr bind_eff_Inr)
  have "file_at w1 = file_at w"
    using pre by (rule sameD [where f = file_at, rotated])
       (intro same.keeps_rules keeps_prims observers create_dir_all_file_at)
  moreover have "file_at w' = file_at w2"
    by (rule sameD [where f = file_at, OF keeps_sync_dir post]) (rule observers)
  ultimately show ?thesis
    using persist_InrD [OF p] by (auto simp: file_at_set_file fun_eq_iff)
qed

lemma remove_entry_effect: "keeps (may_set (index_path k) None) (remove_entry k)"
  unfolding remove_entry_def by (intro may_set.keeps_rules remove_file_may_set)

lemma remove_entry_done:
  assumes "remove_entry k w = (Inr b, w')"
  shows "file_at w' = (file_at w)(index_path k := None)"
  using assms unfolding remove_entry_def
  by (auto elim!: handleE dest!: remove_file_InrD remove_file_Inl
      simp: fun_eq_iff file_at_unset split: sum.splits if_splits)

lemma remove_blob_effect: "keeps (may_set (blob_path d) None) (remove_blob d)"
  unfolding remove_blob_def by (intro may_set.keeps_rules remove_file_may_set)

lemma remove_blob_done:
  assumes "remove_blob d w = (Inr (), w')"
  shows "file_at w' = (file_at w)(blob_path d := None)"
  using assms unfolding remove_blob_def
  by (auto elim!: handleE dest!: remove_file_InrD remove_file_Inl
      simp: fun_eq_iff file_at_unset split: sum.splits if_splits)

lemma publish_blob_effect: "keeps (may_set (blob_path d) (Some tmp)) (publish_blob D tmp d)"
  unfolding publish_blob_def Let_def
  by (intro may_set.keeps_rules persist_may_set keeps_may_set)
     (intro same.keeps_rules keeps_prims observers create_dir_all_file_at)+

text \<open>A blob that is there stays.\<close>

lemma publish_blob_present:
  assumes "sighted w" "blob_of w d \<noteq> None" "publish_blob D tmp d w = (r, w')"
  shows "file_at w' = file_at w"
proof -
  have "(is_file (blob_path d) :: bool action) w = (Inr True, next_step w)"
    using is_file_sighted [OF assms(1), of "blob_path d"] assms(2) by (auto simp: blob_of_def)
  with assms(3) have run: "bind_eff (map_err Io (digest_file D (Stored (blob_path d)))) (\<lambda>actual.
      ret (if actual = d then Some (blob_path d) else None)) (next_step w) = (r, w')"
    by (simp add: publish_blob_def Let_def bind_eff_def)
  have "keeps (same file_at) (bind_eff (map_err Io (digest_file D (Stored (blob_path d)))) (\<lambda>actual.
      ret (if actual = d then Some (blob_path d) else None)) :: path option action)"
    by (intro same.keeps_rules keeps_prims observers)
  from sameD [OF this run] show ?thesis by (simp add: fun_eq_iff)
qed

lemma publish_blob_done:
  assumes "publish_blob D tmp d w = (Inr (Some p), w')"
  shows "p = blob_path d"
    and "(\<exists>c. blob_of w d = Some c \<and> sha256 D c = d \<and> file_at w' = file_at w)
         \<or> file_at w' = (file_at w)(blob_path d := Some tmp)"
proof -
  let ?p = "blob_path d"
  obtain b w1 where b: "(is_file ?p :: bool action) w = (Inr b, w1)" by (simp add: is_file_run)
  have w1: "file_at w1 = file_at w"
    by (rule sameD [where f = file_at, OF keeps_is_file b]) (rule observers)
  show "p = ?p" using assms
    unfolding publish_blob_def Let_def
    by (auto elim!: bind_eff_InrE dest!: map_err_InrE split: if_splits)
  show "(\<exists>c. blob_of w d = Some c \<and> sha256 D c = d \<and> file_at w' = file_at w)
         \<or> file_at w' = (file_at w)(?p := Some tmp)"
  proof (cases b)
    case True
    with assms b obtain w2 where w2: "digest_file D (Stored ?p) w1 = (Inr d, w2)" "w' = w2"
      unfolding publish_blob_def Let_def
      by (auto simp: bind_eff_Inr elim!: bind_eff_InrE dest!: map_err_InrE split: if_splits)
    from w2(1) obtain c where "file_at w1 ?p = Some c" "sha256 D c = d"
      by (auto simp: digest_file_def open_ref_def elim!: bind_eff_InrE dest!: read_file_InrD)
    moreover have "file_at w2 = file_at w1"
      by (rule sameD [where f = file_at, OF keeps_digest_file w2(1)]) (rule observers)
    ultimately show ?thesis using w1 w2(2) by (auto simp: blob_of_def)
  next
    case False
    with assms b obtain w2 w3 where
      pre: "bind_eff (map_err Io (create_dir_all (butlast ?p))) (\<lambda>_. map_err Io syscall) w1 = (Inr (), w2)"
      and ps: "persist tmp ?p w2 = (Inr (), w3)" and post: "sync_dir (butlast ?p) w3 = (Inr (), w')"
      unfolding publish_blob_def Let_def
      by (auto simp: bind_eff_Inr map_err_Inr elim!: bind_eff_InrE dest!: map_err_InrE)
    have "file_at w2 = file_at w1"
      using pre by (rule sameD [where f = file_at, rotated])
         (intro same.keeps_rules keeps_prims observers create_dir_all_file_at)
    moreover have "file_at w' = file_at w3"
      by (rule sameD [where f = file_at, OF keeps_sync_dir post]) (rule observers)
    ultimately show ?thesis
      using persist_InrD [OF ps] w1 by (auto simp: file_at_set_file fun_eq_iff)
  qed
qed

lemma publish_blob_None:
  assumes "publish_blob D tmp d w = (Inr None, w')"
  shows "\<exists>c. blob_of w d = Some c \<and> sha256 D c \<noteq> d" and "file_at w' = file_at w"
proof -
  obtain b w1 where b: "(is_file (blob_path d) :: bool action) w = (Inr b, w1)" by (simp add: is_file_run)
  have w1: "file_at w1 = file_at w"
    by (rule sameD [where f = file_at, OF keeps_is_file b]) (rule observers)
  from assms b obtain a where a: "digest_file D (Stored (blob_path d)) w1 = (Inr a, w')" "a \<noteq> d"
    unfolding publish_blob_def Let_def
    by (auto simp: bind_eff_Inr elim!: bind_eff_InrE dest!: map_err_InrE split: if_splits)
  from a show "\<exists>c. blob_of w d = Some c \<and> sha256 D c \<noteq> d"
    using w1 by (auto simp: digest_file_def open_ref_def blob_of_def
        elim!: bind_eff_InrE dest!: read_file_InrD)
  have "file_at w' = file_at w1"
    by (rule sameD [where f = file_at, OF keeps_digest_file a(1)]) (rule observers)
  with w1 show "file_at w' = file_at w" by simp
qed

section \<open>The scans see everything\<close>

lemma observer_pair [observers]: "observer f \<Longrightarrow> observer g \<Longrightarrow> observer (\<lambda>w. (f w, g w))"
  by (simp add: observer_def)

text \<open>The tree and the environment, which no scan changes.\<close>

definition tree_env :: "world \<Rightarrow> (path \<times> node) list \<times> environment" where
  "tree_env w = (files w, env w)"

lemma observer_tree_env [observers]: "observer tree_env"
  unfolding tree_env_def [abs_def] by (intro observers)

lemma tree_env_same:
  assumes "same tree_env w w'"
  shows "files w' = files w" "env w' = env w" "sighted w' = sighted w" "reliable w' = reliable w"
    "wf_tree w' = wf_tree w"
    "\<And>p. node_at w' p = node_at w p" "\<And>p. file_at w' p = file_at w p"
    "\<And>p. children w' p = children w p"
  using assms
  by (auto simp: same_def tree_env_def env_def sighted_def reliable_def wf_tree_def node_at_def
      file_at_def children_def)

lemma wf_prefix:
  assumes "wf_tree w" "node_at w (p @ q) \<noteq> None" "q \<noteq> []"
  shows "node_at w p = Some Dir"
  using assms(2,3)
proof (induction q rule: rev_induct)
  case (snoc x q)
  have "node_at w (p @ q) = Some Dir"
    using wf_parent [OF assms(1) snoc.prems(1)] by (simp add: butlast_append)
  then show ?case using snoc.IH by (cases "q = []") auto
qed simp

lemma children_iff: "p \<in> set (children w d) \<longleftrightarrow> node_at w p \<noteq> None \<and> p \<noteq> [] \<and> butlast p = d"
  by (cases "p = []")
     (auto simp: children_def node_at_def map_of_eq_None_iff simp del: not_None_eq)

lemma file_at_node: "file_at w p \<noteq> None \<Longrightarrow> node_at w p \<noteq> None"
  by (cases "node_at w p") (simp_all add: file_at_def)

lemma walk_complete:
  assumes "wf_tree w" "sighted w" "walk n base dir w = (Inr ks, w')"
    "p = dir @ rest" "rest \<noteq> []" "length rest \<le> n" "file_at w p \<noteq> None" "key_of_path base p = Some k"
  shows "k \<in> set ks"
  using assms
proof (induction n arbitrary: dir rest w w' ks)
  case (Suc n)
  let ?f = "\<lambda>p. bind_eff (is_dir p) (\<lambda>d. if d then walk n base p
              else ret (case key_of_path base p of None \<Rightarrow> [] | Some k \<Rightarrow> [k]))"
  from Suc.prems(3) obtain w1 where
    rd: "read_dir dir w = (Inr (children w dir), w1)"
    and c: "collect ?f (children w dir) w1 = (Inr ks, w')"
    by (auto elim!: bind_eff_InrE dest!: map_err_InrE dest: read_dir_InrD)
  have "same tree_env w w1"
    using keepsD [OF keeps_read_dir [OF observer_tree_env] rd] .
  from Suc.prems(5) obtain x r where r: "rest = x # r" by (cases rest) auto
  let ?q = "dir @ [x]"
  have pq: "p = ?q @ r" using Suc.prems(4) r by simp
  have node: "node_at w ?q \<noteq> None"
  proof (cases "r = []")
    case True
    with pq file_at_node [OF Suc.prems(7)] show ?thesis by simp
  next
    case False
    have "node_at w (?q @ r) \<noteq> None" using file_at_node [OF Suc.prems(7)] pq by simp
    with wf_prefix [OF Suc.prems(1) _ False, of ?q] show ?thesis by simp
  qed
  then have "?q \<in> set (children w dir)" by (simp add: children_iff)
  moreover have "keeps (same tree_env) (?f y)" for y
    by (intro same.keeps_rules keeps_prims observers)
  ultimately obtain s1 ys s2 where
    f: "?f ?q s1 = (Inr ys, s2)" "set ys \<subseteq> set ks" "same tree_env w1 s1"
    using same.collect_mem [OF _ c, of tree_env ?q] by blast
  have t: "same tree_env w s1"
    using \<open>same tree_env w w1\<close> f(3) by (rule same.trans_R)
  show ?case
  proof (cases "r = []")
    case True
    then have "node_at s1 ?q \<noteq> Some Dir"
      using Suc.prems(7) pq tree_env_same(6) [OF t] by (auto simp: file_at_def split: node.splits)
    with f(1) have "ys = [k]"
      using True pq Suc.prems(8) by (auto simp: is_dir_run bind_eff_def)
    with f(2) show ?thesis by simp
  next
    case False
    have "node_at w (?q @ r) \<noteq> None" using file_at_node [OF Suc.prems(7)] pq by simp
    with wf_prefix [OF Suc.prems(1) _ False, of ?q] have "node_at s1 ?q = Some Dir"
      using tree_env_same(6) [OF t] by simp
    moreover have "sighted s1" using tree_env_same(3) [OF t] Suc.prems(2) by simp
    ultimately have wk: "walk n base ?q (next_step s1) = (Inr ys, s2)"
      using f(1) by (simp add: is_dir_sighted bind_eff_def)
    have "k \<in> set ys"
    proof (rule Suc.IH [OF _ _ wk pq False])
      show "wf_tree (next_step s1)" using tree_env_same(5) [OF t] Suc.prems(1) by simp
      show "sighted (next_step s1)" using \<open>sighted s1\<close> by simp
      show "length r \<le> n" using Suc.prems(6) r by simp
      show "file_at (next_step s1) p \<noteq> None" using Suc.prems(7) tree_env_same(7) [OF t] by simp
    qed (rule Suc.prems)
    with f(2) show ?thesis by blast
  qed
qed simp

lemma key_of_path_index:
  assumes "valid_key k"
  shows "key_of_path [''index''] (index_path k) = Some k"
proof -
  have "display_path (drop (length [''index'']) (index_path k)) = as_str k @ ''.json''"
    by (simp add: display_path_def index_path_def)
  moreover have "list_all (\<lambda>c. code c < 128) (as_str k @ ''.json'')"
    using valid_key_ascii [OF assms] by (simp add: list_all_iff)
  then have "utf8_valid (as_bytes (as_str k @ ''.json''))" by (rule utf8_valid_ascii_string)
  moreover have "strip_suffix ''.json'' (as_str k @ ''.json'') = Some (as_str k)"
    by (simp add: strip_suffix_Some)
  ultimately show ?thesis
    using artifact_key_new_valid [OF assms] valid_key_no_backslash [OF assms]
    by (simp add: key_of_path_def replace_char_absent)
qed

lemma key_of_path_valid: "key_of_path base p = Some k \<Longrightarrow> valid_key k"
  by (auto simp: key_of_path_def Let_def artifact_key_new_Inr
      split: if_splits option.splits sum.splits)

lemma walk_valid: "walk n base dir w = (Inr ks, w') \<Longrightarrow> k \<in> set ks \<Longrightarrow> valid_key k"
proof (induction n arbitrary: dir w w' ks)
  case (Suc n)
  let ?f = "\<lambda>p. bind_eff (is_dir p) (\<lambda>d. if d then walk n base p
              else ret (case key_of_path base p of None \<Rightarrow> [] | Some k \<Rightarrow> [k]))"
  from Suc.prems(1) obtain es w1 where c: "collect ?f es w1 = (Inr ks, w')"
    by (auto elim!: bind_eff_InrE)
  have "keeps (same tree_env) (?f y)" for y
    by (intro same.keeps_rules keeps_prims observers)
  from same.collect_from [OF this c Suc.prems(2)] obtain p s1 zs s2 where
    "?f p s1 = (Inr zs, s2)" "k \<in> set zs" by blast
  then consider (deep) s3 where "walk n base p s3 = (Inr zs, s2)" | (leaf) "key_of_path base p = Some k"
    by (auto elim!: bind_eff_InrE split: if_splits option.splits)
  then show ?case using \<open>k \<in> set zs\<close> by cases (auto intro: Suc.IH key_of_path_valid)
qed simp

lemma depth_bound:
  assumes "file_at w p \<noteq> None"
  shows "length p < depth w"
proof -
  have "p \<noteq> []" using assms by auto
  with file_at_node [OF assms] have "p \<in> fst ` set (files w)"
    by (simp add: node_at_def map_of_eq_None_iff del: not_None_eq)
  then have "length p \<in> set (map (length \<circ> fst) (files w))" by force
  then show ?thesis by (simp add: depth_def less_Suc_eq_le foldr_max_ge)
qed

lemma keys_InrE:
  assumes "keys w = (Inr ks, w')"
  obtains (absent) "blind w (steps w) \<or> node_at w [''index''] \<noteq> Some Dir" "ks = []"
    | (walked) ks' where "walk (depth w) [''index''] [''index''] (next_step w) = (Inr ks', w')"
        "ks = sort ks'"
  using assms unfolding keys_def
  by (auto simp: is_dir_run bind_eff_def split: if_splits prod.splits sum.splits)

lemma keys_valid: "keys w = (Inr ks, w') \<Longrightarrow> k \<in> set ks \<Longrightarrow> valid_key k"
  by (erule keys_InrE) (auto dest: walk_valid)

lemma keys_sorted: "keys w = (Inr ks, w') \<Longrightarrow> sorted ks"
  by (erule keys_InrE) auto

lemma keys_complete:
  assumes "keys w = (Inr ks, w')" "wf_tree w" "sighted w" "valid_key k" "entry_text w k \<noteq> None"
  shows "k \<in> set ks"
  using assms(1)
proof (cases rule: keys_InrE)
  case absent
  have f: "file_at w (index_path k) \<noteq> None" using assms(5) by (simp add: entry_text_def)
  have "node_at w ([''index''] @ split_on (CHR ''/'') (as_str k @ ''.json'')) \<noteq> None"
    using file_at_node [OF f] by (simp add: index_path_def)
  from wf_prefix [OF assms(2) this] absent assms(3) show ?thesis by (simp add: sighted_def)
next
  case (walked ks')
  have f: "file_at w (index_path k) \<noteq> None" using assms(5) by (simp add: entry_text_def)
  have "k \<in> set ks'"
  proof (rule walk_complete [OF _ _ walked(1)])
    show "index_path k = [''index''] @ split_on (CHR ''/'') (as_str k @ ''.json'')"
      by (simp add: index_path_def)
    show "length (split_on (CHR ''/'') (as_str k @ ''.json'')) \<le> depth w"
      using depth_bound [OF f] by (simp add: index_path_def)
  qed (use assms f key_of_path_index in auto)
  with walked(2) show ?thesis by simp
qed

section \<open>Listing the blobs\<close>

text \<open>A tree that holds only what this program writes.\<close>

definition tidy :: "world \<Rightarrow> bool" where
  "tidy w \<longleftrightarrow> (\<forall>p c. file_at w p = Some c \<longrightarrow>
     (\<exists>d. is_digest d \<and> p = blob_path d) \<or> (\<exists>k. valid_key k \<and> p = index_path k)
     \<or> hd p = ''tmp'' \<or> hd p = ''locks'')"

lemma file_length_next:
  "file_length p (next_step w) = (Inr n, w') \<Longrightarrow> file_at w p = Some c \<Longrightarrow> length c = n"
  using file_length_InrD [of p "next_step w"] by simp

lemma list_blob_Inr:
  assumes "list_blob p w = (Inr bs, w')"
  shows "set bs = (if is_digest (last p) \<and> utf8_valid (as_bytes (last p)) \<and> file_at w p \<noteq> None
                   then {(last p, length (the (file_at w p)))} else {})"
  using assms unfolding list_blob_def Let_def file_type_is_file_def
  by (auto elim!: bind_eff_InrE dest!: map_err_InrE syscall_result
      split: if_splits) (metis file_length_next)+

lemma is_digest_ascii: "is_digest d \<Longrightarrow> utf8_valid (as_bytes d)"
  by (rule utf8_valid_ascii_string)
     (auto simp: is_digest_def list_all_iff hex_digit_def is_ascii_digit_def)

text \<open>The rows \<open>blobs\<close> reports, read off the tree.\<close>

definition blob_row :: "world \<Rightarrow> path \<Rightarrow> (string \<times> u64) list" where
  "blob_row w p =
     (case file_at w p of
        Some c \<Rightarrow> if is_digest (last p) then [(last p, length c)] else []
      | None \<Rightarrow> [])"

definition shard_rows :: "world \<Rightarrow> path \<Rightarrow> (string \<times> u64) list" where
  "shard_rows w s =
     (if node_at w s = Some Dir then concat (map (blob_row w) (children w s)) else [])"

definition blob_rows :: "world \<Rightarrow> (string \<times> u64) list" where
  "blob_rows w =
     (if node_at w [''blobs''] = Some Dir
      then concat (map (shard_rows w) (children w [''blobs''])) else [])"

lemma list_blob_row:
  assumes "list_blob p w = (Inr bs, w')"
  shows "bs = blob_row w p"
  using assms is_digest_ascii unfolding list_blob_def Let_def file_type_is_file_def blob_row_def
  by (auto elim!: bind_eff_InrE dest!: map_err_InrE syscall_result
      split: if_splits option.splits) (metis file_length_next)

lemma blob_row_mem:
  "(d, n) \<in> set (blob_row w p) \<longleftrightarrow>
     is_digest d \<and> d = last p \<and> (\<exists>c. file_at w p = Some c \<and> n = length c)"
  by (cases "file_at w p") (auto simp: blob_row_def)

lemma tree_env_rows:
  assumes "same tree_env w w'"
  shows "blob_row w' p = blob_row w p" "shard_rows w' p = shard_rows w p"
  using tree_env_same [OF assms] by (simp_all add: blob_row_def [abs_def] shard_rows_def)

lemma list_shard_rows:
  assumes "list_shard s w = (Inr bs, w')" "sighted w"
  shows "bs = shard_rows w s"
proof (cases "node_at w s = Some Dir")
  case True
  with assms obtain w1 where
    rd: "read_dir s (next_step w) = (Inr (children w s), w1)"
    and c: "collect list_blob (children w s) w1 = (Inr bs, w')"
    unfolding list_shard_def
    by (auto simp: is_dir_sighted bind_eff_def map_err_def children_def
        split: prod.splits sum.splits dest!: read_dir_InrD)
  have "same tree_env (next_step w) w1"
    by (rule keepsD [OF keeps_read_dir [OF observer_tree_env] rd])
  then have t: "same tree_env w w1" by (simp add: same_def observers)
  have "bs = concat (map (blob_row w) (children w s))"
  proof (rule same.collect_pure [OF _ c t])
    show "keeps (same tree_env) (list_blob p)" for p by (intro keeps_prims observers)
    show "zs = blob_row w p" if "same tree_env w u" "list_blob p u = (Inr zs, u')" for p u zs u'
      using list_blob_row [OF that(2)] tree_env_rows [OF that(1)] by simp
  qed
  with True show ?thesis by (simp add: shard_rows_def)
next
  case False
  with assms show ?thesis
    unfolding list_shard_def by (simp add: is_dir_sighted bind_eff_def shard_rows_def)
qed

lemma blobs_rows:
  assumes "blobs w = (Inr bs, w')" "sighted w"
  shows "bs = sort (blob_rows w)"
proof (cases "node_at w [''blobs''] = Some Dir")
  case True
  with assms obtain w1 out where
    rd: "read_dir [''blobs''] (next_step w) = (Inr (children w [''blobs'']), w1)"
    and c: "collect list_shard (children w [''blobs'']) w1 = (Inr out, w')" "bs = sort out"
    unfolding blobs_def
    by (auto simp: is_dir_sighted bind_eff_def map_err_def children_def
        split: prod.splits sum.splits dest!: read_dir_InrD)
  have "same tree_env (next_step w) w1"
    by (rule keepsD [OF keeps_read_dir [OF observer_tree_env] rd])
  then have t: "same tree_env w w1" by (simp add: same_def observers)
  have "out = concat (map (shard_rows w) (children w [''blobs'']))"
  proof (rule same.collect_pure [OF _ c(1) t])
    show "keeps (same tree_env) (list_shard p)" for p by (intro keeps_prims observers)
    show "zs = shard_rows w p" if "same tree_env w u" "list_shard p u = (Inr zs, u')" for p u zs u'
      using list_shard_rows [OF that(2)] tree_env_same(3) [OF that(1)] assms(2)
        tree_env_rows [OF that(1)] by simp
  qed
  with True c(2) show ?thesis by (simp add: blob_rows_def)
next
  case False
  with assms show ?thesis
    unfolding blobs_def by (auto simp: is_dir_sighted bind_eff_def blob_rows_def)
qed

lemma blob_rows_iff:
  assumes "wf_tree w"
  shows "(d, n) \<in> set (blob_rows w) \<longleftrightarrow>
     is_digest d \<and> (\<exists>s c. file_at w [''blobs'', s, d] = Some c \<and> n = length c)"
proof
  assume "(d, n) \<in> set (blob_rows w)"
  then obtain s p c where
    "s \<in> set (children w [''blobs''])" "p \<in> set (children w s)" "file_at w p = Some c"
    "is_digest (last p)" "d = last p" "n = length c"
    by (auto simp: blob_rows_def shard_rows_def blob_row_mem split: if_splits)
  then show "is_digest d \<and> (\<exists>s c. file_at w [''blobs'', s, d] = Some c \<and> n = length c)"
    by (auto simp: children_iff) (metis append_butlast_last_id append_Cons append_Nil)
next
  assume "is_digest d \<and> (\<exists>s c. file_at w [''blobs'', s, d] = Some c \<and> n = length c)"
  then obtain s c where h: "is_digest d" "file_at w [''blobs'', s, d] = Some c" "n = length c" by blast
  have a: "node_at w ([''blobs'', s] @ [d]) \<noteq> None" "node_at w ([''blobs''] @ [s, d]) \<noteq> None"
    using file_at_node [of w "[''blobs'', s, d]"] h(2) by simp_all
  from wf_prefix [OF assms a(1)] wf_prefix [OF assms a(2)] have
    dirs: "node_at w [''blobs'', s] = Some Dir" "node_at w [''blobs''] = Some Dir" by simp_all
  then have "[''blobs'', s] \<in> set (children w [''blobs''])"
    "[''blobs'', s, d] \<in> set (children w [''blobs'', s])"
    using a by (simp_all add: children_iff)
  moreover have "(d, n) \<in> set (blob_row w [''blobs'', s, d])" using h by (simp add: blob_row_def)
  ultimately show "(d, n) \<in> set (blob_rows w)"
    using dirs by (auto simp: blob_rows_def shard_rows_def)
qed

section \<open>The layout keeps the contract of the store\<close>

lemma keeps_files_wf: "keeps (same files) m \<Longrightarrow> keeps keeps_wf m"
  by (rule keeps_wf_same_files)

lemma wf_syscall [wf_prims]: "keeps keeps_wf syscall"
  by (intro keeps_wf_same_files keeps_prims observers)

lemma wf_probe [wf_prims]: "keeps keeps_wf (is_file p)" "keeps keeps_wf (is_dir p)"
  by (intro keeps_wf_same_files keeps_prims observers)+

lemma wf_read_entry [wf_prims]: "keeps keeps_wf (read_entry D k)"
  by (intro keeps_wf_same_files keeps_prims observers)

lemma wf_write_entry [wf_prims]: "keeps keeps_wf (write_entry D k e)"
  unfolding write_entry_def Let_def sync_dir_def by (intro wf.keeps_rules wf_prims)

lemma wf_remove_entry [wf_prims]: "keeps keeps_wf (remove_entry k)"
  unfolding remove_entry_def by (intro wf.keeps_rules wf_prims)

lemma wf_digest_file [wf_prims]: "keeps keeps_wf (digest_file D r)"
  by (intro keeps_wf_same_files keeps_prims observers)

lemma wf_publish_blob [wf_prims]: "keeps keeps_wf (publish_blob D tmp d)"
  unfolding publish_blob_def Let_def sync_dir_def by (intro wf.keeps_rules wf_prims)

lemma wf_remove_blob [wf_prims]: "keeps keeps_wf (remove_blob d)"
  unfolding remove_blob_def by (intro wf.keeps_rules wf_prims)

text \<open>A tree the operating system could hold, read without misled probes.\<close>

definition clear :: "world \<Rightarrow> bool" where
  "clear w \<longleftrightarrow> wf_tree w \<and> sighted w"

lemma clear_next [simp]: "clear (next_step w) = clear w"
  by (simp add: clear_def)

lemma keeps_clear:
  assumes "keeps keeps_wf m" "keeps (same env) m" "clear w" "m w = (r, w')"
  shows "clear w'"
  using keepsD [OF assms(1,4)] sameD [OF assms(2,4)] assms(3)
  by (auto simp: clear_def keeps_wf_def env_def sighted_def)

definition proper_entry :: "crates \<Rightarrow> artifact_key \<Rightarrow> index_entry \<Rightarrow> bool" where
  "proper_entry D k e \<longleftrightarrow> valid_key k \<and> is_digest (digest e)
     \<and> from_json D (to_json D e) = Inr e \<and> utf8_valid (as_bytes (to_json D e))"

lemma entry_of_update:
  assumes "file_at w' = (file_at w)(index_path k := c)" "valid_key k"
  shows "entry_of D w' = (entry_of D w)(k := Option.bind c (parse_entry D k))"
  using assms by (auto simp: entry_of_def entry_text_def fun_eq_iff)

lemma blob_of_update:
  "file_at w' = (file_at w)(blob_path d := c) \<Longrightarrow> blob_of w' = (blob_of w)(d := c)"
  by (auto simp: blob_of_def fun_eq_iff)

lemma may_set_index:
  assumes "may_set (index_path k) c w w'"
  shows "blob_of w' = blob_of w"
    and "entry_of D w' = entry_of D w
       \<or> entry_of D w' = (entry_of D w)(k := if valid_key k then Option.bind c (parse_entry D k) else None)"
  using assms unfolding may_set_def
  by (auto simp: blob_of_def entry_of_def entry_text_def fun_eq_iff)

lemma may_set_blob:
  assumes "may_set (blob_path d) c w w'"
  shows "entry_of D w' = entry_of D w"
    and "blob_of w' = blob_of w \<or> blob_of w' = (blob_of w)(d := c)"
  using assms unfolding may_set_def
  by (auto simp: blob_of_def entry_of_def entry_text_def fun_eq_iff)

lemmas written = keepsD [OF write_entry_effect]
lemmas unlisted = keepsD [OF remove_entry_effect]
lemmas published = keepsD [OF publish_blob_effect]
lemmas erased = keepsD [OF remove_blob_effect]

lemma parse_proper:
  "proper_entry D k e \<Longrightarrow> parse_entry D k (as_bytes (to_json D e)) = Some e"
  by (auto simp: proper_entry_def parse_entry_Some)

lemma entry_of_remove:
  assumes "file_at w' = (file_at w)(index_path k := None)"
  shows "entry_of D w' = (entry_of D w)(k := None)"
  using assms by (auto simp: entry_of_def entry_text_def fun_eq_iff)

interpretation index: blob_index clear "entry_of D" blob_of digest "\<lambda>d c. sha256 D c = d"
  "proper_entry D" "write_entry D" remove_entry "publish_blob D" remove_blob for D
proof
  fix w w' k e r
  show "clear w'" if "clear w" "write_entry D k e w = (r, w')"
    by (rule keeps_clear [OF wf_write_entry _ that]) (intro keeps_prims observers)
  show "blob_of w' = blob_of w" if "write_entry D k e w = (r, w')"
    using written [OF that] by (rule may_set_index)
  show "entry_of D w' = entry_of D w \<or> entry_of D w' = (entry_of D w)(k \<mapsto> e)"
    if "proper_entry D k e" "write_entry D k e w = (r, w')"
    using may_set_index(2) [OF written [OF that(2)], of D] parse_proper [OF that(1)] that(1)
    by (simp add: proper_entry_def)
  show "entry_of D w' = (entry_of D w)(k \<mapsto> e)"
    if "proper_entry D k e" "write_entry D k e w = (Inr (), w')"
    using entry_of_update [OF write_entry_done [OF that(2)]] parse_proper [OF that(1)] that(1)
    by (simp add: proper_entry_def)
next
  fix w w' k r
  show "clear w'" if "clear w" "remove_entry k w = (r, w')"
    by (rule keeps_clear [OF wf_remove_entry _ that]) (intro keeps_prims observers)
  show "blob_of w' = blob_of w" if "remove_entry k w = (r, w')"
    using unlisted [OF that] by (rule may_set_index)
  show "entry_of D w' = entry_of D w \<or> entry_of D w' = (entry_of D w)(k := None)"
    if "remove_entry k w = (r, w')"
    using may_set_index(2) [OF unlisted [OF that], of D] by (cases "valid_key k") auto
  show "entry_of D w' = (entry_of D w)(k := None)" if "remove_entry k w = (Inr b, w')" for b
    using remove_entry_done [OF that] by (rule entry_of_remove)
next
  fix w w' c d r
  show "clear w'" if "clear w" "publish_blob D c d w = (r, w')"
    by (rule keeps_clear [OF wf_publish_blob _ that]) (intro keeps_prims observers)
  show "entry_of D w' = entry_of D w" if "publish_blob D c d w = (r, w')"
    using published [OF that] by (rule may_set_blob)
  show "blob_of w' = blob_of w \<or> blob_of w d = None \<and> blob_of w' = (blob_of w)(d \<mapsto> c)"
    if "clear w" "publish_blob D c d w = (r, w')"
  proof (cases "blob_of w d = None")
    case True
    with may_set_blob(2) [OF published [OF that(2)]] show ?thesis by simp
  next
    case False
    with that have "file_at w' = file_at w" by (intro publish_blob_present) (simp_all add: clear_def)
    then show ?thesis by (simp add: blob_of_def [abs_def])
  qed
  show "\<exists>b. blob_of w' d = Some b \<and> (sha256 D b = d \<or> b = c)"
    if "publish_blob D c d w = (Inr (Some p), w')" for p
    using publish_blob_done(2) [OF that] by (auto simp: blob_of_def)
next
  fix w w' d and r :: "datastore_error + unit"
  show "clear w'" if "clear w" "remove_blob d w = (r, w')"
    by (rule keeps_clear [OF wf_remove_blob _ that]) (intro keeps_prims observers)
  show "entry_of D w' = entry_of D w" if "remove_blob d w = (r, w')"
    using erased [OF that] by (rule may_set_blob)
  show "blob_of w' = blob_of w \<or> blob_of w' = (blob_of w)(d := None)" if "remove_blob d w = (r, w')"
    using erased [OF that] by (rule may_set_blob)
  show "blob_of w' = (blob_of w)(d := None)" if "remove_blob d w = (Inr (), w')"
    using remove_blob_done [OF that] by (rule blob_of_update)
qed

end
