(* ===== verification/Store.thy ===== *)
theory Store
  imports Fetch Layout
begin

text \<open>
  \<open>src/store/mod.rs\<close>: validation, publication, the resolution chain and the maintenance
  operations of \<open>Datastore\<close>.  The wall-clock duration of an outcome is left out.  The theorems
  about them are in the theories that import this one.
\<close>

section \<open>Validation\<close>

text \<open>Every \<open>Sha256\<close> pin in the tree, in order.\<close>

fun pinned_sha256s :: "content_check \<Rightarrow> string list" where
  "pinned_sha256s (Sha256 d) = [d]"
| "pinned_sha256s (All_of checks) = concat (map pinned_sha256s checks)"
| "pinned_sha256s _ = []"

fun without_sha256 :: "content_check \<Rightarrow> content_check" where
  "without_sha256 (Sha256 _) = No_check"
| "without_sha256 (All_of checks) = All_of (map without_sha256 checks)"
| "without_sha256 other = other"

definition reject :: "artifact \<Rightarrow> string \<Rightarrow> string \<Rightarrow> datastore_error" where
  "reject a name text = ContentRejected (key a) (failure name text)"

definition validate :: "crates \<Rightarrow> artifact \<Rightarrow> file_ref \<Rightarrow> u64 \<Rightarrow> string \<Rightarrow> unit action" where
  "validate D a f n d =
     bind_eff
       (case expected_bytes a of
          None \<Rightarrow> ret ()
        | Some expected \<Rightarrow>
            if expected \<noteq> n
            then throw (reject a ''expected_bytes'' (decimal n @ '' bytes, expected '' @ decimal expected))
            else ret ())
       (\<lambda>_. bind_eff
         (for_each (\<lambda>pin.
            if pin \<noteq> d then throw (reject a ''Sha256'' (''digest '' @ d @ '', expected '' @ pin))
            else ret ())
          (pinned_sha256s (art_check a)))
         (\<lambda>_. map_err (rejects a) (check_file D (without_sha256 (art_check a)) f)))"

section \<open>The store and its outcomes\<close>

record datastore =
  ds_mirror :: "mirror_read option"
  ds_provider :: "provider option"
  allow_upstream :: bool
  offline :: bool
  ds_max_bytes :: "u64 option"

record resolve_outcome =
  out_layer :: layer
  out_bytes :: u64
  source_index :: "nat option"

definition outcome :: "layer \<Rightarrow> u64 \<Rightarrow> nat option \<Rightarrow> resolve_outcome" where
  "outcome l n i = \<lparr>out_layer = l, out_bytes = n, source_index = i\<rparr>"

definition index_entry_new :: "string \<Rightarrow> u64 \<Rightarrow> layer \<Rightarrow> (world, 'e, index_entry) eff" where
  "index_entry_new d n l = bind_eff now_unix (\<lambda>now.
     ret \<lparr>digest = d, entry_bytes = n, fetched_at = now, entry_source = None, entry_etag = None,
          entry_identity = None, entry_layer = l\<rparr>)"

text \<open>\<open>Datastore::publish\<close>: validate, then blob and sidecar under the store lock.\<close>

definition publish :: "crates \<Rightarrow> artifact \<Rightarrow> bytes \<Rightarrow> index_entry \<Rightarrow> path action" where
  "publish D a tmp entry =
     bind_eff (validate D a (Temp tmp) (entry_bytes entry) (digest entry)) (\<lambda>_.
       store_lock (
         bind_eff (publish_blob D tmp (digest entry)) (\<lambda>published.
           case published of
             None \<Rightarrow> throw (reject a ''cached blob digest''
               (''an existing blob at '' @ digest entry
                @ '' no longer hashes to its address; run verify and remove the keys it reports''))
           | Some p \<Rightarrow> bind_eff (write_entry D (key a) entry) (\<lambda>_. ret p))))"

section \<open>Resolution\<close>

definition em_dash :: string where
  "em_dash = [CHR 0xE2, CHR 0x80, CHR 0x94]"

definition corrupt_blob :: "artifact \<Rightarrow> string \<Rightarrow> string \<Rightarrow> datastore_error" where
  "corrupt_blob a what text = reject a (''cached blob '' @ what)
     (text @ ''; the blob is corrupt '' @ em_dash @ '' run verify and remove the keys it reports'')"

text \<open>The part of \<open>local_hit\<close> after the pins: size, digest and the artifact's own check.\<close>

definition recheck_blob :: "crates \<Rightarrow> artifact \<Rightarrow> index_entry \<Rightarrow> path \<Rightarrow> unit action" where
  "recheck_blob D a entry p =
     bind_eff (map_err Io (file_length p)) (\<lambda>len.
       if len \<noteq> entry_bytes entry
       then throw (corrupt_blob a ''size''
         (decimal len @ '' bytes, but the index records '' @ decimal (entry_bytes entry)))
       else
         bind_eff (map_err Io (digest_file D (Stored p))) (\<lambda>actual.
           if actual \<noteq> digest entry
           then throw (corrupt_blob a ''digest''
             (actual @ '', but the index records '' @ digest entry))
           else validate D a (Stored p) (entry_bytes entry) actual))"

definition local_hit :: "crates \<Rightarrow> artifact \<Rightarrow> index_entry \<Rightarrow> path option action" where
  "local_hit D a entry =
     (let p = blob_path (digest entry) in
      bind_eff (is_file p) (\<lambda>present.
        if \<not> present then ret None
        else if list_ex (\<lambda>pin. pin \<noteq> digest entry) (pinned_sha256s (art_check a)) then ret None
        else bind_eff (recheck_blob D a entry p) (\<lambda>_. ret (Some p))))"

definition fetch_from_mirror ::
    "crates \<Rightarrow> artifact \<Rightarrow> mirror_read \<Rightarrow> bool \<Rightarrow> (path \<times> u64) option action" where
  "fetch_from_mirror D a m lim =
     bind_eff (receive D a lim (\<lambda>out. served (mirror_fetch m (key a) out))) (\<lambda>r.
       case r of
         None \<Rightarrow> ret None
       | Some ((tmp, d, n), _) \<Rightarrow>
           bind_eff (index_entry_new d n Mirror_layer) (\<lambda>entry.
             let entry = entry\<lparr>entry_source := Some (mirror_location m (key a))\<rparr> in
             bind_eff (publish D a tmp entry) (\<lambda>p. ret (Some (p, n)))))"

definition fetch_from_upstream ::
    "crates \<Rightarrow> datastore \<Rightarrow> artifact \<Rightarrow> source \<Rightarrow> bool \<Rightarrow> (path \<times> u64) action" where
  "fetch_from_upstream D ds a src lim =
     bind_eff (receive D a lim (request D (ds_provider ds) src)) (\<lambda>r.
       case r of
         None \<Rightarrow> throw (Mirror ''HTTP 404 Not Found'')
       | Some ((tmp, d, n), dl) \<Rightarrow>
           bind_eff (index_entry_new d n Upstream) (\<lambda>entry.
             let entry = entry\<lparr>entry_source := Some (sanitize D (url src)),
                               entry_etag := dl_etag dl, entry_identity := dl_identity dl\<rparr> in
             bind_eff (publish D a tmp entry) (\<lambda>p. ret (p, n))))"

text \<open>The local layer: a hit, or \<open>None\<close>.\<close>

definition from_local ::
    "crates \<Rightarrow> artifact \<Rightarrow> bool \<Rightarrow> (path \<times> resolve_outcome) option action" where
  "from_local D a lim =
     bind_eff (read_entry D (key a)) (\<lambda>entry.
       case entry of
         None \<Rightarrow> ret None
       | Some e \<Rightarrow>
           bind_eff (local_hit D a e) (\<lambda>hit.
             case hit of
               None \<Rightarrow> ret None
             | Some p \<Rightarrow>
                 bind_eff (gets budget) (\<lambda>left.
                   if lim \<and> left < entry_bytes e then throw TransferLimit
                   else ret (Some (p, outcome LocalDisk (entry_bytes e) None)))))"

text \<open>The mirror layer: a result, or the reason there is none.\<close>

definition from_mirror ::
    "crates \<Rightarrow> datastore \<Rightarrow> artifact \<Rightarrow> bool \<Rightarrow> (string + path \<times> resolve_outcome) action" where
  "from_mirror D ds a lim =
     (case ds_mirror ds of
        None \<Rightarrow> ret (Inl ''no mirror configured'')
      | Some m \<Rightarrow>
          handle (fetch_from_mirror D a m lim) (\<lambda>r.
            case r of
              Inr (Some (p, n)) \<Rightarrow> ret (Inr (p, outcome Mirror_layer n None))
            | Inr None \<Rightarrow> ret (Inl (mirror_location m (key a) @ '' has no entry''))
            | Inl e \<Rightarrow>
                if is_content_rejected e \<or> e = TransferLimit then throw e
                else ret (Inl (show_error e))))"

text \<open>The upstream layer: the sources in order.\<close>

fun try_sources ::
    "crates \<Rightarrow> datastore \<Rightarrow> artifact \<Rightarrow> bool \<Rightarrow> string list \<Rightarrow> nat \<Rightarrow> source list
      \<Rightarrow> (path \<times> resolve_outcome) action" where
  "try_sources D ds a lim attempts index [] = throw (AllSourcesFailed (key a) attempts)"
| "try_sources D ds a lim attempts index (src # rest) =
     handle (fetch_from_upstream D ds a src lim) (\<lambda>r.
       case r of
         Inr (p, n) \<Rightarrow> ret (p, outcome Upstream n (Some index))
       | Inl e \<Rightarrow>
           if e = TransferLimit then throw e
           else if (is_content_rejected e \<or> is_credential_error e) \<and> length (sources a) = 1
           then throw e
           else try_sources D ds a lim (attempts @ [sanitize D (url src) @ '': '' @ show_error e])
                  (Suc index) rest)"

definition get_with_budget ::
    "crates \<Rightarrow> datastore \<Rightarrow> artifact \<Rightarrow> bool \<Rightarrow> (path \<times> resolve_outcome) action" where
  "get_with_budget D ds a lim =
     lock D (key a) (
       bind_eff (from_local D a lim) (\<lambda>hit.
         case hit of
           Some r \<Rightarrow> ret r
         | None \<Rightarrow>
             if offline ds then throw (OfflineMiss (key a))
             else
               bind_eff (from_mirror D ds a lim) (\<lambda>m.
                 case m of
                   Inr r \<Rightarrow> ret r
                 | Inl mirror_reason \<Rightarrow>
                     if sources a = []
                     then throw (ManualRequired (key a) (description (art_provenance a)))
                     else if \<not> allow_upstream ds
                     then throw (MirrorUnreachable (key a) mirror_reason)
                     else try_sources D ds a lim [] 0 (sources a))))"

definition get_with_outcome ::
    "crates \<Rightarrow> datastore \<Rightarrow> artifact \<Rightarrow> (path \<times> resolve_outcome) action" where
  "get_with_outcome D ds a = get_with_budget D ds a False"

definition get :: "crates \<Rightarrow> datastore \<Rightarrow> artifact \<Rightarrow> path action" where
  "get D ds a = bind_eff (get_with_outcome D ds a) (\<lambda>(p, _). ret p)"

definition get_limited :: "crates \<Rightarrow> datastore \<Rightarrow> artifact \<Rightarrow> u64 \<Rightarrow> path action" where
  "get_limited D ds a n =
     bind_eff (modify (\<lambda>w. w\<lparr>budget := n\<rparr>)) (\<lambda>_.
     bind_eff (get_with_budget D ds a True) (\<lambda>(p, _). ret p))"

definition get_bytes :: "crates \<Rightarrow> datastore \<Rightarrow> artifact \<Rightarrow> bytes action" where
  "get_bytes D ds a = bind_eff (get D ds a) (\<lambda>p. map_err Io (read_file p))"

text \<open>The file to import lies outside the cache: its contents, or \<open>None\<close> when it cannot be opened.\<close>

definition import_file :: "crates \<Rightarrow> artifact \<Rightarrow> bytes option \<Rightarrow> path action" where
  "import_file D a file =
     lock D (key a) (
       bind_eff (map_err Io syscall) (\<lambda>_.
       bind_eff (of_sum (ok_or (Io not_found_error) file)) (\<lambda>content.
       bind_eff (receive D a False (\<lambda>out. served (copy_file content out))) (\<lambda>r.
         case r of
           None \<Rightarrow> throw (Io (io_other ''a local file is always served''))
         | Some ((tmp, d, n), _) \<Rightarrow>
             bind_eff (index_entry_new d n LocalDisk) (\<lambda>entry.
               publish D a tmp (entry\<lparr>entry_source := Some ''local:import''\<rparr>))))))"

section \<open>Queries\<close>

definition entry :: "crates \<Rightarrow> artifact_key \<Rightarrow> (world, 'e, index_entry option) eff" where
  "entry D k =
     handle (read_entry D k) (\<lambda>r.
       case r of
         Inr (Some e) \<Rightarrow>
           bind_eff (is_file (blob_path (digest e))) (\<lambda>present. ret (if present then Some e else None))
       | _ \<Rightarrow> ret None)"

definition peek :: "crates \<Rightarrow> artifact_key \<Rightarrow> (world, 'e, path option) eff" where
  "peek D k =
     handle (read_entry D k) (\<lambda>r.
       case r of
         Inr (Some e) \<Rightarrow>
           (let p = blob_path (digest e) in
            bind_eff (is_file p) (\<lambda>present. ret (if present then Some p else None)))
       | _ \<Rightarrow> ret None)"

definition contains_key :: "crates \<Rightarrow> artifact_key \<Rightarrow> (world, 'e, bool) eff" where
  "contains_key D k = bind_eff (peek D k) (\<lambda>p. ret (p \<noteq> None))"

definition entries :: "crates \<Rightarrow> (artifact_key \<times> index_entry) list action" where
  "entries D =
     bind_eff keys (collect (\<lambda>k.
       bind_eff (read_entry D k) (\<lambda>e. ret (case e of None \<Rightarrow> [] | Some e \<Rightarrow> [(k, e)]))))"

definition digest_referenced :: "crates \<Rightarrow> string \<Rightarrow> bool action" where
  "digest_referenced D d =
     bind_eff (entries D) (\<lambda>es. ret (list_ex (\<lambda>(_, e). digest e = d) es))"

definition u64_sum :: "u64 list \<Rightarrow> u64" where
  "u64_sum ns = foldl wrapping_add 0 ns"

definition total_bytes :: "u64 action" where
  "total_bytes = bind_eff blobs (\<lambda>bs. ret (u64_sum (map snd bs)))"

fun checked_sum :: "u64 \<Rightarrow> u64 list \<Rightarrow> datastore_error + u64" where
  "checked_sum n [] = Inr n"
| "checked_sum n (m # ms) =
     (case checked_add n m of
        None \<Rightarrow> Inl (Config ''cache byte count overflow'')
      | Some n \<Rightarrow> checked_sum n ms)"

definition blob_bytes :: "u64 action" where
  "blob_bytes = store_lock (bind_eff blobs (\<lambda>bs. of_sum (checked_sum 0 (map snd bs))))"

record verify_failure =
  vf_key :: artifact_key
  vf_expected :: string
  vf_actual :: "string option"
  vf_reason :: string

definition verify_entry ::
    "crates \<Rightarrow> artifact_key \<times> index_entry \<Rightarrow> verify_failure list action" where
  "verify_entry D = (\<lambda>(k, e).
     let p = blob_path (digest e) in
     bind_eff (is_file p) (\<lambda>present.
       if \<not> present
       then ret [\<lparr>vf_key = k, vf_expected = digest e, vf_actual = None,
                  vf_reason = ''blob '' @ digest e @ '' is missing''\<rparr>]
       else
         bind_eff (map_err Io (file_length p)) (\<lambda>len.
         bind_eff (map_err Io (digest_file D (Stored p))) (\<lambda>actual.
           ret (if actual \<noteq> digest e
                then [\<lparr>vf_key = k, vf_expected = digest e, vf_actual = Some actual,
                       vf_reason = ''blob hashes to '' @ actual @ '', index records '' @ digest e\<rparr>]
                else if len \<noteq> entry_bytes e
                then [\<lparr>vf_key = k, vf_expected = digest e, vf_actual = Some actual,
                       vf_reason = ''blob is '' @ decimal len @ '' bytes, index records ''
                         @ decimal (entry_bytes e)\<rparr>]
                else [])))))"

definition verify :: "crates \<Rightarrow> verify_failure list action" where
  "verify D = bind_eff (entries D) (collect (verify_entry D))"

section \<open>Removal and reclamation\<close>

definition remove :: "crates \<Rightarrow> artifact_key \<Rightarrow> unit action" where
  "remove D k =
     lock D k (store_lock (
       bind_eff (read_entry D k) (\<lambda>entry.
         case entry of
           None \<Rightarrow> ret ()
         | Some e \<Rightarrow>
             bind_eff (remove_entry k) (\<lambda>_.
             bind_eff (digest_referenced D (digest e)) (\<lambda>referenced.
               if referenced then ret () else remove_blob (digest e))))))"

text \<open>Delete the orphans among the blobs listed; the sizes of the others, by digest.\<close>

fun sweep ::
    "string list \<Rightarrow> (string \<times> u64) list \<Rightarrow> (string \<times> u64) list
      \<Rightarrow> (string \<times> u64) list action" where
  "sweep referenced sizes [] = ret sizes"
| "sweep referenced sizes ((d, len) # bs) =
     (if d \<in> set referenced then sweep referenced (AList.update d len sizes) bs
      else bind_eff (remove_blob d) (\<lambda>_. sweep referenced sizes bs))"

definition gc_scan :: "crates \<Rightarrow> ((artifact_key \<times> index_entry) list \<times> (string \<times> u64) list) action" where
  "gc_scan D =
     store_lock (
       bind_eff (entries D) (\<lambda>es.
       bind_eff blobs (\<lambda>bs.
       bind_eff (sweep (map (digest \<circ> snd) es) [] bs) (\<lambda>sizes. ret (es, sizes)))))"

text \<open>One eviction: the total that remains, and whether the key was removed.\<close>

definition gc_evict ::
    "crates \<Rightarrow> (string \<times> u64) list \<Rightarrow> u64 \<Rightarrow> artifact_key \<times> index_entry \<Rightarrow> (u64 \<times> bool) action" where
  "gc_evict D sizes left = (\<lambda>(k, snapshot).
     lock D k (store_lock (
       bind_eff (read_entry D k) (\<lambda>entry.
         case entry of
           None \<Rightarrow> ret (left, False)
         | Some e \<Rightarrow>
             if digest e \<noteq> digest snapshot then ret (left, False)
             else
               bind_eff (remove_entry k) (\<lambda>_.
               bind_eff (digest_referenced D (digest e)) (\<lambda>referenced.
                 if referenced then ret (left, True)
                 else
                   bind_eff (remove_blob (digest e)) (\<lambda>_.
                     ret (saturating_sub left
                            (case map_of sizes (digest e) of None \<Rightarrow> 0 | Some n \<Rightarrow> n), True))))))))"

fun gc_loop ::
    "crates \<Rightarrow> (string \<times> u64) list \<Rightarrow> u64 \<Rightarrow> u64 \<Rightarrow> (artifact_key \<times> index_entry) list
      \<Rightarrow> artifact_key list action" where
  "gc_loop D sizes limit left [] = ret []"
| "gc_loop D sizes limit left (e # es) =
     (if left \<le> limit then ret []
      else
        bind_eff (gc_evict D sizes left e) (\<lambda>(left, removed).
        bind_eff (gc_loop D sizes limit left es) (\<lambda>ks.
          ret (if removed then fst e # ks else ks))))"

definition gc :: "crates \<Rightarrow> u64 \<Rightarrow> artifact_key list action" where
  "gc D limit =
     bind_eff (gc_scan D) (\<lambda>(es, sizes).
       gc_loop D sizes limit (u64_sum (map snd sizes)) (sort_key (fetched_at \<circ> snd) es))"

end
