(* ===== verification/Store_Invariant.thy ===== *)
theory Store_Invariant
  imports Store
begin

text \<open>
  What every operation of the store keeps: the functional meaning of \<open>validate\<close>, the frames of the
  operations, and the invariant that every index entry is backed by a blob with its digest
  (\<open>index_backed\<close>), for every schedule of failures.
\<close>

section \<open>Validation means admissibility\<close>

lemma accepts_split:
  "accepts D c content \<longleftrightarrow>
     (\<forall>pin \<in> set (pinned_sha256s c). pin = sha256 D content) \<and> accepts D (without_sha256 c) content"
  by (induction D c content rule: accepts.induct) (auto simp: list_all_iff)

definition pin_check :: "artifact \<Rightarrow> string \<Rightarrow> string \<Rightarrow> unit action" where
  "pin_check a d = (\<lambda>pin.
     if pin \<noteq> d then throw (reject a ''Sha256'' (''digest '' @ d @ '', expected '' @ pin)) else ret ())"

lemma pin_checks_Inr:
  "for_each (pin_check a d) pins w = (Inr (), w') \<longleftrightarrow> w' = w \<and> (\<forall>pin \<in> set pins. pin = d)"
proof (induction pins)
  case (Cons pin pins)
  then show ?case by (cases "pin = d") (simp_all add: pin_check_def)
qed auto

lemma validate_Inr:
  "validate D a f n d w = (Inr (), w') \<longleftrightarrow>
     (case expected_bytes a of None \<Rightarrow> True | Some m \<Rightarrow> m = n)
     \<and> (\<forall>pin \<in> set (pinned_sha256s (art_check a)). pin = d)
     \<and> check_file D (without_sha256 (art_check a)) f w = (Inr (), w')"
  (is "?lhs \<longleftrightarrow> ?size \<and> ?pins \<and> ?file")
proof
  have v: "validate D a f n d =
     bind_eff
       (case expected_bytes a of
          None \<Rightarrow> ret ()
        | Some expected \<Rightarrow>
            if expected \<noteq> n
            then throw (reject a ''expected_bytes'' (decimal n @ '' bytes, expected '' @ decimal expected))
            else ret ())
       (\<lambda>_. bind_eff (for_each (pin_check a d) (pinned_sha256s (art_check a)))
         (\<lambda>_. map_err (rejects a) (check_file D (without_sha256 (art_check a)) f)))"
    by (simp add: validate_def pin_check_def)
  show "?size \<and> ?pins \<and> ?file" if ?lhs
    using that unfolding v
    by (auto elim!: bind_eff_InrE dest!: map_err_InrE simp: pin_checks_Inr
        split: option.splits if_splits)
  show ?lhs if "?size \<and> ?pins \<and> ?file"
  proof -
    from that have "for_each (pin_check a d) (pinned_sha256s (art_check a)) w = (Inr (), w)"
      by (simp add: pin_checks_Inr)
    with that show ?thesis
      unfolding v by (cases "expected_bytes a") (simp_all add: bind_eff_def map_err_def)
  qed
qed

lemma validate_sound:
  assumes "validate D a f (length c) (sha256 D c) w = (Inr (), w')" "ref_content w f = Some c"
  shows "admissible D a c"
  using assms check_file_sound [of D "without_sha256 (art_check a)" f w w']
  by (auto simp: validate_Inr admissible_def accepts_split [of D "art_check a"] split: option.splits)

lemma validate_complete:
  assumes "reliable w" "ref_content w f = Some c" "admissible D a c"
  shows "\<exists>w'. validate D a f (length c) (sha256 D c) w = (Inr (), w')"
  using assms check_file_complete [of w f c D "without_sha256 (art_check a)"]
  by (auto simp: validate_Inr admissible_def accepts_split [of D "art_check a"] split: option.splits)

section \<open>What the operations leave alone\<close>

lemma keeps_validate [keeps_prims]: "observer f \<Longrightarrow> keeps (same f) (validate D a r n d)"
  unfolding validate_def by (intro same.keeps_rules keeps_prims)

lemma keeps_index_entry_new [keeps_prims]: "observer f \<Longrightarrow> keeps (same f) (index_entry_new d n l)"
  unfolding index_entry_new_def by (intro same.keeps_rules keeps_prims)

lemma keeps_recheck_blob [keeps_prims]: "observer f \<Longrightarrow> keeps (same f) (recheck_blob D a e p)"
  unfolding recheck_blob_def by (intro same.keeps_rules keeps_prims)

lemma keeps_local_hit [keeps_prims]: "observer f \<Longrightarrow> keeps (same f) (local_hit D a e)"
  unfolding local_hit_def Let_def by (intro same.keeps_rules keeps_prims)

lemma keeps_from_local [keeps_prims]: "observer f \<Longrightarrow> keeps (same f) (from_local D a lim)"
  unfolding from_local_def by (intro same.keeps_rules keeps_prims)

lemma keeps_entries [keeps_prims]: "observer f \<Longrightarrow> keeps (same f) (entries D)"
  unfolding entries_def by (intro same.keeps_rules keeps_prims)

lemma keeps_digest_referenced [keeps_prims]: "observer f \<Longrightarrow> keeps (same f) (digest_referenced D d)"
  unfolding digest_referenced_def by (intro same.keeps_rules keeps_prims)

lemma keeps_verify_entry [keeps_prims]: "observer f \<Longrightarrow> keeps (same f) (verify_entry D x)"
  unfolding verify_entry_def Let_def by (intro same.keeps_rules keeps_prims)

lemma keeps_verify [keeps_prims]: "observer f \<Longrightarrow> keeps (same f) (verify D)"
  unfolding verify_def by (intro same.keeps_rules keeps_prims)

lemma keeps_entry [keeps_prims]: "observer f \<Longrightarrow> keeps (same f) (entry D k)"
  unfolding entry_def by (intro same.keeps_rules keeps_prims)

lemma keeps_peek [keeps_prims]: "observer f \<Longrightarrow> keeps (same f) (peek D k)"
  unfolding peek_def Let_def by (intro same.keeps_rules keeps_prims)

lemma keeps_sweep [keeps_prims]: "tree_observer f \<Longrightarrow> keeps (same f) (sweep refs sizes bs)"
  by (induction refs sizes bs rule: sweep.induct) (auto intro!: same.keeps_rules keeps_prims)

lemma keeps_publish_held: "keeps (same held) (publish D a tmp e)"
  unfolding publish_def store_lock_def
  by (intro same.keeps_rules keeps_prims observers with_lock_held)

section \<open>The store invariant\<close>

lemma safe_same:
  assumes "same tree_env w w'"
  shows "index.refines D w w'"
  using tree_env_same [OF assms]
  by (intro index.refines_same) (simp_all add: clear_def entry_of_def entry_text_def blob_of_def fun_eq_iff)

lemma keeps_safe_same: "keeps (same tree_env) m \<Longrightarrow> keeps (index.refines D) m"
  by (erule keeps_mono) (rule safe_same)

lemma with_lock_frame:
  assumes "frame R" "\<And>w w'. tree_env w' = tree_env w \<Longrightarrow> R w w'" "keeps R m"
  shows "keeps R (with_lock n m)"
proof (rule keepsI)
  fix w r w' assume "with_lock n m w = (r, w')"
  then show "R w w'"
    unfolding with_lock_def
  proof (cases rule: bind_eff_cases)
    case (stop e)
    have "keeps (same tree_env) (acquire n)"
      unfolding tree_env_def [abs_def] by (rule keeps_acquire) (simp add: lock_observer_def observers env_def)
    from sameD [OF this stop(1)] show ?thesis by (rule assms(2))
  next
    case (go u w1)
    have "keeps (same tree_env) (acquire n)"
      unfolding tree_env_def [abs_def] by (rule keeps_acquire) (simp add: lock_observer_def observers env_def)
    from sameD [OF this go(1)] have 1: "R w w1" by (rule assms(2))
    from go(2) obtain w2 where 2: "m w1 = (r, w2)" "w' = release w2" by (auto split: prod.splits)
    have "tree_env (release w2) = tree_env w2" by (simp add: tree_env_def release_def env_def)
    then have "R w2 w'" using 2(2) assms(2) by simp
    moreover have "R w1 w2" using keepsD [OF assms(3) 2(1)] .
    ultimately show ?thesis using 1 frame.trans_R [OF assms(1)] by blast
  qed
qed

lemma keeps_safe_lock:
  "keeps (index.refines D) m \<Longrightarrow> keeps (index.refines D) (with_lock n m)"
  by (rule with_lock_frame [OF index.kc.frame_axioms]) (auto intro: safe_same simp: same_def)

lemma still_tree_env: "still w w' \<Longrightarrow> same tree_env w w'"
  by (simp add: still_def same_def tree_env_def)

named_theorems safe_prims \<open>operations that keep the store invariant\<close>

lemma safe_validate [safe_prims]: "keeps (index.refines D) (validate D a r n d)"
  by (intro keeps_safe_same keeps_prims observers)

lemma safe_entry_new [safe_prims]: "keeps (index.refines D) (index_entry_new d n l)"
  by (intro keeps_safe_same keeps_prims observers)

lemma safe_from_local [safe_prims]: "keeps (index.refines D) (from_local D a lim)"
  by (intro keeps_safe_same keeps_prims observers)

lemma safe_read_entry [safe_prims]: "keeps (index.refines D) (read_entry D k)"
  by (intro keeps_safe_same keeps_prims observers)

lemma safe_syscall [safe_prims]: "keeps (index.refines D) syscall"
  by (intro keeps_safe_same keeps_prims observers)

text \<open>What the store is given: digests and sidecars as documented, keys from the constructor.\<close>

definition sound_crates :: "crates \<Rightarrow> bool" where
  "sound_crates D \<longleftrightarrow> digests_ok D \<and> json_ok D"

lemma proper_entry_sound:
  "sound_crates D \<Longrightarrow> valid_key k \<Longrightarrow> digest e = sha256 D c \<Longrightarrow> proper_entry D k e"
  by (simp add: sound_crates_def digests_ok_def json_ok_def proper_entry_def)

lemma safe_publish:
  assumes "sound_crates D" "valid_key (key a)" "digest e = sha256 D tmp"
  shows "keeps (index.refines D) (publish D a tmp e)"
  unfolding publish_def store_lock_def
  by (rule index.kc.keeps_bind [OF safe_validate keeps_safe_lock], rule index.keeps_publication)
     (use assms in \<open>auto intro: proper_entry_sound\<close>)

lemma index_entry_new_digest: "index_entry_new d n l w = (Inr e, w') \<Longrightarrow> digest e = d"
  by (auto simp: index_entry_new_def elim!: bind_eff_InrE)

definition mirror_ok :: "datastore \<Rightarrow> bool" where
  "mirror_ok ds \<longleftrightarrow>
     (\<forall>m k. ds_mirror ds = Some m \<longrightarrow> producer (\<lambda>out. served (mirror_fetch m k out)))"

section \<open>The scan misses no entry\<close>

lemma entries_complete:
  assumes "clear w" "entries D w = (Inr xs, w')" "entry_of D w k = Some e"
  shows "(k, e) \<in> set xs"
proof -
  let ?f = "\<lambda>k. bind_eff (read_entry D k) (\<lambda>e. ret (case e of None \<Rightarrow> [] | Some e \<Rightarrow> [(k, e)]))"
  from assms(2) obtain ks w1 where
    ks: "keys w = (Inr ks, w1)" and c: "collect ?f ks w1 = (Inr xs, w')"
    unfolding entries_def by (auto elim!: bind_eff_InrE)
  have k: "valid_key k" "entry_text w k \<noteq> None"
    using assms(3) by (auto simp: entry_of_def bind_eq_Some_conv split: if_splits)
  then have "k \<in> set ks"
    using keys_complete [OF ks] assms(1) by (simp add: clear_def)
  moreover have "keeps (same tree_env) (?f k)" for k
    by (intro same.keeps_rules keeps_prims observers)
  ultimately obtain s1 zs s2 where
    f: "?f k s1 = (Inr zs, s2)" "set zs \<subseteq> set xs" "same tree_env w1 s1"
    using same.collect_mem [OF _ c, of tree_env k] by blast
  have "same tree_env w w1"
    by (rule keepsD [OF keeps_keys [OF observer_tree_env] ks])
  then have "same tree_env w s1" using f(3) by (rule same.trans_R)
  then have "entry_text s1 k = entry_text w k" "entry_of D s1 k = entry_of D w k"
    by (simp_all add: entry_text_def entry_of_def tree_env_same)
  note views = this
  from f(1) obtain r where r: "read_entry D k s1 = (Inr r, s2)"
    "zs = (case r of None \<Rightarrow> [] | Some e \<Rightarrow> [(k, e)])"
    by (auto elim!: bind_eff_InrE)
  have "zs = [(k, e)]"
  proof (cases r)
    case None
    with read_entry_Inr [OF r(1)] k views show ?thesis by simp
  next
    case (Some e')
    with read_entry_Some [of D k s1 e' s2] r k views assms(3) show ?thesis by simp
  qed
  with f(2) show ?thesis by simp
qed

interpretation scanned: scanned_index clear "entry_of D" blob_of digest "\<lambda>d c. sha256 D c = d"
  "proper_entry D" "write_entry D" remove_entry "publish_blob D" remove_blob "entries D" for D
proof
  fix w w' and r :: "datastore_error + (artifact_key \<times> index_entry) list"
  assume run: "entries D w = (r, w')"
  have t: "same tree_env w w'"
    by (rule keepsD [OF keeps_entries [OF observer_tree_env] run])
  show "clear w'" if "clear w" using that tree_env_same [OF t] by (simp add: clear_def)
  show "entry_of D w' = entry_of D w"
    by (simp add: fun_eq_iff entry_of_def entry_text_def tree_env_same [OF t])
  show "blob_of w' = blob_of w" by (simp add: fun_eq_iff blob_of_def tree_env_same [OF t])
next
  fix w w' xs k e
  show "(k, e) \<in> set xs" if "clear w" "entries D w = (Inr xs, w')" "entry_of D w k = Some e"
    using entries_complete [OF that] .
qed

lemma digest_referenced_scan:
  "bind_eff (digest_referenced D d) (\<lambda>b. if b then m else bind_eff (remove_blob d) n)
   = bind_eff (entries D) (\<lambda>xs. if list_ex (\<lambda>(_, e). digest e = d) xs then m
        else bind_eff (remove_blob d) n)"
  unfolding digest_referenced_def by (simp add: bind_eff_assoc)

lemma safe_reclaim:
  assumes "keeps (index.refines D) m" "\<And>y. keeps (index.refines D) (n y)"
  shows "keeps (index.refines D)
    (bind_eff (digest_referenced D d) (\<lambda>b. if b then m else bind_eff (remove_blob d) n))"
  unfolding digest_referenced_scan by (rule scanned.keeps_reclaim [OF assms])

theorem safe_remove: "keeps (index.refines D) (remove D k)"
proof -
  have *: "keeps (index.refines D) (bind_eff (digest_referenced D d)
      (\<lambda>referenced. if referenced then ret () else remove_blob d))" for d
    using safe_reclaim [of D "ret ()" ret d, unfolded bind_eff_right_ret]
    by (simp add: index.kc.keeps_ret)
  show ?thesis
    unfolding remove_def lock_def store_lock_def
    by (intro keeps_safe_lock index.kc.keeps_rules safe_prims index.keeps_drop_entry *)
qed

lemma safe_gc_evict: "keeps (index.refines D) (gc_evict D sizes left x)"
  unfolding gc_evict_def lock_def store_lock_def
  by (intro keeps_safe_lock index.kc.keeps_prod index.kc.keeps_bind index.kc.keeps_option
      index.kc.keeps_if index.kc.keeps_ret safe_prims index.keeps_drop_entry safe_reclaim)

lemma wf_sweep [wf_prims]: "keeps keeps_wf (sweep refs sizes bs)"
proof (induction refs sizes bs rule: sweep.induct)
  case (2 refs sizes d len bs)
  then show ?case by (auto intro!: wf.keeps_rules wf_prims)
qed (simp only: sweep.simps wf.keeps_ret)

lemma same_sym: "same f s t \<Longrightarrow> same f t s"
  by (simp add: same_def)

text \<open>The first phase of \<open>gc\<close> deletes what its own scan found unreferenced.\<close>

lemma sweep_safe:
  assumes "sweep refs sizes bs w = (r, w')"
    "\<And>k e. clear w \<Longrightarrow> entry_of D w k = Some e \<Longrightarrow> digest e \<in> set refs"
  shows "index.refines D w w'"
  using assms
proof (induction refs sizes bs arbitrary: w rule: sweep.induct)
  case (2 refs sizes d len bs)
  show ?case
  proof (cases "d \<in> set refs")
    case True
    with 2 show ?thesis by simp
  next
    case False
    from 2(3) False obtain q w1 where q: "remove_blob d w = (q, w1)"
      and more: "(\<exists>e. q = Inl e) \<and> w' = w1 \<or> sweep refs sizes bs w1 = (r, w')"
      by (auto elim!: bind_eff_cases)
    have step: "index.refines D w w1"
      by (rule index.refines_drop_blob [OF q]) (use 2(4) False in blast)
    from more show ?thesis
    proof
      assume rest: "sweep refs sizes bs w1 = (r, w')"
      show ?thesis
      proof (cases "clear w")
        case True
        have "index.refines D w1 w'"
          by (rule 2(2) [OF False rest]) (use 2(4) [OF True] index.drop_blob_entries [OF q] in simp)
        with step show ?thesis by (rule index.kc.trans_R)
      qed (simp add: index.refines_def)
    qed (use step in simp)
  qed
qed (simp_all add: index.kc.refl_R)

lemma safe_gc_scan: "keeps (index.refines D) (gc_scan D)"
  unfolding gc_scan_def store_lock_def
proof (rule keeps_safe_lock, rule keepsI)
  fix w r w'
  assume run: "bind_eff (entries D) (\<lambda>es. bind_eff blobs (\<lambda>bs.
      bind_eff (sweep (map (digest \<circ> snd) es) [] bs) (\<lambda>sizes. ret (es, sizes)))) w = (r, w')"
  then show "index.refines D w w'"
  proof (cases rule: bind_eff_cases)
    case (stop e)
    then show ?thesis
      by (intro safe_same keepsD [OF keeps_entries [OF observer_tree_env]])
  next
    case (go es w1)
    have t1: "same tree_env w w1" by (rule keepsD [OF keeps_entries [OF observer_tree_env] go(1)])
    from go(2) show ?thesis
    proof (cases rule: bind_eff_cases)
      case (stop e)
      have "same tree_env w1 w'" by (rule keepsD [OF keeps_blobs [OF observer_tree_env] stop(1)])
      with t1 show ?thesis by (intro safe_same) (rule same.trans_R)
    next
      case (go bs w2)
      have t: "same tree_env w w2"
        by (rule same.trans_R [OF t1 keepsD [OF keeps_blobs [OF observer_tree_env] go(1)]])
      from go(2) obtain q where q: "sweep (map (digest \<circ> snd) es) [] bs w2 = (q, w')"
        by (auto elim!: bind_eff_cases)
      have views: "entry_of D w2 = entry_of D w" "clear w2 = clear w"
        by (simp_all add: fun_eq_iff entry_of_def entry_text_def tree_env_same [OF t] clear_def)
      have "digest e \<in> set (map (digest \<circ> snd) es)" if "clear w2" "entry_of D w2 k = Some e" for k e
        using entries_complete [OF _ \<open>entries D w = (Inr es, w1)\<close>, of k e] that views by force
      from sweep_safe [OF q this] safe_same [OF t] show ?thesis by (rule index.kc.trans_R [rotated])
    qed
  qed
qed

end
