(* ===== verification/Resolution.thy ===== *)
theory Resolution
  imports Store_Invariant
begin

text \<open>
  What the resolution chain of \<open>src/store/mod.rs\<close> returns: the content behind a returned path, the
  layer that answers, the requests that are made and the budget that is spent.
\<close>

section \<open>Publication\<close>

lemma with_lock_views:
  assumes "with_lock n m w = (Inr y, w')"
  obtains w1 w2 where "tree_env w1 = tree_env w" "m w1 = (Inr y, w2)" "tree_env w' = tree_env w2"
proof -
  from assms obtain w1 w2 where
    h: "acquire n w = (Inr (), w1)" "m w1 = (Inr y, w2)" "w' = release w2"
    by (rule with_lock_InrE)
  have "keeps (same tree_env) (acquire n)"
    unfolding tree_env_def [abs_def] by (rule keeps_acquire) (simp add: lock_observer_def observers env_def)
  from sameD [OF this h(1)] have "tree_env w1 = tree_env w" .
  moreover have "tree_env w' = tree_env w2" using h(3) by (simp add: tree_env_def release_def env_def)
  ultimately show thesis using h(2) that by blast
qed

lemma tree_env_views:
  assumes "tree_env w' = tree_env w"
  shows "entry_of D w' = entry_of D w" "blob_of w' = blob_of w" "file_at w' = file_at w"
    "entry_text w' = entry_text w" "clear w' = clear w" "reliable w' = reliable w"
    "node_at w' = node_at w" "wf_tree w' = wf_tree w"
  using tree_env_same [of w w'] assms
  by (auto simp: same_def fun_eq_iff entry_of_def entry_text_def blob_of_def clear_def)

lemma publish_Inr:
  assumes run: "publish D a tmp e w = (Inr p, w')"
    and e: "digest e = sha256 D tmp" "entry_bytes e = length tmp" "proper_entry D (key a) e"
  shows "admissible D a tmp" and "p = blob_path (digest e)"
    and "entry_of D w' = (entry_of D w)(key a \<mapsto> e)"
    and "\<exists>c. blob_of w' (digest e) = Some c \<and> sha256 D c = digest e"
proof -
  from run obtain w1 where
    v: "validate D a (Temp tmp) (entry_bytes e) (digest e) w = (Inr (), w1)"
    and s: "with_lock ''.store.lock'' (bind_eff (publish_blob D tmp (digest e)) (\<lambda>published.
           case published of
             None \<Rightarrow> throw (reject a ''cached blob digest''
               (''an existing blob at '' @ digest e
                @ '' no longer hashes to its address; run verify and remove the keys it reports''))
           | Some p \<Rightarrow> bind_eff (write_entry D (key a) e) (\<lambda>_. ret p))) w1 = (Inr p, w')"
    unfolding publish_def store_lock_def by (auto elim!: bind_eff_InrE)
  show "admissible D a tmp"
    using validate_sound [of D a "Temp tmp" tmp w w1] v e by simp
  have t: "tree_env w1 = tree_env w"
    by (rule sameD [where f = tree_env, OF keeps_validate v]) (rule observers)
  from s obtain w2 w3 where s': "tree_env w2 = tree_env w1" "tree_env w' = tree_env w3"
    and b: "bind_eff (publish_blob D tmp (digest e)) (\<lambda>published.
           case published of
             None \<Rightarrow> throw (reject a ''cached blob digest''
               (''an existing blob at '' @ digest e
                @ '' no longer hashes to its address; run verify and remove the keys it reports''))
           | Some p \<Rightarrow> bind_eff (write_entry D (key a) e) (\<lambda>_. ret p)) w2 = (Inr p, w3)"
    by (rule with_lock_views)
  from index.publication_done [OF b] e
  show "entry_of D w' = (entry_of D w)(key a \<mapsto> e)"
    "\<exists>c. blob_of w' (digest e) = Some c \<and> sha256 D c = digest e"
    using tree_env_views [OF s'(1)] tree_env_views [OF s'(2)] tree_env_views [OF t] by auto
  from b show "p = blob_path (digest e)"
    by (auto elim!: bind_eff_InrE dest!: publish_blob_done(1) split: option.splits)
qed

section \<open>The content behind a returned path\<close>

text \<open>
  The key's entry names the path; the file there has the entry's digest, and so has some content
  of the entry's size that was validated against the artifact.
\<close>

definition served_by :: "crates \<Rightarrow> artifact \<Rightarrow> world \<Rightarrow> path \<Rightarrow> index_entry \<Rightarrow> bool" where
  "served_by D a w p e \<longleftrightarrow>
     entry_of D w (key a) = Some e \<and> p = blob_path (digest e)
     \<and> (\<exists>c. file_at w p = Some c \<and> sha256 D c = digest e)
     \<and> (\<exists>t. admissible D a t \<and> sha256 D t = digest e \<and> entry_bytes e = length t)"

lemma served_by_tree:
  assumes "tree_env w' = tree_env w"
  shows "served_by D a w' p e = served_by D a w p e"
  using tree_env_views [OF assms] by (simp add: served_by_def)

lemma publish_served:
  assumes "publish D a tmp e w = (Inr p, w')" "sound_crates D" "valid_key (key a)"
    "digest e = sha256 D tmp" "entry_bytes e = length tmp"
  shows "served_by D a w' p e"
  using publish_Inr [OF assms(1,4,5) proper_entry_sound [OF assms(2-4)]] assms(4,5)
  by (auto simp: served_by_def blob_of_def)

lemma index_entry_new_Inr:
  "index_entry_new d n l w = (Inr e, w') \<Longrightarrow> digest e = d \<and> entry_bytes e = n \<and> entry_layer e = l"
  by (auto simp: index_entry_new_def elim!: bind_eff_InrE)

lemma fetch_from_mirror_served:
  assumes run: "fetch_from_mirror D a m lim w = (Inr (Some (p, n)), w')"
    and D: "sound_crates D" "valid_key (key a)"
    and m: "producer (\<lambda>out. served (mirror_fetch m (key a) out))"
  shows "\<exists>e. served_by D a w' p e \<and> n = entry_bytes e \<and> entry_layer e = Mirror_layer"
proof -
  from run obtain tmp d x w1 w2 e where
    rc: "receive D a lim (\<lambda>out. served (mirror_fetch m (key a) out)) w = (Inr (Some ((tmp, d, n), x)), w1)"
    and e: "(index_entry_new d n Mirror_layer :: index_entry action) w1 = (Inr e, w2)"
    and pb: "publish D a tmp (e\<lparr>entry_source := Some (mirror_location m (key a))\<rparr>) w2 = (Inr p, w')"
    unfolding fetch_from_mirror_def Let_def
    by (auto elim!: bind_eff_InrE split: option.splits)
  from index_entry_new_Inr [OF e] producer.receive_Some(1,2) [OF m rc] publish_served [OF pb D]
  show ?thesis by (intro exI conjI) auto
qed

lemma fetch_from_upstream_served:
  assumes run: "fetch_from_upstream D ds a src lim w = (Inr (p, n), w')"
    and D: "sound_crates D" "valid_key (key a)"
  shows "\<exists>e. served_by D a w' p e \<and> n = entry_bytes e \<and> entry_layer e = Upstream"
proof -
  from run obtain tmp d dl w1 w2 e where
    rc: "receive D a lim (request D (ds_provider ds) src) w = (Inr (Some ((tmp, d, n), dl)), w1)"
    and e: "(index_entry_new d n Upstream :: index_entry action) w1 = (Inr e, w2)"
    and pb: "publish D a tmp (e\<lparr>entry_source := Some (sanitize D (url src)),
               entry_etag := dl_etag dl, entry_identity := dl_identity dl\<rparr>) w2 = (Inr p, w')"
    unfolding fetch_from_upstream_def Let_def
    by (auto elim!: bind_eff_InrE split: option.splits)
  from index_entry_new_Inr [OF e] downloading.receive_Some(1,2) [OF rc] publish_served [OF pb D]
  show ?thesis by (intro exI conjI) auto
qed

lemma recheck_blob_Inr:
  assumes run: "recheck_blob D a e p w = (Inr (), w')"
  shows "\<exists>c. file_at w p = Some c \<and> sha256 D c = digest e \<and> length c = entry_bytes e
    \<and> admissible D a c"
proof -
  from run obtain n d w1 w2 where len: "file_length p w = (Inr n, w1)" "n = entry_bytes e"
    and dg: "digest_file D (Stored p) w1 = (Inr d, w2)" "d = digest e"
    and va: "validate D a (Stored p) (entry_bytes e) d w2 = (Inr (), w')"
    unfolding recheck_blob_def by (simp only: run_iff) (elim exE conjE, simp)
  have t1: "file_at w1 = file_at w"
    by (rule sameD [where f = file_at, OF keeps_file_length len(1)]) (rule observers)
  have t2: "file_at w2 = file_at w1"
    by (rule sameD [where f = file_at, OF keeps_digest_file dg(1)]) (rule observers)
  from digest_file_InrD [OF dg(1)] obtain c where c: "file_at w1 p = Some c" "d = sha256 D c" by auto
  have n: "n = length c" using file_length_InrD [OF len(1)] c(1) t1 by simp
  with validate_sound [of D a "Stored p" c w2 w'] va c t2 len(2) have "admissible D a c" by simp
  with c dg(2) n len(2) t1 show ?thesis by auto
qed

lemma local_hit_served:
  assumes run: "local_hit D a e w = (Inr (Some p), w')" and e: "entry_of D w (key a) = Some e"
  shows "served_by D a w' p e \<and> tree_env w' = tree_env w"
proof -
  let ?p = "blob_path (digest e)"
  have t: "tree_env w' = tree_env w"
    by (rule sameD [where f = tree_env, OF keeps_local_hit run]) (rule observers)
  from run obtain w1 where
    st: "(is_file ?p :: bool action) w = (Inr True, w1)"
    and rb: "recheck_blob D a e ?p w1 = (Inr (), w')" and p: "p = ?p"
    unfolding local_hit_def Let_def by (auto elim!: bind_eff_InrE split: if_split_asm)
  have "file_at w1 = file_at w"
    by (rule sameD [where f = file_at, OF keeps_is_file st]) (rule observers)
  with recheck_blob_Inr [OF rb] e p have "served_by D a w p e"
    by (auto simp: served_by_def)
  with t served_by_tree [OF t] show ?thesis by blast
qed

lemma from_local_Inr:
  assumes "from_local D a lim w = (Inr r, w')"
  shows "(case r of None \<Rightarrow> True
          | Some (p, o') \<Rightarrow> (\<exists>e w1 w2. read_entry D (key a) w = (Inr (Some e), w1)
              \<and> local_hit D a e w1 = (Inr (Some p), w2) \<and> tree_env w1 = tree_env w
              \<and> tree_env w' = tree_env w2 \<and> o' = outcome LocalDisk (entry_bytes e) None
              \<and> (lim \<longrightarrow> entry_bytes e \<le> budget w)))"
proof -
  from assms obtain e w1 where e: "read_entry D (key a) w = (Inr e, w1)"
    and k: "(case e of None \<Rightarrow> ret None
       | Some e \<Rightarrow> bind_eff (local_hit D a e) (\<lambda>hit. case hit of None \<Rightarrow> ret None
           | Some p \<Rightarrow> bind_eff (gets budget) (\<lambda>left.
               if lim \<and> left < entry_bytes e then throw TransferLimit
               else ret (Some (p, outcome LocalDisk (entry_bytes e) None))))) w1 = (Inr r, w')"
    unfolding from_local_def by (rule bind_eff_InrE)
  have t: "tree_env w1 = tree_env w" "budget w1 = budget w"
    by (rule sameD [OF keeps_read_entry e], rule observers)+
  show ?thesis
  proof (cases e)
    case (Some x)
    with k obtain hit w2 where h: "local_hit D a x w1 = (Inr hit, w2)"
      and k2: "(case hit of None \<Rightarrow> ret None
           | Some p \<Rightarrow> bind_eff (gets budget) (\<lambda>left.
               if lim \<and> left < entry_bytes x then throw TransferLimit
               else ret (Some (p, outcome LocalDisk (entry_bytes x) None)))) w2 = (Inr r, w')"
      by (auto elim!: bind_eff_InrE)
    have "budget w2 = budget w1" by (rule sameD [OF keeps_local_hit h]) (rule observers)
    with k2 h t e Some show ?thesis
      by (cases hit) (auto split: if_splits)
  qed (use k in auto)
qed

lemma from_local_served:
  assumes "from_local D a lim w = (Inr (Some (p, o')), w')" "valid_key (key a)"
  shows "\<exists>e. served_by D a w' p e \<and> o' = outcome LocalDisk (entry_bytes e) None"
proof -
  from from_local_Inr [OF assms(1)] obtain e w1 w2 where
    h: "read_entry D (key a) w = (Inr (Some e), w1)" "local_hit D a e w1 = (Inr (Some p), w2)"
      "tree_env w1 = tree_env w" "tree_env w' = tree_env w2" "o' = outcome LocalDisk (entry_bytes e) None"
    by auto
  have "entry_of D w1 (key a) = Some e"
    using read_entry_Some [OF h(1) assms(2)] tree_env_views [OF h(3)] by simp
  with local_hit_served [OF h(2)] served_by_tree [OF h(4)] h(5) show ?thesis by blast
qed

lemma from_mirror_Inr:
  assumes "from_mirror D ds a lim w = (Inr (Inr (p, o')), w')"
  shows "\<exists>m n. ds_mirror ds = Some m \<and> fetch_from_mirror D a m lim w = (Inr (Some (p, n)), w')
     \<and> o' = outcome Mirror_layer n None"
  using assms unfolding from_mirror_def
  by (auto elim!: handleE split: option.splits sum.splits if_splits)

lemma try_sources_Inr:
  assumes "try_sources D ds a lim attempts i srcs w = (Inr (p, o'), w')"
  shows "\<exists>j w0 n. j < length srcs \<and> fetch_from_upstream D ds a (srcs ! j) lim w0 = (Inr (p, n), w')
     \<and> o' = outcome Upstream n (Some (i + j))"
  using assms
proof (induction srcs arbitrary: attempts i w)
  case (Cons src rest)
  from Cons.prems consider (hit) n where "fetch_from_upstream D ds a src lim w = (Inr (p, n), w')"
      "o' = outcome Upstream n (Some i)"
    | (later) attempts' w1 where "try_sources D ds a lim attempts' (Suc i) rest w1 = (Inr (p, o'), w')"
    by (auto elim!: handleE split: sum.splits if_splits prod.splits)
  then show ?case
  proof cases
    case hit
    then show ?thesis by (intro exI [of _ 0]) auto
  next
    case (later attempts' w1)
    from Cons.IH [OF later] obtain j w0 n where
      "j < length rest" "fetch_from_upstream D ds a (rest ! j) lim w0 = (Inr (p, n), w')"
      "o' = outcome Upstream n (Some (Suc i + j))" by blast
    then show ?thesis by (intro exI [of _ "Suc j"]) auto
  qed
qed simp

lemma get_with_budget_Inr:
  assumes "get_with_budget D ds a lim w = (Inr (p, o'), w')"
  obtains w1 w2 where "tree_env w1 = tree_env w" "tree_env w' = tree_env w2"
    and "from_local D a lim w1 = (Inr (Some (p, o')), w2)
       \<or> \<not> offline ds \<and> (\<exists>w3. from_local D a lim w1 = (Inr None, w3)
          \<and> (from_mirror D ds a lim w3 = (Inr (Inr (p, o')), w2)
            \<or> allow_upstream ds \<and> (\<exists>reason w4. from_mirror D ds a lim w3 = (Inr (Inl reason), w4)
                \<and> try_sources D ds a lim [] 0 (sources a) w4 = (Inr (p, o'), w2))))"
  using assms unfolding get_with_budget_def lock_def
  by (elim with_lock_views bind_eff_InrE)
     (auto elim!: bind_eff_InrE split: option.splits sum.splits if_splits)

lemma get_served:
  assumes run: "get_with_budget D ds a lim w = (Inr (p, o'), w')"
    and D: "sound_crates D" "valid_key (key a)" and m: "mirror_ok ds"
  shows "\<exists>e. served_by D a w' p e \<and> out_bytes o' = entry_bytes e
     \<and> (out_layer o' = LocalDisk \<or> out_layer o' = entry_layer e)"
proof -
  from run obtain w1 w2 where t: "tree_env w' = tree_env w2"
    and c: "from_local D a lim w1 = (Inr (Some (p, o')), w2)
       \<or> \<not> offline ds \<and> (\<exists>w3. from_local D a lim w1 = (Inr None, w3)
          \<and> (from_mirror D ds a lim w3 = (Inr (Inr (p, o')), w2)
            \<or> allow_upstream ds \<and> (\<exists>reason w4. from_mirror D ds a lim w3 = (Inr (Inl reason), w4)
                \<and> try_sources D ds a lim [] 0 (sources a) w4 = (Inr (p, o'), w2))))"
    by (rule get_with_budget_Inr)
  from c consider (local) "from_local D a lim w1 = (Inr (Some (p, o')), w2)"
    | (mirror) w3 where "from_mirror D ds a lim w3 = (Inr (Inr (p, o')), w2)"
    | (upstream) w4 where "try_sources D ds a lim [] 0 (sources a) w4 = (Inr (p, o'), w2)"
    by blast
  then have "\<exists>e. served_by D a w2 p e \<and> out_bytes o' = entry_bytes e
     \<and> (out_layer o' = LocalDisk \<or> out_layer o' = entry_layer e)"
  proof cases
    case local
    from from_local_served [OF local D(2)] show ?thesis by (auto simp: outcome_def)
  next
    case mirror
    from from_mirror_Inr [OF mirror] m obtain mm n where
      h: "fetch_from_mirror D a mm lim w3 = (Inr (Some (p, n)), w2)" "o' = outcome Mirror_layer n None"
        "producer (\<lambda>out. served (mirror_fetch mm (key a) out))"
      by (auto simp: mirror_ok_def)
    from fetch_from_mirror_served [OF h(1) D h(3)] h(2) show ?thesis by (auto simp: outcome_def)
  next
    case upstream
    from try_sources_Inr [OF upstream] obtain j w0 n where
      h: "fetch_from_upstream D ds a (sources a ! j) lim w0 = (Inr (p, n), w2)"
        "o' = outcome Upstream n (Some (0 + j))" by blast
    from fetch_from_upstream_served [OF h(1) D] h(2) show ?thesis by (auto simp: outcome_def)
  qed
  with served_by_tree [OF t] show ?thesis by simp
qed

section \<open>The budget\<close>

definition spends :: "world \<Rightarrow> world \<Rightarrow> bool" where
  "spends w w' \<longleftrightarrow> budget w' \<le> budget w"

interpretation spends: frame spends
  by unfold_locales (auto simp: spends_def)

lemma keeps_spends: "keeps (same budget) m \<Longrightarrow> keeps spends m"
  by (erule keeps_mono) (simp add: same_def spends_def)

lemma keeps_publish [keeps_prims]:
  "tree_observer f \<Longrightarrow> lock_observer f \<Longrightarrow> keeps (same f) (publish D a tmp e)"
  unfolding publish_def by (intro same.keeps_rules keeps_prims observer_lock)

lemma spends_publish: "keeps spends (publish D a tmp e)"
  by (intro keeps_spends keeps_prims observers)

lemma spends_entry_new: "keeps spends (index_entry_new d n l)"
  by (intro keeps_spends keeps_prims observers)

lemma spends_fetch_from_mirror:
  assumes "producer (\<lambda>out. served (mirror_fetch m (key a) out))"
  shows "keeps spends (fetch_from_mirror D a m lim)"
  unfolding fetch_from_mirror_def Let_def
  by (intro spends.keeps_rules spends_publish spends_entry_new
      keeps_mono [OF producer.receive_spends [OF assms]]) (simp add: spends_def)

lemma spends_fetch_from_upstream: "keeps spends (fetch_from_upstream D ds a src lim)"
  unfolding fetch_from_upstream_def Let_def
  by (intro spends.keeps_rules spends_publish spends_entry_new
      keeps_mono [OF downloading.receive_spends]) (simp add: spends_def)

lemma fetch_from_mirror_paid:
  assumes run: "fetch_from_mirror D a m True w = (Inr (Some (p, n)), w')"
    and m: "producer (\<lambda>out. served (mirror_fetch m (key a) out))"
  shows "n \<le> budget w"
proof -
  from run obtain tmp d x w1 where
    rc: "receive D a True (\<lambda>out. served (mirror_fetch m (key a) out)) w = (Inr (Some ((tmp, d, n), x)), w1)"
    unfolding fetch_from_mirror_def Let_def
    by (auto elim!: bind_eff_InrE split: option.splits)
  from producer.receive_Some(2,4) [OF m rc] show ?thesis by simp
qed

lemma fetch_from_upstream_paid:
  assumes run: "fetch_from_upstream D ds a src True w = (Inr (p, n), w')"
  shows "n \<le> budget w"
proof -
  from run obtain tmp d dl w1 where
    rc: "receive D a True (request D (ds_provider ds) src) w = (Inr (Some ((tmp, d, n), dl)), w1)"
    unfolding fetch_from_upstream_def Let_def
    by (auto elim!: bind_eff_InrE split: option.splits)
  from downloading.receive_Some(2,4) [OF rc] show ?thesis by simp
qed

lemma try_sources_paid:
  assumes "try_sources D ds a True attempts i srcs w = (Inr (p, o'), w')"
  shows "out_bytes o' \<le> budget w"
  using assms
proof (induction srcs arbitrary: attempts i w)
  case (Cons src rest)
  from Cons.prems consider (hit) n where "fetch_from_upstream D ds a src True w = (Inr (p, n), w')"
      "o' = outcome Upstream n (Some i)"
    | (later) e attempts' w1 where "fetch_from_upstream D ds a src True w = (Inl e, w1)"
      "try_sources D ds a True attempts' (Suc i) rest w1 = (Inr (p, o'), w')"
    by (auto elim!: handleE split: sum.splits if_splits prod.splits)
  then show ?case
  proof cases
    case hit
    with fetch_from_upstream_paid show ?thesis by (auto simp: outcome_def)
  next
    case (later e attempts' w1)
    from keepsD [OF spends_fetch_from_upstream later(1)] Cons.IH [OF later(2)]
    show ?thesis by (simp add: spends_def)
  qed
qed simp

lemma from_mirror_spends:
  assumes "mirror_ok ds"
  shows "keeps spends (from_mirror D ds a lim)"
  unfolding from_mirror_def using assms
  by (cases "ds_mirror ds")
     (auto simp: mirror_ok_def intro!: spends.keeps_rules spends_fetch_from_mirror)

lemma get_limited_paid:
  assumes run: "get_with_budget D ds a True w = (Inr (p, o'), w')" and m: "mirror_ok ds"
  shows "out_bytes o' \<le> budget w"
proof -
  let ?body = "bind_eff (from_local D a True) (\<lambda>hit.
         case hit of Some r \<Rightarrow> ret r
         | None \<Rightarrow> if offline ds then throw (OfflineMiss (key a))
             else bind_eff (from_mirror D ds a True) (\<lambda>m.
                 case m of Inr r \<Rightarrow> ret r
                 | Inl mirror_reason \<Rightarrow>
                     if sources a = []
                     then throw (ManualRequired (key a) (description (art_provenance a)))
                     else if \<not> allow_upstream ds then throw (MirrorUnreachable (key a) mirror_reason)
                     else try_sources D ds a True [] 0 (sources a)))"
  from run obtain w1 w2 where ac: "acquire (lock_name D (key a)) w = (Inr (), w1)"
    and b: "?body w1 = (Inr (p, o'), w2)"
    unfolding get_with_budget_def lock_def by (rule with_lock_InrE)
  have 1: "budget w1 = budget w"
    using ac by (rule sameD [where f = budget, rotated]) (intro keeps_prims observers)
  from b obtain hit w3 where h: "from_local D a True w1 = (Inr hit, w3)"
    and k: "hit = Some (p, o') \<or> (\<exists>q w4. from_mirror D ds a True w3 = (Inr q, w4)
        \<and> (q = Inr (p, o') \<or> (\<exists>r. try_sources D ds a True [] 0 (sources a) w4 = (Inr (p, o'), w2))))"
    by (auto elim!: bind_eff_InrE split: option.splits sum.splits if_splits)
  have 3: "budget w3 = budget w1"
    by (rule sameD [where f = budget, OF keeps_from_local h]) (rule observers)
  from k consider (local) "hit = Some (p, o')"
    | (mirror) w4 where "from_mirror D ds a True w3 = (Inr (Inr (p, o')), w4)"
    | (upstream) q w4 where "from_mirror D ds a True w3 = (Inr q, w4)"
        "try_sources D ds a True [] 0 (sources a) w4 = (Inr (p, o'), w2)"
    by blast
  then show ?thesis
  proof cases
    case local
    with from_local_Inr [OF h] 1 show ?thesis by (auto simp: outcome_def)
  next
    case mirror
    from from_mirror_Inr [OF mirror] m obtain mm n where
      "fetch_from_mirror D a mm True w3 = (Inr (Some (p, n)), w4)" "o' = outcome Mirror_layer n None"
      "producer (\<lambda>out. served (mirror_fetch mm (key a) out))"
      by (auto simp: mirror_ok_def)
    with fetch_from_mirror_paid 1 3 show ?thesis by (force simp: outcome_def)
  next
    case upstream
    from keepsD [OF from_mirror_spends [OF m] upstream(1)] try_sources_paid [OF upstream(2)] 1 3
    show ?thesis by (simp add: spends_def)
  qed
qed

section \<open>Which requests are made\<close>

lemma keeps_sent_write: "keeps (same (sent \<circ> fst)) (receiver_write D c b)"
  unfolding receiver_write_def
proof (intro same.keeps_bind)
  show "keeps (same (sent \<circ> fst)) (charge n)" for n
    by (auto simp: keeps_def charge_def same_def split: option.splits)
  show "keeps (same (sent \<circ> fst)) fail_if_rejected"
    by (auto simp: keeps_def fail_if_rejected_def same_def)
  show "keeps (same (sent \<circ> fst)) (show_prefix D c b)"
    by (auto simp: keeps_def show_prefix_def receiver_check_prefix_def Let_def same_def split: sum.splits)
  show "keeps (same (sent \<circ> fst)) (store_bytes b)"
    by (auto simp: keeps_def store_bytes_def syscall_def same_def observers split: option.splits)
qed

lemma receive_asks:
  assumes "\<And>s r s'. produce (receiver_write D (art_check a)) s = (r, s') \<Longrightarrow> asks P n (fst s) (fst s')"
    and run: "receive D a lim produce w = (r, w')"
  shows "asks P n w w'"
  using run unfolding receive_def
proof (cases rule: bind_eff_cases)
  case (stop e)
  then show ?thesis
    by (intro asks_same)
      (auto simp: map_err_def syscall_def next_step_def split: option.splits prod.splits sum.splits)
next
  case (go u w1)
  then obtain result v where
    p: "produce (receiver_write D (art_check a)) (w1, receiver_new lim) = (result, (w', v))"
    by (auto split: prod.splits)
  have "sent w1 = sent w" using go(1)
    by (auto simp: map_err_def syscall_def next_step_def split: option.splits prod.splits sum.splits)
  from asks_trans [OF asks_same [OF this, of P 0] assms(1) [OF p, simplified]] show ?thesis by simp
qed

text \<open>A request for one of the artifact's sources, under the rules of \<open>permitted\<close>.\<close>

definition source_request :: "crates \<Rightarrow> datastore \<Rightarrow> source \<Rightarrow> request \<Rightarrow> bool" where
  "source_request D ds src q \<longleftrightarrow>
     (\<exists>u h. parse_source_url D (url src) = Inr u \<and> host u = Some h
        \<and> permitted D (ds_provider ds) src u h q)"

lemma asks_weaken: "asks P n w w' \<Longrightarrow> (\<And>q. P q \<Longrightarrow> Q q) \<Longrightarrow> asks Q n w w'"
  by (auto simp: asks_def)

lemma request_source_asks:
  assumes "request D (ds_provider ds) src (receiver_write D c) s = (r, s')"
  shows "asks (source_request D ds src) MAX_HOPS (fst s) (fst s')"
  using request_asks [OF keeps_sent_write assms]
  by (auto intro: asks_same asks_weaken simp: source_request_def)

lemma http_fetch_asks:
  assumes "http_fetch D base k (receiver_write D c) s = (r, s')"
  shows "asks (\<lambda>q. req_auth q = None) MAX_HOPS (fst s) (fst s')"
proof -
  let ?src = "source_new (http_location base k)"
  from assms obtain x s1 where rq: "request D None ?src (receiver_write D c) s = (x, s1)" and "s' = s1"
    unfolding http_fetch_def
    by (auto elim!: handleE split: sum.splits option.splits datastore_error.splits)
  with request_asks [OF keeps_sent_write rq] show ?thesis
    by (auto intro: asks_same asks_weaken simp: permitted_def lookup_def)
qed

lemma served_asks:
  assumes "\<And>s r s'. m s = (r, s') \<Longrightarrow> asks P n (fst s) (fst s')" "served m s = (r, s')"
  shows "asks P n (fst s) (fst s')"
proof -
  from assms(2) obtain x where "m s = (x, s')"
    unfolding served_def by (cases rule: bind_eff_cases) auto
  then show ?thesis by (rule assms(1))
qed

text \<open>The first phase of a fetch makes the requests, the rest makes none.\<close>

lemma bind_asks:
  assumes "bind_eff m f w = (r, w')" "\<And>x w1. m w = (x, w1) \<Longrightarrow> asks P n w w1"
    and f: "\<And>x. keeps (same sent) (f x)"
  shows "asks P n w w'"
  using assms(1)
proof (cases rule: bind_eff_cases)
  case (stop e)
  with assms(2) show ?thesis by blast
next
  case (go x w1)
  have "asks P 0 w1 w'" by (rule asks_same) (rule sameD [OF f go(2)])
  from asks_trans [OF assms(2) [OF go(1)] this] show ?thesis by simp
qed

lemma fetch_from_mirror_asks:
  assumes "fetch_from_mirror D a m lim w = (r, w')" "http_mirror_new D base_url = Inr m"
  shows "asks (\<lambda>q. req_auth q = None) MAX_HOPS w w'"
proof -
  from assms(2) obtain base where m: "mirror_fetch m = http_fetch D base"
    unfolding http_mirror_new_def by (auto elim!: bind_sum_InrE)
  show ?thesis
    using assms(1) unfolding fetch_from_mirror_def Let_def
  proof (rule bind_asks)
    show "asks (\<lambda>q. req_auth q = None) MAX_HOPS w w1"
      if "receive D a lim (\<lambda>out. served (mirror_fetch m (key a) out)) w = (x, w1)" for x w1
    proof (rule receive_asks)
      show "receive D a lim (\<lambda>out. served (http_fetch D base (key a) out)) w = (x, w1)"
        using that unfolding m .
      show "asks (\<lambda>q. req_auth q = None) MAX_HOPS (fst s) (fst s')"
        if "served (http_fetch D base (key a) (receiver_write D (art_check a))) s = (y, s')" for s y s'
        using http_fetch_asks that by (rule served_asks)
    qed
  qed (auto intro!: same.keeps_rules keeps_prims observers split: option.split)
qed

lemma fetch_from_upstream_asks:
  assumes "fetch_from_upstream D ds a src lim w = (r, w')"
  shows "asks (source_request D ds src) MAX_HOPS w w'"
  using assms unfolding fetch_from_upstream_def Let_def
  by (rule bind_asks)
    (auto intro: receive_asks request_source_asks
      intro!: same.keeps_rules keeps_prims observers split: option.split)

lemma try_sources_asks:
  assumes "try_sources D ds a lim attempts i srcs w = (r, w')"
  shows "asks (\<lambda>q. \<exists>src \<in> set srcs. source_request D ds src q) (MAX_HOPS * length srcs) w w'"
  using assms
proof (induction srcs arbitrary: attempts i w)
  case (Cons src rest)
  let ?P = "\<lambda>q. \<exists>src \<in> set (src # rest). source_request D ds src q"
  from Cons.prems obtain q w1 where q: "fetch_from_upstream D ds a src lim w = (q, w1)"
    unfolding try_sources.simps by (rule handleE)
  have one: "asks ?P MAX_HOPS w w1"
    by (rule asks_weaken [OF fetch_from_upstream_asks [OF q]]) simp
  from Cons.prems q consider "w' = w1"
    | attempts' where "try_sources D ds a lim attempts' (Suc i) rest w1 = (r, w')"
    by (auto elim!: handleE split: sum.splits if_splits prod.splits)
  then show ?case
  proof cases
    case 1
    with one show ?thesis by (auto intro: asks_mono)
  next
    case 2
    have "asks ?P (MAX_HOPS * length rest) w1 w'"
      by (rule asks_weaken [OF Cons.IH [OF 2]]) auto
    from asks_trans [OF one this] show ?thesis by simp
  qed
qed (simp add: asks_same)

text \<open>The mirror, if there is one, is the HTTP mirror.\<close>

definition http_mirrored :: "crates \<Rightarrow> datastore \<Rightarrow> bool" where
  "http_mirrored D ds \<longleftrightarrow>
     (\<forall>m. ds_mirror ds = Some m \<longrightarrow> (\<exists>base_url. http_mirror_new D base_url = Inr m))"

lemma http_mirrored_ok: "http_mirrored D ds \<Longrightarrow> mirror_ok ds"
  unfolding mirror_ok_def
proof (intro allI impI)
  fix m k assume "http_mirrored D ds" "ds_mirror ds = Some m"
  then obtain base_url where "http_mirror_new D base_url = Inr m" by (auto simp: http_mirrored_def)
  then obtain base where "m = \<lparr>mirror_fetch = http_fetch D base, mirror_location = http_location base\<rparr>"
    unfolding http_mirror_new_def by (auto elim!: bind_sum_InrE)
  then show "producer (\<lambda>out. served (mirror_fetch m k out))" by (simp add: http.producer_axioms)
qed

lemma from_mirror_asks:
  assumes "from_mirror D ds a lim w = (r, w')" "http_mirrored D ds"
  shows "asks (\<lambda>q. req_auth q = None) MAX_HOPS w w'"
proof (cases "ds_mirror ds")
  case None
  with assms(1) show ?thesis by (simp add: from_mirror_def asks_same)
next
  case (Some m)
  with assms(2) obtain base_url where m: "http_mirror_new D base_url = Inr m"
    by (auto simp: http_mirrored_def)
  from assms(1) Some obtain q where "fetch_from_mirror D a m lim w = (q, w')"
    by (auto simp: from_mirror_def elim!: handleE split: sum.splits option.splits if_splits)
  from fetch_from_mirror_asks [OF this m] show ?thesis .
qed

lemma from_local_sent: "from_local D a lim w = (r, w') \<Longrightarrow> sent w' = sent w"
  by (erule sameD [where f = sent, OF keeps_from_local, rotated]) (rule observers)

lemma get_asks:
  assumes run: "get_with_budget D ds a lim w = (r, w')" and m: "http_mirrored D ds"
  shows "asks (\<lambda>q. req_auth q = None
            \<or> allow_upstream ds \<and> (\<exists>src \<in> set (sources a). source_request D ds src q))
          (if offline ds then 0 else MAX_HOPS * Suc (length (sources a))) w w'"
    (is "asks ?P ?n w w'")
proof -
  let ?body = "bind_eff (from_local D a lim) (\<lambda>hit.
         case hit of Some r \<Rightarrow> ret r
         | None \<Rightarrow> if offline ds then throw (OfflineMiss (key a))
             else bind_eff (from_mirror D ds a lim) (\<lambda>m.
                 case m of Inr r \<Rightarrow> ret r
                 | Inl mirror_reason \<Rightarrow>
                     if sources a = []
                     then throw (ManualRequired (key a) (description (art_provenance a)))
                     else if \<not> allow_upstream ds then throw (MirrorUnreachable (key a) mirror_reason)
                     else try_sources D ds a lim [] 0 (sources a)))"
  have acq: "keeps (same sent) (acquire nm)" for nm by (intro keeps_prims observers)
  from run show ?thesis
    unfolding get_with_budget_def lock_def with_lock_def
  proof (cases rule: bind_eff_cases)
    case (stop e)
    then show ?thesis by (intro asks_same sameD [OF acq])
  next
    case (go u w1)
    then obtain w2 where b: "?body w1 = (r, w2)" and w': "sent w' = sent w2"
      by (auto simp: release_def split: prod.splits)
    have w1: "sent w1 = sent w" by (rule sameD [OF acq go(1)])
    from b have "asks ?P ?n w1 w2"
    proof (cases rule: bind_eff_cases)
      case (stop e)
      then show ?thesis by (intro asks_same from_local_sent)
    next
      case (go hit w3)
      have w3: "asks ?P 0 w1 w3" by (rule asks_same [OF from_local_sent [OF go(1)]])
      show ?thesis
      proof (cases "hit = None \<and> \<not> offline ds")
        case False
        with go(2) have "w2 = w3" by (cases hit) auto
        with w3 show ?thesis by (auto intro: asks_mono)
      next
        case True
        from go(2) True obtain q w4 where q: "from_mirror D ds a lim w3 = (q, w4)"
          and k: "w2 = w4 \<or> allow_upstream ds \<and> try_sources D ds a lim [] 0 (sources a) w4 = (r, w2)"
          by (auto elim!: bind_eff_cases split: sum.splits if_splits)
        have mir: "asks ?P MAX_HOPS w3 w4"
          by (rule asks_weaken [OF from_mirror_asks [OF q m]]) simp
        have "asks ?P (MAX_HOPS * length (sources a)) w4 w2"
        proof (cases "w2 = w4")
          case False
          with k have "allow_upstream ds" "try_sources D ds a lim [] 0 (sources a) w4 = (r, w2)" by auto
          show ?thesis
            by (rule asks_weaken [OF try_sources_asks [OF \<open>try_sources _ _ _ _ _ _ _ _ = _\<close>]])
              (use \<open>allow_upstream ds\<close> in blast)
        qed (simp add: asks_same)
        from asks_trans [OF w3 asks_trans [OF mir this]] True show ?thesis by simp
      qed
    qed
    with w1 w' show ?thesis by (simp only: asks_def)
  qed
qed

section \<open>Locks\<close>

text \<open>
  Every lock taken by a function that starts with \<open>h\<close> held satisfies \<open>A\<close> (of its name and the
  locks held at that moment), and the function releases what it takes.
\<close>

definition locking :: "(string \<times> string list \<Rightarrow> bool) \<Rightarrow> string list \<Rightarrow> world \<Rightarrow> world \<Rightarrow> bool" where
  "locking A h w w' \<longleftrightarrow> (held w = h \<longrightarrow> held w' = h
     \<and> (\<exists>l. lock_log w' = lock_log w @ l \<and> (\<forall>x \<in> set l. A x)))"

interpretation locking: frame "locking A h" for A h
proof
  show "locking A h w w" for w by (simp add: locking_def)
  show "locking A h w u" if a: "locking A h w t" "locking A h t u" for w t u
    unfolding locking_def
  proof (intro impI conjI)
    assume w: "held w = h"
    with a obtain l l' where "lock_log t = lock_log w @ l" "lock_log u = lock_log t @ l'"
      "\<forall>x \<in> set l. A x" "\<forall>x \<in> set l'. A x" "held u = h"
      unfolding locking_def by auto
    then show "held u = h" "\<exists>l. lock_log u = lock_log w @ l \<and> (\<forall>x \<in> set l. A x)"
      by (auto intro: exI [of _ "l @ l'"])
  qed
qed

lemma locking_same: "keeps (same held) m \<Longrightarrow> keeps (same lock_log) m \<Longrightarrow> keeps (locking A h) m"
  by (auto simp: keeps_def same_def locking_def)

lemma acquire_lock:
  assumes "acquire n w = (r, w')"
  shows "r = Inr () \<and> held w' = n # held w \<and> lock_log w' = lock_log w @ [(n, held w)]
     \<or> (\<exists>e. r = Inl e) \<and> held w' = held w \<and> lock_log w' = lock_log w"
  using assms
  by (auto simp: acquire_def map_err_def bind_eff_def syscall_def next_step_def
      split: prod.splits sum.splits option.splits)

lemma locking_with_lock:
  assumes m: "keeps (locking A (n # h)) m" and ok: "A (n, h)"
  shows "keeps (locking A h) (with_lock n m)"
proof (rule keepsI)
  fix w r w' assume run: "with_lock n m w = (r, w')"
  show "locking A h w w'"
    using run unfolding with_lock_def
  proof (cases rule: bind_eff_cases)
    case (stop e)
    with acquire_lock [OF stop(1)] show ?thesis by (auto simp: locking_def)
  next
    case (go u w1)
    from go(2) obtain w2 where 2: "m w1 = (r, w2)" "w' = release w2" by (auto split: prod.splits)
    have "held w1 = n # held w" "lock_log w1 = lock_log w @ [(n, held w)]"
      using acquire_lock [OF go(1)] by auto
    with keepsD [OF m 2(1)] 2(2) ok show ?thesis
      by (auto simp: locking_def release_def)
  qed
qed

end
