(* ===== verification/Clients.thy ===== *)
theory Clients
  imports Store_Invariant
begin

text \<open>
  What the operations of the store do to the tree, once for every relation that the critical
  sections keep: everything an operation of \<open>src/store/mod.rs\<close> does outside the sections under the store
  lock (reading, hashing, transferring) leaves the tree alone.  \<open>store_client\<close> has the sections as its
  assumptions; it is interpreted for the refinement of the abstract index and for the sequences of
  sections themselves.
\<close>

section \<open>The contract of the critical sections\<close>

locale store_client = frame R for R :: "world \<Rightarrow> world \<Rightarrow> bool" +
  fixes D :: crates
  assumes still_R: "tree_env w' = tree_env w \<Longrightarrow> R w w'"
    and publish_R: "valid_key (key a) \<Longrightarrow> digest e = sha256 D tmp \<Longrightarrow> publish D a tmp e w = (p, w') \<Longrightarrow> R w w'"
    and remove_R: "remove D k w = (u, w') \<Longrightarrow> R w w'"
    and scan_R: "gc_scan D w = (s, w') \<Longrightarrow> R w w'"
    and evict_R: "gc_evict D sizes left x w = (y, w') \<Longrightarrow> R w w'"
begin

lemma keeps_still: "keeps (same tree_env) m \<Longrightarrow> keeps R m"
  by (erule keeps_mono) (simp add: same_def still_R)

lemma keeps_sections:
  "valid_key (key a) \<Longrightarrow> digest e = sha256 D tmp \<Longrightarrow> keeps R (publish D a tmp e)"
  "keeps R (remove D k)" "keeps R (gc_scan D)" "keeps R (gc_evict D sizes left x)"
  by (auto intro!: keepsI intro: publish_R remove_R scan_R evict_R)

lemma keeps_reads:
  "keeps R (index_entry_new d n l)" "keeps R (from_local D a lim)" "keeps R syscall"
  "keeps R (read_file p)"
  by (intro keeps_still keeps_prims observers)+

lemma keeps_locked: "keeps R m \<Longrightarrow> keeps R (with_lock n m)"
  by (rule with_lock_frame [OF frame_axioms still_R])

text \<open>The two layers that fetch: the digest recorded is that of what was received.\<close>

lemma keeps_received:
  assumes p: "producer src" and f: "\<And>tmp d n y. d = sha256 D tmp \<Longrightarrow> keeps R (f tmp d n y)"
    and g: "keeps R g"
  shows "keeps R (bind_eff (receive D a lim src) (\<lambda>r. case r of None \<Rightarrow> g | Some ((tmp, d, n), y) \<Rightarrow> f tmp d n y))"
proof (rule keeps_bind_where)
  show "keeps R (receive D a lim src)"
    by (intro keeps_still keeps_mono [OF producer.receive_still [OF p]] still_tree_env)
next
  fix s r s' assume r: "receive D a lim src s = (Inr r, s')"
  show "keeps R (case r of None \<Rightarrow> g | Some ((tmp, d, n), y) \<Rightarrow> f tmp d n y)"
  proof (cases r)
    case (Some q)
    then obtain tmp d n y where q: "r = Some ((tmp, d, n), y)" by (cases q) auto
    show ?thesis using producer.receive_Some(1) [OF p r [unfolded q]] f by (simp add: q)
  qed (simp add: g)
qed

lemma keeps_fetch_from_mirror:
  assumes "valid_key (key a)" and p: "producer (\<lambda>out. served (mirror_fetch m (key a) out))"
  shows "keeps R (fetch_from_mirror D a m lim)"
  unfolding fetch_from_mirror_def Let_def
  by (rule keeps_received [OF p]; (rule keeps_ret)?)
     (intro keeps_bind_where keeps_reads keeps_ret keeps_sections assms(1); auto dest: index_entry_new_digest)

lemma keeps_fetch_from_upstream:
  assumes "valid_key (key a)"
  shows "keeps R (fetch_from_upstream D ds a src lim)"
  unfolding fetch_from_upstream_def Let_def
  by (rule keeps_received [OF downloading.producer_axioms]; (rule keeps_throw)?)
     (intro keeps_bind_where keeps_reads keeps_ret keeps_sections assms(1); auto dest: index_entry_new_digest)

lemma keeps_try_sources:
  assumes "valid_key (key a)"
  shows "keeps R (try_sources D ds a lim attempts i srcs)"
proof (induction srcs arbitrary: attempts i)
  case (Cons src rest)
  show ?case
    unfolding try_sources.simps
    by (intro keeps_rules keeps_fetch_from_upstream assms Cons.IH)
qed (simp only: try_sources.simps keeps_throw)

lemma keeps_get_with_budget:
  assumes "valid_key (key a)" "mirror_ok ds"
  shows "keeps R (get_with_budget D ds a lim)"
proof -
  have "keeps R (from_mirror D ds a lim)"
    unfolding from_mirror_def
    using assms
    by (cases "ds_mirror ds")
       (auto simp: mirror_ok_def intro!: keeps_rules keeps_fetch_from_mirror)
  then show ?thesis
    unfolding get_with_budget_def lock_def
    by (intro keeps_locked keeps_rules keeps_reads keeps_try_sources assms)
qed

lemma keeps_gc: "keeps R (gc D limit)"
proof -
  have "keeps R (gc_loop D sizes limit left es)" for sizes left es
  proof (induction es arbitrary: left)
    case (Cons e es)
    show ?case unfolding gc_loop.simps by (intro keeps_rules keeps_sections Cons.IH)
  qed (simp only: gc_loop.simps keeps_ret)
  then show ?thesis unfolding gc_def by (intro keeps_rules keeps_sections)
qed

lemma keeps_import:
  assumes "valid_key (key a)"
  shows "keeps R (import_file D a file)"
  unfolding import_file_def lock_def
  by (intro keeps_locked keeps_bind keeps_map_err keeps_reads keeps_of_sum
      keeps_received copying.producer_axioms keeps_throw keeps_bind_where keeps_sections assms)
     (auto dest: index_entry_new_digest)

end

section \<open>The sections refine the index\<close>

definition safe :: "crates \<Rightarrow> world \<Rightarrow> world \<Rightarrow> bool" where
  "safe D w w' \<longleftrightarrow> (sound_crates D \<longrightarrow> index.refines D w w')"

lemma safe_keepsD: "keeps (index.refines D) m \<Longrightarrow> m w = (r, w') \<Longrightarrow> safe D w w'"
  by (auto simp: safe_def dest: keepsD)

interpretation safe: store_client "safe D" D for D
proof unfold_locales
  show "safe D w w" for w
    by (simp add: safe_def index.kc.refl_R)
  show "safe D w w' \<Longrightarrow> safe D w' v \<Longrightarrow> safe D w v" for w w' v
    by (auto simp: safe_def intro: index.kc.trans_R)
  show "tree_env w' = tree_env w \<Longrightarrow> safe D w w'" for w w'
    by (auto simp: safe_def same_def intro!: safe_same)
  show "safe D w w'"
    if "valid_key (key a)" "digest e = sha256 D tmp" "publish D a tmp e w = (p, w')" for a e tmp w w'
      and p :: "datastore_error + path"
    using keepsD [OF safe_publish [OF _ that(1,2)] that(3)] by (simp add: safe_def)
  show "remove D k w = (u, w') \<Longrightarrow> safe D w w'" for k u w w'
    by (rule safe_keepsD [OF safe_remove])
  show "gc_scan D w = (s, w') \<Longrightarrow> safe D w w'" for s w w'
    by (rule safe_keepsD [OF safe_gc_scan])
  show "gc_evict D sizes left x w = (y, w') \<Longrightarrow> safe D w w'" for sizes left x y w w'
    by (rule safe_keepsD [OF safe_gc_evict])
qed

section \<open>Interleaved clients\<close>

text \<open>
  What a client can do to the tree in one go, at any time: nothing (it reads, transfers or waits, or
  another client with its own budget and locks continues), or one section under the store lock, with
  whatever it has computed before.  The closure of \<open>store_section\<close> contains every interleaving of the
  clients of a cache directory.
\<close>

inductive store_section :: "crates \<Rightarrow> world \<Rightarrow> world \<Rightarrow> bool" for D where
  elsewhere: "tree_env w' = tree_env w \<Longrightarrow> store_section D w w'"
| publication: "valid_key (key a) \<Longrightarrow> digest e = sha256 D tmp \<Longrightarrow> publish D a tmp e w = (p, w')
    \<Longrightarrow> store_section D w w'"
| removal: "remove D k w = (u, w') \<Longrightarrow> store_section D w w'"
| scan: "gc_scan D w = (s, w') \<Longrightarrow> store_section D w w'"
| eviction: "gc_evict D sizes left x w = (y, w') \<Longrightarrow> store_section D w w'"

interpretation sections: store_client "(store_section D)\<^sup>*\<^sup>*" D for D
  by unfold_locales (auto intro: store_section.intros r_into_rtranclp)

lemma sections_refine:
  assumes "(store_section D)\<^sup>*\<^sup>* w w'" "sound_crates D"
  shows "index.refines D w w'"
proof -
  have "safe D w v" if "store_section D w v" for w v
    using that
    by cases (auto intro: safe.still_R safe.publish_R safe.remove_R safe.scan_R safe.evict_R)
  with assms(1) have "safe D w w'"
    by (induction rule: rtranclp_induct) (auto intro: safe.refl_R safe.trans_R)
  with assms(2) show ?thesis by (simp add: safe_def)
qed

end
