(* ===== verification/Sessions.thy ===== *)
theory Sessions
  imports Resolution Clients
begin

text \<open>
  A client of the store: any sequence of calls of its public operations, on one machine and one
  after the other.  \<open>perform\<close> is the world an operation leaves, whether it succeeds or not.
\<close>

section \<open>Operations\<close>

datatype store_op =
    Op_get artifact
  | Op_get_bytes artifact
  | Op_get_limited artifact u64
  | Op_import artifact "bytes option"
  | Op_peek artifact_key
  | Op_entry artifact_key
  | Op_keys
  | Op_total_bytes
  | Op_blob_bytes
  | Op_verify
  | Op_remove artifact_key
  | Op_gc u64

fun perform :: "crates \<Rightarrow> datastore \<Rightarrow> store_op \<Rightarrow> world \<Rightarrow> world" where
  "perform D ds (Op_get a) w = snd (get D ds a w)"
| "perform D ds (Op_get_bytes a) w = snd (get_bytes D ds a w)"
| "perform D ds (Op_get_limited a n) w = snd (get_limited D ds a n w)"
| "perform D ds (Op_import a f) w = snd (import_file D a f w)"
| "perform D ds (Op_peek k) w = snd ((peek D k :: path option action) w)"
| "perform D ds (Op_entry k) w = snd ((entry D k :: index_entry option action) w)"
| "perform D ds Op_keys w = snd (keys w)"
| "perform D ds Op_total_bytes w = snd (total_bytes w)"
| "perform D ds Op_blob_bytes w = snd (blob_bytes w)"
| "perform D ds Op_verify w = snd (verify D w)"
| "perform D ds (Op_remove k) w = snd (remove D k w)"
| "perform D ds (Op_gc n) w = snd (gc D n w)"

text \<open>Keys come from \<open>ArtifactKey::new\<close>.\<close>

fun op_ok :: "store_op \<Rightarrow> bool" where
  "op_ok (Op_get a) = valid_key (key a)"
| "op_ok (Op_get_bytes a) = valid_key (key a)"
| "op_ok (Op_get_limited a n) = valid_key (key a)"
| "op_ok (Op_import a f) = valid_key (key a)"
| "op_ok (Op_peek k) = valid_key k"
| "op_ok (Op_entry k) = valid_key k"
| "op_ok (Op_remove k) = valid_key k"
| "op_ok _ = True"

inductive runs :: "crates \<Rightarrow> datastore \<Rightarrow> world \<Rightarrow> world \<Rightarrow> bool" for D ds where
  runs_refl: "runs D ds w w"
| runs_step: "runs D ds w w1 \<Longrightarrow> op_ok op \<Longrightarrow> runs D ds w (perform D ds op w1)"

lemma runs_induct_frame:
  assumes run: "runs D ds w w'" and R: "frame R"
    and step: "\<And>op w. op_ok op \<Longrightarrow> R w (perform D ds op w)"
  shows "R w w'"
  using run
proof induction
  case (runs_refl w)
  show ?case by (rule frame.refl_R [OF R])
next
  case (runs_step w w1 op)
  show ?case by (rule frame.trans_R [OF R runs_step.IH step [OF runs_step.hyps(2)]])
qed

section \<open>The invariant over any session\<close>

lemma keeps_snd: "keeps R m \<Longrightarrow> R w (snd (m w))"
  by (simp add: keeps_def)

context store_client
begin

lemma keeps_end: "keeps R m \<Longrightarrow> R w (snd (m w))"
  by (rule keeps_snd)

lemma keeps_get: "valid_key (key a) \<Longrightarrow> mirror_ok ds \<Longrightarrow> keeps R (get D ds a)"
  unfolding get_def get_with_outcome_def by (intro keeps_rules keeps_get_with_budget)

lemma perform_R:
  assumes m: "mirror_ok ds" and ok: "op_ok op"
  shows "R w (perform D ds op w)"
proof (cases op)
  case (Op_get a)
  with ok show ?thesis by (simp add: keeps_end keeps_get m)
next
  case (Op_get_bytes a)
  with ok show ?thesis
    unfolding Op_get_bytes perform.simps get_bytes_def
    by (intro keeps_end keeps_bind keeps_map_err keeps_get m keeps_reads) simp
next
  case (Op_get_limited a n)
  have md: "keeps R (modify (\<lambda>w. w\<lparr>budget := n\<rparr>) :: unit action)"
    by (rule keeps_modify, rule still_R) (simp add: tree_env_def env_def)
  with ok show ?thesis
    unfolding Op_get_limited perform.simps get_limited_def
    by (intro keeps_end keeps_bind md keeps_prod keeps_ret keeps_get_with_budget m) simp
next
  case (Op_import a f)
  with ok show ?thesis by (simp add: keeps_end keeps_import)
next
  case Op_blob_bytes
  show ?thesis
    unfolding Op_blob_bytes perform.simps blob_bytes_def store_lock_def
    by (intro keeps_end keeps_locked keeps_rules keeps_still keeps_prims observers)
next
  case Op_total_bytes
  show ?thesis
    unfolding Op_total_bytes perform.simps total_bytes_def
    by (intro keeps_end keeps_rules keeps_still keeps_prims observers)
qed (simp_all only: perform.simps,
    (intro keeps_end keeps_sections keeps_gc keeps_still keeps_prims observers)+)

lemma runs_R: "runs D ds w w' \<Longrightarrow> mirror_ok ds \<Longrightarrow> R w w'"
  by (erule runs_induct_frame [OF _ frame_axioms]) (rule perform_R)

end

text \<open>Every entry is backed by a blob that hashes to the digest the entry records.\<close>

definition backed :: "crates \<Rightarrow> world \<Rightarrow> bool" where
  "backed D w \<longleftrightarrow>
     (\<forall>k e. entry_of D w k = Some e \<longrightarrow>
        (\<exists>c. blob_of w (digest e) = Some c \<and> sha256 D c = digest e))"

lemma backed_index: "backed D w = index_backed digest (\<lambda>d c. sha256 D c = d) (entry_of D w, blob_of w)"
  by (simp add: backed_def index_backed_def)

lemma refines_backed: "index.refines D w w' \<Longrightarrow> clear w \<Longrightarrow> backed D w \<Longrightarrow> clear w' \<and> backed D w'"
  unfolding backed_index index.refines_def index.view_def by (blast intro: index_steps_backed)

lemma runs_safe:
  assumes "runs D ds w w'" "sound_crates D" "mirror_ok ds"
  shows "index.refines D w w'"
  using safe.runs_R [OF assms(1,3)] assms(2) by (simp add: safe_def)

lemma runs_sections: "runs D ds w w' \<Longrightarrow> mirror_ok ds \<Longrightarrow> (store_section D)\<^sup>*\<^sup>* w w'"
  by (rule sections.runs_R)

section \<open>Lock discipline\<close>

text \<open>
  A key lock is only ever taken with nothing held, and the store lock with nothing or with one key
  lock held: the order key lock, store lock can not deadlock, and no lock is taken twice.
\<close>

definition ordered_lock :: "crates \<Rightarrow> string \<times> string list \<Rightarrow> bool" where
  "ordered_lock D x \<longleftrightarrow>
     (\<exists>k. x = (lock_name D k, []))
     \<or> (fst x = ''.store.lock'' \<and> (snd x = [] \<or> (\<exists>k. snd x = [lock_name D k])))"

lemma locking_reads: "(\<And>f :: world \<Rightarrow> string list. observer f \<Longrightarrow> keeps (same f) m)
    \<Longrightarrow> (\<And>f :: world \<Rightarrow> (string \<times> string list) list. observer f \<Longrightarrow> keeps (same f) m)
    \<Longrightarrow> keeps (locking A h) m"
  by (rule locking_same) (simp_all add: observers)

lemma locking_prims:
  "keeps (locking A h) (validate D a r n d)" "keeps (locking A h) (read_entry D k)"
  "keeps (locking A h) syscall" "keeps (locking A h) (index_entry_new d n l)"
  "keeps (locking A h) (from_local D a lim)" "keeps (locking A h) (entries D)"
  "keeps (locking A h) (digest_referenced D d)" "keeps (locking A h) blobs"
  "keeps (locking A h) (publish_blob D tmp d)" "keeps (locking A h) (write_entry D k e)"
  "keeps (locking A h) (remove_entry k)" "keeps (locking A h) (remove_blob d)"
  "keeps (locking A h) (sweep refs sizes bs)" "keeps (locking A h) (read_file p)"
  "keeps (locking A h) keys" "keeps (locking A h) (verify D)"
  by (intro locking_same keeps_prims observers)+

lemma still_locking: "still w w' \<Longrightarrow> locking A h w w'"
  by (auto simp: still_def locking_def)

lemma locking_publish:
  assumes "A (''.store.lock'', h)"
  shows "keeps (locking A h) (publish D a tmp e)"
  unfolding publish_def store_lock_def
  by (intro locking.keeps_rules locking_prims locking_with_lock assms)

lemma locking_try_sources:
  assumes "A (''.store.lock'', h)"
  shows "keeps (locking A h) (try_sources D ds a lim attempts i srcs)"
proof (induction srcs arbitrary: attempts i)
  case (Cons src rest)
  have "keeps (locking A h) (fetch_from_upstream D ds a src lim)"
    unfolding fetch_from_upstream_def Let_def
    by (intro locking.keeps_rules locking_prims locking_publish assms
        keeps_mono [OF downloading.receive_still] still_locking)
  then show ?case
    unfolding try_sources.simps by (intro locking.keeps_rules Cons.IH)
qed (simp only: try_sources.simps locking.keeps_throw)

lemma locking_get:
  assumes m: "mirror_ok ds"
  shows "keeps (locking (ordered_lock D) []) (get_with_budget D ds a lim)"
  unfolding get_with_budget_def lock_def
proof (rule locking_with_lock)
  let ?h = "[lock_name D (key a)]"
  have store: "ordered_lock D (''.store.lock'', ?h)" by (auto simp: ordered_lock_def)
  have "keeps (locking (ordered_lock D) ?h) (from_mirror D ds a lim)"
  proof (cases "ds_mirror ds")
    case None
    then show ?thesis by (simp add: from_mirror_def locking.keeps_ret)
  next
    case (Some mm)
    with m have p: "producer (\<lambda>out. served (mirror_fetch mm (key a) out))" by (simp add: mirror_ok_def)
    show ?thesis
      unfolding from_mirror_def Some option.case fetch_from_mirror_def Let_def
      by (intro locking.keeps_rules locking_prims locking_publish store
          keeps_mono [OF producer.receive_still [OF p]] still_locking)
  qed
  then show "keeps (locking (ordered_lock D) ?h) (bind_eff (from_local D a lim) (\<lambda>hit.
         case hit of Some r \<Rightarrow> ret r
         | None \<Rightarrow> if offline ds then throw (OfflineMiss (key a))
             else bind_eff (from_mirror D ds a lim) (\<lambda>m.
                 case m of Inr r \<Rightarrow> ret r
                 | Inl mirror_reason \<Rightarrow>
                     if sources a = []
                     then throw (ManualRequired (key a) (description (art_provenance a)))
                     else if \<not> allow_upstream ds then throw (MirrorUnreachable (key a) mirror_reason)
                     else try_sources D ds a lim [] 0 (sources a))))"
    by (intro locking.keeps_rules locking_prims locking_try_sources store)
qed (auto simp: ordered_lock_def)

lemma locking_two_locks:
  assumes "keeps (locking (ordered_lock D) [''.store.lock'', lock_name D k]) m"
  shows "keeps (locking (ordered_lock D) []) (lock D k (store_lock m))"
  unfolding lock_def store_lock_def
  by (intro locking_with_lock assms) (auto simp: ordered_lock_def)

lemma locking_remove: "keeps (locking (ordered_lock D) []) (remove D k)"
  unfolding remove_def by (intro locking_two_locks locking.keeps_rules locking_prims)

lemma locking_import: "keeps (locking (ordered_lock D) []) (import_file D a f)"
  unfolding import_file_def lock_def
  by (rule locking_with_lock)
     (auto simp: ordered_lock_def intro!: locking.keeps_rules locking_prims locking_publish
       keeps_mono [OF copying.receive_still] still_locking)

lemma locking_gc: "keeps (locking (ordered_lock D) []) (gc D n)"
proof -
  have scan: "keeps (locking (ordered_lock D) []) (gc_scan D)"
    unfolding gc_scan_def store_lock_def
    by (rule locking_with_lock)
       (auto simp: ordered_lock_def intro!: locking.keeps_rules locking_prims)
  have evict: "keeps (locking (ordered_lock D) []) (gc_evict D sizes left x)" for sizes left x
    unfolding gc_evict_def
    by (intro locking.keeps_prod locking_two_locks locking.keeps_rules locking_prims)
  have "keeps (locking (ordered_lock D) []) (gc_loop D sizes n left es)" for sizes left es
  proof (induction es arbitrary: left)
    case (Cons e es)
    show ?case unfolding gc_loop.simps by (intro locking.keeps_rules evict Cons.IH)
  qed (simp only: gc_loop.simps locking.keeps_ret)
  with scan show ?thesis unfolding gc_def by (intro locking.keeps_rules)
qed

lemma locking_blob_bytes: "keeps (locking (ordered_lock D) []) blob_bytes"
  unfolding blob_bytes_def store_lock_def
  by (rule locking_with_lock) (auto simp: ordered_lock_def intro!: locking.keeps_rules locking_prims)

lemma locking_snd: "keeps (locking A h) m \<Longrightarrow> locking A h w (snd (m w))"
  by (rule keeps_snd)

lemma locking_perform:
  assumes m: "mirror_ok ds"
  shows "locking (ordered_lock D) [] w (perform D ds op w)"
proof -
  have get: "keeps (locking (ordered_lock D) []) (get D ds a)" for a
    unfolding get_def get_with_outcome_def by (intro locking.keeps_rules locking_get m)
  have md: "keeps (locking (ordered_lock D) []) (modify (\<lambda>w. w\<lparr>budget := n\<rparr>) :: unit action)" for n
    by (rule locking.keeps_modify) (simp add: locking_def)
  show ?thesis
  proof (cases op)
    case (Op_get a)
    show ?thesis unfolding Op_get perform.simps by (intro locking_snd get)
  next
    case (Op_get_bytes a)
    show ?thesis
      unfolding Op_get_bytes perform.simps get_bytes_def
      by (intro locking_snd locking.keeps_rules get locking_prims)
  next
    case (Op_get_limited a n)
    show ?thesis
      unfolding Op_get_limited perform.simps get_limited_def
      by (intro locking_snd locking.keeps_bind md locking.keeps_prod locking.keeps_ret locking_get m)
  next
    case (Op_import a f)
    show ?thesis unfolding Op_import perform.simps by (intro locking_snd locking_import)
  next
    case (Op_remove k)
    show ?thesis unfolding Op_remove perform.simps by (intro locking_snd locking_remove)
  next
    case (Op_gc n)
    show ?thesis unfolding Op_gc perform.simps by (intro locking_snd locking_gc)
  next
    case Op_blob_bytes
    show ?thesis unfolding Op_blob_bytes perform.simps by (intro locking_snd locking_blob_bytes)
  next
    case Op_total_bytes
    show ?thesis
      unfolding Op_total_bytes perform.simps total_bytes_def
      by (intro locking_snd locking.keeps_rules locking_prims)
  qed (simp_all only: perform.simps, (intro locking_snd locking_same keeps_prims observers)+)
qed

lemma runs_locking:
  assumes "runs D ds w w'" "mirror_ok ds"
  shows "locking (ordered_lock D) [] w w'"
  using assms(1) locking.frame_axioms
  by (rule runs_induct_frame) (rule locking_perform [OF assms(2)])

text \<open>
  A lock \<open>n\<close> that a client asks for in some session, with the locks \<open>h\<close> it holds at that moment.
\<close>

definition may_wait :: "crates \<Rightarrow> datastore \<Rightarrow> string \<times> string list \<Rightarrow> bool" where
  "may_wait D ds x \<longleftrightarrow>
     (\<exists>w w' l. runs D ds w w' \<and> held w = [] \<and> lock_log w' = lock_log w @ l \<and> x \<in> set l)"

lemma may_wait_ordered: "may_wait D ds x \<Longrightarrow> mirror_ok ds \<Longrightarrow> ordered_lock D x"
  by (fastforce simp: may_wait_def locking_def dest: runs_locking)

text \<open>A key lock is a file of another name than the store lock.\<close>

lemma key_lock_not_store_lock:
  assumes "sound_crates D"
  shows "lock_name D k \<noteq> ''.store.lock''"
proof
  assume "lock_name D k = ''.store.lock''"
  then have "length (lock_name D k) = length ''.store.lock''" by (rule arg_cong)
  with assms show False by (simp add: lock_name_def sound_crates_def digests_ok_def is_digest_def)
qed

lemma ordered_locks_no_cycle:
  assumes D: "sound_crates D" and S: "S \<noteq> {}" and o: "\<And>c. c \<in> S \<Longrightarrow> ordered_lock D (waits c)"
  shows "\<exists>c \<in> S. \<forall>c' \<in> S. fst (waits c) \<notin> set (snd (waits c'))"
proof (cases "\<exists>c \<in> S. fst (waits c) = ''.store.lock''")
  case True
  have "''.store.lock'' \<notin> set (snd (waits c'))" if "c' \<in> S" for c'
    using o [OF that] key_lock_not_store_lock [OF D] by (auto simp: ordered_lock_def) metis
  with True show ?thesis by metis
next
  case False
  then have "snd (waits c') = []" if "c' \<in> S" for c'
    using o [OF that] that by (auto simp: ordered_lock_def)
  with S show ?thesis by auto
qed

end
