(* ===== verification/Maintenance.thy ===== *)
theory Maintenance
  imports Sessions
begin

text \<open>
  What the maintenance operations of \<open>src/store/mod.rs\<close> compute: \<open>entries\<close>, \<open>verify\<close>, \<open>remove\<close>
  and \<open>gc\<close>.
\<close>

section \<open>Entries\<close>

lemma tree_env_sameI: "same tree_env w w' \<Longrightarrow> tree_env w' = tree_env w"
  by (simp add: same_def)

lemma entries_iff:
  assumes "clear w" "entries D w = (Inr xs, w')"
  shows "(k, e) \<in> set xs \<longleftrightarrow> entry_of D w k = Some e"
proof
  assume "entry_of D w k = Some e"
  with entries_complete [OF assms] show "(k, e) \<in> set xs" by simp
next
  assume mem: "(k, e) \<in> set xs"
  let ?f = "\<lambda>k. bind_eff (read_entry D k) (\<lambda>e. ret (case e of None \<Rightarrow> [] | Some e \<Rightarrow> [(k, e)]))"
  from assms(2) obtain ks w1 where
    ks: "keys w = (Inr ks, w1)" and c: "collect ?f ks w1 = (Inr xs, w')"
    unfolding entries_def by (auto elim!: bind_eff_InrE)
  have "keeps (same tree_env) (?f k)" for k
    by (intro same.keeps_rules keeps_prims observers)
  from same.collect_from [OF this c mem] obtain x s1 zs s2 where
    x: "x \<in> set ks" "?f x s1 = (Inr zs, s2)" "(k, e) \<in> set zs" "same tree_env w1 s1" by blast
  then obtain r where r: "read_entry D x s1 = (Inr r, s2)"
    "zs = (case r of None \<Rightarrow> [] | Some e \<Rightarrow> [(x, e)])"
    by (auto elim!: bind_eff_InrE)
  with x(3) have "x = k" "r = Some e" by (auto split: option.splits)
  with read_entry_Some [of D k s1 e s2] r(1) keys_valid [OF ks x(1)] have "entry_of D s1 k = Some e"
    by simp
  moreover have "same tree_env w w1" by (rule keepsD [OF keeps_keys [OF observer_tree_env] ks])
  then have "same tree_env w s1" using x(4) by (rule same.trans_R)
  from tree_env_views(1) [OF tree_env_sameI [OF this]] have "entry_of D s1 = entry_of D w" .
  ultimately show "entry_of D w k = Some e" by simp
qed

lemma entries_tree: "entries D w = (r, w') \<Longrightarrow> tree_env w' = tree_env w"
  by (rule tree_env_sameI [OF keepsD [OF keeps_entries [OF observer_tree_env]]])

lemma digest_referenced_iff:
  assumes "clear w" "digest_referenced D d w = (Inr b, w')"
  shows "b \<longleftrightarrow> (\<exists>k e. entry_of D w k = Some e \<and> digest e = d)" and "tree_env w' = tree_env w"
proof -
  from assms(2) obtain xs where "entries D w = (Inr xs, w')" "b = list_ex (\<lambda>(_, e). digest e = d) xs"
    unfolding digest_referenced_def by (auto elim!: bind_eff_InrE)
  with entries_iff [OF assms(1)] entries_tree show "b \<longleftrightarrow> (\<exists>k e. entry_of D w k = Some e \<and> digest e = d)"
    "tree_env w' = tree_env w"
    by (auto simp: list_ex_iff) fastforce+
qed

section \<open>Verification\<close>

definition entry_intact :: "crates \<Rightarrow> world \<Rightarrow> index_entry \<Rightarrow> bool" where
  "entry_intact D w e \<longleftrightarrow>
     (\<exists>c. blob_of w (digest e) = Some c \<and> sha256 D c = digest e \<and> length c = entry_bytes e)"

lemma verify_entry_Inr:
  assumes "verify_entry D (k, e) w = (Inr fs, w')" "sighted w"
  shows "if entry_intact D w e then fs = []
         else (\<exists>f. fs = [f] \<and> vf_key f = k \<and> vf_expected f = digest e
                 \<and> vf_actual f = map_option (sha256 D) (blob_of w (digest e)))"
proof -
  let ?p = "blob_path (digest e)"
  have st: "(is_file ?p :: bool action) w = (Inr (blob_of w (digest e) \<noteq> None), next_step w)"
    using is_file_sighted [OF assms(2), of ?p] by (simp add: blob_of_def)
  show ?thesis
  proof (cases "blob_of w (digest e)")
    case None
    with assms(1) st show ?thesis
      by (auto simp: verify_entry_def Let_def bind_eff_def entry_intact_def)
  next
    case (Some c)
    with assms(1) st obtain n d w1 w2 where
      len: "file_length ?p (next_step w) = (Inr n, w1)"
      and dg: "digest_file D (Stored ?p) w1 = (Inr d, w2)"
      and fs: "fs = (if d \<noteq> digest e
                then [\<lparr>vf_key = k, vf_expected = digest e, vf_actual = Some d,
                       vf_reason = ''blob hashes to '' @ d @ '', index records '' @ digest e\<rparr>]
                else if n \<noteq> entry_bytes e
                then [\<lparr>vf_key = k, vf_expected = digest e, vf_actual = Some d,
                       vf_reason = ''blob is '' @ decimal n @ '' bytes, index records ''
                         @ decimal (entry_bytes e)\<rparr>]
                else [])"
      by (auto simp: verify_entry_def Let_def elim!: bind_eff_InrE dest!: map_err_InrE)
    have "n = length c" using file_length_next [OF len, of c] Some by (simp add: blob_of_def)
    moreover have "file_at w1 = file_at (next_step w)"
      by (rule sameD [where f = file_at, OF keeps_file_length len]) (rule observers)
    with digest_file_InrD [OF dg] Some have "d = sha256 D c" by (simp add: blob_of_def)
    ultimately show ?thesis using fs Some by (auto simp: entry_intact_def)
  qed
qed

lemma verify_iff:
  assumes "clear w" "verify D w = (Inr fs, w')"
  shows "(\<exists>f \<in> set fs. vf_key f = k) \<longleftrightarrow> (\<exists>e. entry_of D w k = Some e \<and> \<not> entry_intact D w e)"
proof -
  from assms(2) obtain xs w1 where
    xs: "entries D w = (Inr xs, w1)" and c: "collect (verify_entry D) xs w1 = (Inr fs, w')"
    unfolding verify_def by (auto elim!: bind_eff_InrE)
  note t = entries_tree [OF xs]
  have k: "keeps (same tree_env) (verify_entry D x)" for x by (intro keeps_prims observers)
  have row: "if entry_intact D w e then zs = []
      else (\<exists>f. zs = [f] \<and> vf_key f = k \<and> vf_expected f = digest e
              \<and> vf_actual f = map_option (sha256 D) (blob_of w (digest e)))"
    if "verify_entry D (k, e) s = (Inr zs, s')" "same tree_env w1 s" for k e s zs s'
  proof -
    have s: "tree_env s = tree_env w" using that(2) t by (simp add: same_def)
    have "sighted s" using assms(1) tree_env_views(5) [OF s] by (simp add: clear_def)
    from verify_entry_Inr [OF that(1) this] tree_env_views(2) [OF s]
    show ?thesis by (simp only: entry_intact_def)
  qed
  show ?thesis
  proof
    assume "\<exists>f \<in> set fs. vf_key f = k"
    then obtain f where f: "f \<in> set fs" "vf_key f = k" by blast
    from same.collect_from [OF k c f(1)] obtain x s zs s' where
      x: "x \<in> set xs" "verify_entry D x s = (Inr zs, s')" "f \<in> set zs" "same tree_env w1 s" by blast
    obtain k' e where ke: "x = (k', e)" by (cases x)
    from row [of k' e s zs s'] x(2-4) f(2) ke have "k' = k" "\<not> entry_intact D w e"
      by (auto split: if_splits)
    with x(1) ke entries_iff [OF assms(1) xs] show "\<exists>e. entry_of D w k = Some e \<and> \<not> entry_intact D w e"
      by blast
  next
    assume "\<exists>e. entry_of D w k = Some e \<and> \<not> entry_intact D w e"
    then obtain e where e: "entry_of D w k = Some e" "\<not> entry_intact D w e" by blast
    with entries_iff [OF assms(1) xs] have "(k, e) \<in> set xs" by simp
    from same.collect_mem [OF k c this] obtain s zs s' where
      "verify_entry D (k, e) s = (Inr zs, s')" "set zs \<subseteq> set fs" "same tree_env w1 s" by blast
    with row [of k e s zs s'] e(2) show "\<exists>f \<in> set fs. vf_key f = k" by auto
  qed
qed

section \<open>Removal\<close>

text \<open>The two locks under which an entry is given up.\<close>

lemma two_locks_views:
  assumes "lock D k (store_lock m) w = (Inr y, w')"
  obtains w1 w2 where "tree_env w1 = tree_env w" "m w1 = (Inr y, w2)" "tree_env w' = tree_env w2"
proof -
  from assms obtain wa wb where "tree_env wa = tree_env w" "tree_env w' = tree_env wb"
    and "store_lock m wa = (Inr y, wb)" unfolding lock_def by (rule with_lock_views)
  moreover from this(3) obtain w1 w2 where "tree_env w1 = tree_env wa" "m w1 = (Inr y, w2)"
    "tree_env wb = tree_env w2" unfolding store_lock_def by (rule with_lock_views)
  ultimately show thesis by (intro that) simp_all
qed

text \<open>Giving up an entry: its blob goes unless another key refers to it.\<close>

definition shared :: "crates \<Rightarrow> world \<Rightarrow> artifact_key \<Rightarrow> string \<Rightarrow> bool" where
  "shared D w k d \<longleftrightarrow> (\<exists>j e. j \<noteq> k \<and> entry_of D w j = Some e \<and> digest e = d)"

lemma give_up_Inr:
  assumes run: "bind_eff (remove_entry k) (\<lambda>_. bind_eff (digest_referenced D d) (\<lambda>referenced.
      if referenced then ret u else bind_eff (remove_blob d) (\<lambda>_. ret v))) w = (Inr z, w')"
    and w: "clear w"
  shows "clear w' \<and> entry_of D w' = (entry_of D w)(k := None)
    \<and> blob_of w' = (if shared D w k d then blob_of w else (blob_of w)(d := None))
    \<and> z = (if shared D w k d then u else v)"
proof -
  from run obtain b w2 q w3 where re: "remove_entry k w = (Inr b, w2)"
    and dr: "digest_referenced D d w2 = (Inr q, w3)"
    and rb: "(if q then ret u else bind_eff (remove_blob d) (\<lambda>_. ret v)) w3 = (Inr z, w')"
    by (auto elim!: bind_eff_InrE)
  have v2: "entry_of D w2 = (entry_of D w)(k := None)" "blob_of w2 = blob_of w" "clear w2"
    using index.drop_entry_done [OF re] index.drop_entry_blobs [OF re] index.drop_entry_wf [OF w re]
    by auto
  from digest_referenced_iff [OF v2(3) dr] have
    q: "q \<longleftrightarrow> shared D w k d" and t3: "tree_env w3 = tree_env w2"
    using v2(1) by (auto simp: shared_def split: if_splits)
  note v3 = tree_env_views [OF t3]
  show ?thesis
  proof (cases q)
    case True
    with rb q v2 v3 show ?thesis by auto
  next
    case False
    with rb have rm: "remove_blob d w3 = (Inr (), w')" and "z = v"
      by (auto elim!: bind_eff_InrE)
    with index.drop_blob_done [OF rm] index.drop_blob_entries [OF rm, of D] index.drop_blob_wf [OF _ rm]
      False q v2 v3 show ?thesis by auto
  qed
qed

lemma unit_right_ret: "bind_eff (m :: ('s, 'e, unit) eff) (\<lambda>_. ret ()) = m"
  using bind_eff_right_ret [of m] by (simp add: old.unit.exhaust)

lemma remove_Inr:
  assumes run: "remove D k w = (Inr (), w')" and w: "clear w" "valid_key k"
  shows "entry_of D w' = (entry_of D w)(k := None)"
    and "blob_of w' = (case entry_of D w k of
            None \<Rightarrow> blob_of w
          | Some e \<Rightarrow> if shared D w k (digest e)
                     then blob_of w else (blob_of w)(digest e := None))"
proof -
  from run obtain w0 w9 where t0: "tree_env w0 = tree_env w" and t9: "tree_env w' = tree_env w9"
    and b: "bind_eff (read_entry D k) (\<lambda>entry. case entry of None \<Rightarrow> ret ()
         | Some e \<Rightarrow> bind_eff (remove_entry k) (\<lambda>_. bind_eff (digest_referenced D (digest e))
             (\<lambda>referenced. if referenced then ret () else remove_blob (digest e)))) w0 = (Inr (), w9)"
    unfolding remove_def by (rule two_locks_views)
  from b obtain r w1 where r: "read_entry D k w0 = (Inr r, w1)"
    and k: "(case r of None \<Rightarrow> ret ()
         | Some e \<Rightarrow> bind_eff (remove_entry k) (\<lambda>_. bind_eff (digest_referenced D (digest e))
             (\<lambda>referenced. if referenced then ret () else remove_blob (digest e)))) w1 = (Inr (), w9)"
    by (rule bind_eff_InrE)
  have t1: "tree_env w1 = tree_env w"
    using sameD [where f = tree_env, OF keeps_read_entry r] t0 by (simp add: observers)
  note v0 = tree_env_views [OF t0] and v1 = tree_env_views [OF t1] and v9 = tree_env_views [OF t9]
  have "entry_of D w9 = (entry_of D w)(k := None) \<and> blob_of w9 = (case entry_of D w k of
            None \<Rightarrow> blob_of w
          | Some e \<Rightarrow> if shared D w k (digest e) then blob_of w else (blob_of w)(digest e := None))"
  proof (cases r)
    case None
    with r v0 have "entry_of D w k = None" using read_entry_None [of D k w0 w1] by simp
    with None k v1 show ?thesis by (auto simp: fun_eq_iff)
  next
    case (Some e)
    with r w(2) v0 have "entry_of D w k = Some e" using read_entry_Some [of D k w0 e w1] by simp
    moreover from k Some have "bind_eff (remove_entry k) (\<lambda>_. bind_eff (digest_referenced D (digest e))
        (\<lambda>referenced. if referenced then ret () else bind_eff (remove_blob (digest e)) (\<lambda>_. ret ())))
        w1 = (Inr (), w9)" by (simp only: option.case unit_right_ret)
    note give_up_Inr [OF this]
    moreover have "shared D w1 k d = shared D w k d" for d using v1 by (simp add: shared_def)
    ultimately show ?thesis using w(1) v1 by simp
  qed
  with v9 show "entry_of D w' = (entry_of D w)(k := None)"
    and "blob_of w' = (case entry_of D w k of
            None \<Rightarrow> blob_of w
          | Some e \<Rightarrow> if shared D w k (digest e)
                     then blob_of w else (blob_of w)(digest e := None))" by simp_all
qed

section \<open>Reclamation\<close>

text \<open>The bytes of all blobs.\<close>

definition present :: "world \<Rightarrow> string set" where
  "present w = {d. blob_of w d \<noteq> None}"

definition stored_bytes :: "world \<Rightarrow> nat" where
  "stored_bytes w = (\<Sum>d \<in> present w. length (the (blob_of w d)))"

lemma finite_present: "finite (present w)"
proof -
  have "blob_path ` present w \<subseteq> fst ` set (files w)"
  proof
    fix p assume "p \<in> blob_path ` present w"
    then obtain d where "p = blob_path d" "blob_of w d \<noteq> None" by (auto simp: present_def)
    then have "node_at w p \<noteq> None" "p \<noteq> []" using file_at_node by (auto simp: blob_of_def)
    then show "p \<in> fst ` set (files w)"
      by (simp add: node_at_def map_of_eq_None_iff del: not_None_eq)
  qed
  then have "finite (blob_path ` present w)" by (rule finite_subset) simp
  then show ?thesis by (rule finite_imageD) (simp add: inj_on_def)
qed

lemma stored_bytes_remove:
  assumes "blob_of w' = (blob_of w)(d := None)" "blob_of w d = Some c"
  shows "stored_bytes w = stored_bytes w' + length c"
proof -
  have p: "present w' = present w - {d}" "d \<in> present w" using assms by (auto simp: present_def)
  have "stored_bytes w' = (\<Sum>x \<in> present w - {d}. length (the (blob_of w x)))"
    unfolding stored_bytes_def p(1) by (rule sum.cong) (simp_all add: assms(1))
  with sum.remove [OF finite_present p(2), of "\<lambda>x. length (the (blob_of w x))"] assms(2)
  show ?thesis by (simp add: stored_bytes_def)
qed

lemma foldl_wrapping_add: "n + sum_list ns \<le> u64_max \<Longrightarrow> foldl wrapping_add n ns = n + sum_list ns"
proof (induction ns arbitrary: n)
  case (Cons m ns)
  then have "wrapping_add n m = n + m" by (intro wrapping_add_small) simp
  with Cons show ?case by (simp add: add.assoc)
qed simp

lemma u64_sum_exact: "sum_list ns \<le> u64_max \<Longrightarrow> u64_sum ns = sum_list ns"
  using foldl_wrapping_add [of 0 ns] by (simp add: u64_sum_def)

text \<open>In a tidy tree the listed blobs are the blobs.\<close>

lemma tidy_blob_rows:
  assumes "wf_tree w" "tidy w"
  shows "(d, n) \<in> set (blob_rows w) \<longleftrightarrow>
     is_digest d \<and> (\<exists>c. blob_of w d = Some c \<and> n = length c)"
proof -
  have "s = take 2 d" if "file_at w [''blobs'', s, d] = Some c" for s c
  proof -
    have "(\<exists>d'. is_digest d' \<and> [''blobs'', s, d] = blob_path d')"
      using assms(2) that by (auto simp: tidy_def index_path_def)
    then show ?thesis by (auto simp: blob_path_def)
  qed
  then show ?thesis
    unfolding blob_rows_iff [OF assms(1)] by (auto simp: blob_of_def blob_path_def)
qed

lemma tidy_blob_digest: "tidy w \<Longrightarrow> blob_of w d \<noteq> None \<Longrightarrow> is_digest d"
proof -
  assume t: "tidy w" and "blob_of w d \<noteq> None"
  then obtain c where c: "file_at w (blob_path d) = Some c" by (auto simp: blob_of_def)
  then have "(\<exists>d'. is_digest d' \<and> blob_path d = blob_path d')
      \<or> (\<exists>k. valid_key k \<and> blob_path d = index_path k)
      \<or> hd (blob_path d) = ''tmp'' \<or> hd (blob_path d) = ''locks''"
    using t unfolding tidy_def by blast
  then show "is_digest d" by (simp add: blob_path_def [of d]) (auto simp: blob_path_def index_path_def)
qed

text \<open>The sizes the sweep records, and the blobs it leaves.\<close>

lemma sweep_views:
  assumes "sweep refs sizes bs w = (Inr sizes', w')"
  shows "blob_of w' = (\<lambda>d. if d \<notin> set refs \<and> d \<in> fst ` set bs then None else blob_of w d)
    \<and> entry_of D w' = entry_of D w"
  using assms
proof (induction refs sizes bs arbitrary: w rule: sweep.induct)
  case (2 refs sizes d len bs)
  show ?case
  proof (cases "d \<in> set refs")
    case True
    with 2(3) have "sweep refs (AList.update d len sizes) bs w = (Inr sizes', w')" by simp
    from 2(1) [OF True this] True show ?thesis by (auto simp: fun_eq_iff)
  next
    case False
    from 2(3) False obtain w1 where rb: "remove_blob d w = (Inr (), w1)"
      and sw: "sweep refs sizes bs w1 = (Inr sizes', w')"
      by (auto elim!: bind_eff_InrE)
    from 2(2) [OF False sw] index.drop_blob_done [OF rb] index.drop_blob_entries [OF rb] False
    show ?thesis by (auto simp: fun_eq_iff)
  qed
qed (auto simp: fun_eq_iff)

lemma sweep_sizes:
  assumes "sweep refs sizes bs w = (Inr sizes', w')" "distinct (map fst sizes)"
    "\<forall>x \<in> set bs. f (fst x) = snd x"
  shows "distinct (map fst sizes')
    \<and> map_of sizes' = (\<lambda>d. if d \<in> set refs \<and> d \<in> fst ` set bs then Some (f d) else map_of sizes d)"
  using assms
proof (induction refs sizes bs arbitrary: w rule: sweep.induct)
  case (2 refs sizes d len bs)
  show ?case
  proof (cases "d \<in> set refs")
    case True
    with 2(3) have "sweep refs (AList.update d len sizes) bs w = (Inr sizes', w')" by simp
    from 2(1) [OF True this] 2(4,5) True show ?thesis
      by (auto simp: fun_eq_iff update_conv distinct_update)
  next
    case False
    from 2(3) False obtain w1 where "sweep refs sizes bs w1 = (Inr sizes', w')"
      by (auto elim!: bind_eff_InrE)
    from 2(2) [OF False this] 2(4,5) False show ?thesis by (auto simp: fun_eq_iff)
  qed
qed (auto simp: fun_eq_iff)

definition referenced :: "crates \<Rightarrow> world \<Rightarrow> string \<Rightarrow> bool" where
  "referenced D w d \<longleftrightarrow> (\<exists>k e. entry_of D w k = Some e \<and> digest e = d)"

lemma gc_scan_Inr:
  assumes run: "gc_scan D w = (Inr (es, sizes), w')" and w: "clear w" "tidy w"
  shows "clear w'" "entry_of D w' = entry_of D w"
    and "\<And>k e. (k, e) \<in> set es \<longleftrightarrow> entry_of D w k = Some e"
    and "blob_of w' = (\<lambda>d. if referenced D w d then blob_of w d else None)"
    and "distinct (map fst sizes)"
    and "map_of sizes = (\<lambda>d. if referenced D w d then map_option length (blob_of w d) else None)"
proof -
  from run obtain w0 w9 where t0: "tree_env w0 = tree_env w" and t9: "tree_env w' = tree_env w9"
    and b: "bind_eff (entries D) (\<lambda>es. bind_eff blobs (\<lambda>bs.
        bind_eff (sweep (map (digest \<circ> snd) es) [] bs) (\<lambda>sizes. ret (es, sizes)))) w0
      = (Inr (es, sizes), w9)"
    unfolding gc_scan_def store_lock_def by (rule with_lock_views)
  from b obtain w1 w2 bs where en: "entries D w0 = (Inr es, w1)" and bl: "blobs w1 = (Inr bs, w2)"
    and sw: "sweep (map (digest \<circ> snd) es) [] bs w2 = (Inr sizes, w9)"
    by (auto elim!: bind_eff_InrE)
  have t1: "tree_env w1 = tree_env w0" using en by (rule entries_tree)
  have t2: "tree_env w2 = tree_env w1" by (rule sameD [where f = tree_env, OF keeps_blobs bl]) (rule observers)
  note v0 = tree_env_views [OF t0] and v1 = tree_env_views [OF t1] and v2 = tree_env_views [OF t2]
    and v9 = tree_env_views [OF t9]
  have c0: "clear w0" using w(1) v0 by simp
  show es: "(k, e) \<in> set es \<longleftrightarrow> entry_of D w k = Some e" for k e
    using entries_iff [OF c0 en] v0(1) by simp
  have "sighted w1" "wf_tree w1" "tidy w1"
    using c0 v1(3,5) v0(3) w(2) by (auto simp: clear_def tidy_def)
  with blobs_rows [OF bl] tidy_blob_rows [of w1] v1(2) v0(2)
  have rows: "(d, n) \<in> set bs \<longleftrightarrow> is_digest d \<and> (\<exists>c. blob_of w d = Some c \<and> n = length c)" for d n
    by simp
  have dig: "is_digest d" if "blob_of w d \<noteq> None" for d
    using tidy_blob_digest [OF w(2) that] .
  have listed: "d \<in> fst ` set bs \<longleftrightarrow> blob_of w d \<noteq> None" for d
    using rows dig [of d] by force
  have refs: "d \<in> set (map (digest \<circ> snd) es) \<longleftrightarrow> referenced D w d" for d
    using es by (force simp: referenced_def)
  note sv = sweep_views [OF sw]
  show "entry_of D w' = entry_of D w" using sv v9(1) v2(1) v1(1) v0(1) by metis
  show "blob_of w' = (\<lambda>d. if referenced D w d then blob_of w d else None)"
    using sv v9(2) v2(2) v1(2) v0(2) unfolding refs listed by (auto simp: fun_eq_iff)
  have len: "\<forall>x \<in> set bs. length (the (blob_of w (fst x))) = snd x"
    using rows by (auto simp: split_paired_all)
  have sz: "distinct (map fst sizes) \<and> map_of sizes =
      (\<lambda>d. if referenced D w d \<and> blob_of w d \<noteq> None then Some (length (the (blob_of w d))) else None)"
    using sweep_sizes [OF sw _ len] unfolding refs listed by auto
  then show "distinct (map fst sizes)" by simp
  from sz show "map_of sizes = (\<lambda>d. if referenced D w d then map_option length (blob_of w d) else None)"
    by (auto simp: fun_eq_iff)
  have "clear w2" using c0 v1(5) v2(5) by simp
  from keeps_clear [of "sweep (map (digest \<circ> snd) es) [] bs", OF wf_sweep keeps_sweep this sw]
  show "clear w'" using v9(5) by (simp add: observers)
qed

text \<open>The state of the eviction loop: what is left to delete, and what is left on disk.\<close>

definition gc_inv ::
    "crates \<Rightarrow> (string \<times> u64) list \<Rightarrow> world \<Rightarrow> u64 \<Rightarrow> (artifact_key \<times> index_entry) list \<Rightarrow> bool" where
  "gc_inv D sizes w left es \<longleftrightarrow>
     clear w \<and> left = stored_bytes w
     \<and> (\<forall>d. blob_of w d \<noteq> None \<longrightarrow> referenced D w d)
     \<and> (\<forall>k e. entry_of D w k = Some e \<longrightarrow>
          (k, e) \<in> set es \<and> map_of sizes (digest e) = map_option length (blob_of w (digest e)))
     \<and> (\<forall>k e. (k, e) \<in> set es \<longrightarrow> valid_key k \<and> (entry_of D w k = None \<or> entry_of D w k = Some e))"

lemma gc_inv_views:
  assumes "gc_inv D sizes w left es" "tree_env w' = tree_env w"
  shows "gc_inv D sizes w' left es"
  using assms(1) tree_env_views [OF assms(2)]
  by (simp add: gc_inv_def referenced_def stored_bytes_def present_def)

lemma gc_inv_skip:
  assumes "gc_inv D sizes w left ((k, s) # es)" "entry_of D w k = None"
  shows "gc_inv D sizes w left es"
proof -
  have "(j, e) \<in> set es" if "entry_of D w j = Some e" for j e
    using assms that by (force simp: gc_inv_def)
  with assms(1) show ?thesis by (auto simp: gc_inv_def)
qed

lemma gc_inv_drop:
  assumes inv: "gc_inv D sizes w left ((k, s) # es)" and s: "entry_of D w k = Some s"
    and q: "q \<longleftrightarrow> shared D w k (digest s)"
    and w': "clear w'" "entry_of D w' = (entry_of D w)(k := None)"
      "blob_of w' = (if q then blob_of w else (blob_of w)(digest s := None))"
    and left': "left' = (if q then left
       else left - (case map_of sizes (digest s) of None \<Rightarrow> 0 | Some n \<Rightarrow> n))"
  shows "gc_inv D sizes w' left' es"
proof -
  have sz: "map_of sizes (digest s) = map_option length (blob_of w (digest s))"
    using inv s by (auto simp: gc_inv_def)
  have "left' = stored_bytes w'"
  proof (cases "q \<or> blob_of w (digest s) = None")
    case True
    then have "blob_of w' = blob_of w" using w'(3) by (auto simp: fun_eq_iff)
    with True inv left' sz show ?thesis by (auto simp: gc_inv_def stored_bytes_def present_def)
  next
    case False
    then obtain c where c: "blob_of w (digest s) = Some c" by auto
    have "blob_of w' = (blob_of w)(digest s := None)" using w'(3) False by simp
    from stored_bytes_remove [OF this c] inv left' sz c False show ?thesis by (auto simp: gc_inv_def)
  qed
  moreover have "referenced D w' d" if "blob_of w' d \<noteq> None" for d
  proof -
    from that w'(3) have d: "blob_of w d \<noteq> None" "q \<or> d \<noteq> digest s" by (auto split: if_splits)
    with inv obtain j e where j: "entry_of D w j = Some e" "digest e = d"
      unfolding gc_inv_def referenced_def by blast
    show ?thesis
    proof (cases "j = k")
      case True
      with j s d(2) have "q" by auto
      with q j s True w'(2) show ?thesis by (auto simp: referenced_def shared_def)
    next
      case False
      with j w'(2) show ?thesis by (auto simp: referenced_def)
    qed
  qed
  moreover have "(j, e) \<in> set es \<and> map_of sizes (digest e) = map_option length (blob_of w' (digest e))"
    if "entry_of D w' j = Some e" for j e
  proof -
    from that w'(2) have j: "j \<noteq> k" "entry_of D w j = Some e" by (auto split: if_splits)
    with inv have "(j, e) \<in> set es" "map_of sizes (digest e) = map_option length (blob_of w (digest e))"
      by (auto simp: gc_inv_def)
    moreover have "blob_of w' (digest e) = blob_of w (digest e)"
      using w'(3) q j by (auto simp: shared_def split: if_splits)
    ultimately show ?thesis by simp
  qed
  moreover have "valid_key j \<and> (entry_of D w' j = None \<or> entry_of D w' j = Some e)"
    if "(j, e) \<in> set es" for j e
    using inv that w'(2) by (auto simp: gc_inv_def)
  ultimately show ?thesis using w'(1) unfolding gc_inv_def by blast
qed

lemma gc_evict_Inr:
  assumes run: "gc_evict D sizes left (k, s) w = (Inr (left', b), w')"
    and inv: "gc_inv D sizes w left ((k, s) # es)"
  shows "gc_inv D sizes w' left' es"
    and "entry_of D w' = (if b then (entry_of D w)(k := None) else entry_of D w)"
    and "b \<longrightarrow> entry_of D w k = Some s" and "\<not> b \<longrightarrow> entry_of D w k = None"
proof -
  let ?n = "\<lambda>e. saturating_sub left (case map_of sizes (digest e) of None \<Rightarrow> 0 | Some n \<Rightarrow> n)"
  let ?give_up = "\<lambda>e. bind_eff (remove_entry k) (\<lambda>_. bind_eff (digest_referenced D (digest e)) (\<lambda>referenced.
      if referenced then ret (left, True) else bind_eff (remove_blob (digest e)) (\<lambda>_. ret (?n e, True))))"
  from run obtain w0 w9 where t0: "tree_env w0 = tree_env w" and t9: "tree_env w' = tree_env w9"
    and bd: "bind_eff (read_entry D k) (\<lambda>entry. case entry of None \<Rightarrow> ret (left, False)
       | Some e \<Rightarrow> if digest e \<noteq> digest s then ret (left, False) else ?give_up e) w0 = (Inr (left', b), w9)"
    unfolding gc_evict_def prod.case by (rule two_locks_views)
  from bd obtain r w1 where r: "read_entry D k w0 = (Inr r, w1)"
    and kk: "(case r of None \<Rightarrow> ret (left, False)
       | Some e \<Rightarrow> if digest e \<noteq> digest s then ret (left, False) else ?give_up e) w1 = (Inr (left', b), w9)"
    by (rule bind_eff_InrE)
  have t1: "tree_env w1 = tree_env w"
    using sameD [where f = tree_env, OF keeps_read_entry r] t0 by (simp add: observers)
  note v0 = tree_env_views [OF t0] and v1 = tree_env_views [OF t1] and v9 = tree_env_views [OF t9]
  have inv1: "gc_inv D sizes w1 left ((k, s) # es)" by (rule gc_inv_views [OF inv t1])
  have "gc_inv D sizes w9 left' es
     \<and> entry_of D w9 = (if b then (entry_of D w1)(k := None) else entry_of D w1)
     \<and> (b \<longrightarrow> entry_of D w1 k = Some s) \<and> (\<not> b \<longrightarrow> entry_of D w1 k = None)"
  proof (cases r)
    case None
    with kk have "w9 = w1" "left' = left" "\<not> b" by auto
    moreover have "entry_of D w1 k = None" using None r read_entry_None [of D k w0 w1] v0(1) v1(1) by simp
    ultimately show ?thesis using gc_inv_skip [OF inv1] by simp
  next
    case (Some e)
    have "valid_key k" "clear w1" using inv1 by (auto simp: gc_inv_def)
    with Some r have e: "entry_of D w1 k = Some e" using read_entry_Some [of D k w0 e w1] v0(1) v1(1) by simp
    with inv1 have es: "e = s" by (auto simp: gc_inv_def)
    from kk Some es have "?give_up s w1 = (Inr (left', b), w9)" by simp
    note g = give_up_Inr [OF this \<open>clear w1\<close>]
    then have b: "b" and left': "left' = (if shared D w1 k (digest s) then left
        else left - (case map_of sizes (digest s) of None \<Rightarrow> 0 | Some n \<Rightarrow> n))"
      by (simp_all add: saturating_sub_nat split: if_splits)
    from gc_inv_drop [OF inv1 e [unfolded es] refl _ _ _ left'] g b e es show ?thesis by simp
  qed
  with v9 v1 gc_inv_views [OF _ t9] show "gc_inv D sizes w' left' es"
    and "entry_of D w' = (if b then (entry_of D w)(k := None) else entry_of D w)"
    and "b \<longrightarrow> entry_of D w k = Some s" and "\<not> b \<longrightarrow> entry_of D w k = None" by simp_all
qed

lemma stored_bytes_none: "(\<And>d. blob_of w d = None) \<Longrightarrow> stored_bytes w = 0"
  by (simp add: stored_bytes_def present_def)

lemma gc_loop_Inr:
  assumes "gc_loop D sizes limit left es w = (Inr ks, w')" "gc_inv D sizes w left es"
    "sorted (map (fetched_at \<circ> snd) es)"
  shows "clear w'" and "stored_bytes w' \<le> limit"
    and "entry_of D w' = (\<lambda>k. if k \<in> set ks then None else entry_of D w k)"
    and "\<And>k e k' e'. k \<in> set ks \<Longrightarrow> entry_of D w k = Some e \<Longrightarrow> entry_of D w' k' = Some e' \<Longrightarrow>
           fetched_at e \<le> fetched_at e'"
    and "\<And>d. blob_of w' d \<noteq> None \<Longrightarrow> referenced D w' d"
    and "left \<le> limit \<longrightarrow> ks = []"
proof -
  have "clear w' \<and> stored_bytes w' \<le> limit
    \<and> entry_of D w' = (\<lambda>k. if k \<in> set ks then None else entry_of D w k)
    \<and> (\<forall>k e k' e'. k \<in> set ks \<longrightarrow> entry_of D w k = Some e \<longrightarrow> entry_of D w' k' = Some e' \<longrightarrow>
           fetched_at e \<le> fetched_at e')
    \<and> (\<forall>d. blob_of w' d \<noteq> None \<longrightarrow> referenced D w' d) \<and> (left \<le> limit \<longrightarrow> ks = [])"
    using assms
  proof (induction es arbitrary: left w ks)
    case Nil
    then have "w' = w" "ks = []" by auto
    moreover have "stored_bytes w = 0"
      using Nil.prems(2) by (intro stored_bytes_none) (auto simp: gc_inv_def referenced_def)
    ultimately show ?case using Nil.prems(2) by (auto simp: gc_inv_def)
  next
    case (Cons x es)
    obtain k s where x: "x = (k, s)" by (cases x)
    show ?case
    proof (cases "left \<le> limit")
      case True
      with Cons.prems(1) have "w' = w" "ks = []" by auto
      with Cons.prems(2) True show ?thesis by (auto simp: gc_inv_def)
    next
      case False
      with Cons.prems(1) obtain left1 b w1 ks1 where
        ev: "gc_evict D sizes left (k, s) w = (Inr (left1, b), w1)"
        and lp: "gc_loop D sizes limit left1 es w1 = (Inr ks1, w')"
        and ks: "ks = (if b then k # ks1 else ks1)"
        by (auto simp: x elim!: bind_eff_InrE)
      note e = gc_evict_Inr [OF ev Cons.prems(2) [unfolded x]]
      have "sorted (map (fetched_at \<circ> snd) es)" using Cons.prems(3) by (simp add: comp_def)
      note ih = Cons.IH [OF lp e(1) this]
      have "entry_of D w' = (\<lambda>j. if j \<in> set ks then None else entry_of D w j)"
        using ih e(2) ks by (auto simp: fun_eq_iff)
      moreover have "fetched_at y \<le> fetched_at y'"
        if "j \<in> set ks" "entry_of D w j = Some y" "entry_of D w' j' = Some y'" for j y j' y'
      proof (cases "b \<and> j = k")
        case True
        from that(3) ih have "entry_of D w1 j' = Some y'" by (auto split: if_splits)
        with e(1) have "(j', y') \<in> set es" by (auto simp: gc_inv_def)
        then have "fetched_at s \<le> fetched_at y'" using Cons.prems(3) x by auto
        with True e(3) that(2) show ?thesis by simp
      next
        case False
        with that(1) ks have "j \<in> set ks1" by (auto split: if_splits)
        moreover have "entry_of D w1 j = Some y" using that(2) e(2,4) False by auto
        ultimately show ?thesis using ih that(3) by blast
      qed
      ultimately show ?thesis using ih False by blast
    qed
  qed
  then show "clear w'" "stored_bytes w' \<le> limit"
    "entry_of D w' = (\<lambda>k. if k \<in> set ks then None else entry_of D w k)"
    "\<And>k e k' e'. k \<in> set ks \<Longrightarrow> entry_of D w k = Some e \<Longrightarrow> entry_of D w' k' = Some e' \<Longrightarrow>
           fetched_at e \<le> fetched_at e'"
    "\<And>d. blob_of w' d \<noteq> None \<Longrightarrow> referenced D w' d"
    "left \<le> limit \<longrightarrow> ks = []"
    by blast+
qed

lemma sum_list_map_of:
  assumes "distinct (map fst xs)"
  shows "sum_list (map snd xs) = (\<Sum>d \<in> fst ` set xs. the (map_of xs d))"
  using assms
proof (induction xs)
  case (Cons x xs)
  have "(\<Sum>d \<in> fst ` set xs. the (map_of (x # xs) d)) = (\<Sum>d \<in> fst ` set xs. the (map_of xs d))"
    using Cons.prems by (intro sum.cong) (auto simp: rev_image_eqI)
  with Cons show ?case by simp
qed simp

lemma gc_Inr:
  assumes run: "gc D limit w = (Inr ks, w')" and w: "clear w" "tidy w"
    and fits: "stored_bytes w \<le> u64_max"
  shows "stored_bytes w' \<le> limit"
    and "entry_of D w' = (\<lambda>k. if k \<in> set ks then None else entry_of D w k)"
    and "\<And>k e k' e'. k \<in> set ks \<Longrightarrow> entry_of D w k = Some e \<Longrightarrow> entry_of D w' k' = Some e' \<Longrightarrow>
           fetched_at e \<le> fetched_at e'"
    and "\<And>d. blob_of w' d \<noteq> None \<Longrightarrow> referenced D w' d"
    and "stored_bytes w \<le> limit \<Longrightarrow> ks = []"
proof -
  from run obtain es sizes w1 where sc: "gc_scan D w = (Inr (es, sizes), w1)"
    and lp: "gc_loop D sizes limit (u64_sum (map snd sizes)) (sort_key (fetched_at \<circ> snd) es) w1
      = (Inr ks, w')"
    unfolding gc_def by (auto elim!: bind_eff_InrE)
  note s = gc_scan_Inr [OF sc w]
  have pr: "present w1 = {d. referenced D w d \<and> blob_of w d \<noteq> None}"
    using s(4) by (auto simp: present_def split: if_splits)
  have dom: "fst ` set sizes = present w1"
  proof -
    have "fst ` set sizes = dom (map_of sizes)" by (simp add: dom_map_of_conv_image_fst)
    also have "\<dots> = present w1" unfolding s(6) pr by (auto simp: dom_def split: if_splits)
    finally show ?thesis .
  qed
  have "sum_list (map snd sizes) = stored_bytes w1"
    unfolding sum_list_map_of [OF s(5)] dom stored_bytes_def s(6) s(4)
    by (rule sum.cong) (auto simp: pr)
  moreover have le: "stored_bytes w1 \<le> stored_bytes w"
    unfolding stored_bytes_def
  proof -
    have "(\<Sum>d \<in> present w1. length (the (blob_of w1 d))) = (\<Sum>d \<in> present w1. length (the (blob_of w d)))"
      by (rule sum.cong) (auto simp: s(4) pr)
    also have "\<dots> \<le> (\<Sum>d \<in> present w. length (the (blob_of w d)))"
      by (rule sum_mono2 [OF finite_present]) (unfold pr, auto simp: present_def)
    finally show "(\<Sum>d \<in> present w1. length (the (blob_of w1 d)))
      \<le> (\<Sum>d \<in> present w. length (the (blob_of w d)))" .
  qed
  ultimately have left: "u64_sum (map snd sizes) = stored_bytes w1"
    using fits by (subst u64_sum_exact) auto
  have val: "valid_key k" if "entry_of D w k = Some e" for k e
    using that by (auto simp: entry_of_def split: if_splits)
  have "gc_inv D sizes w1 (u64_sum (map snd sizes)) (sort_key (fetched_at \<circ> snd) es)"
    unfolding gc_inv_def left
    using s val by (auto simp: referenced_def split: if_splits)
  note l = gc_loop_Inr [OF lp this sorted_sort_key]
  show "stored_bytes w' \<le> limit" by (rule l(2))
  show "entry_of D w' = (\<lambda>k. if k \<in> set ks then None else entry_of D w k)"
    using l(3) unfolding s(2) .
  show "fetched_at e \<le> fetched_at e'"
    if "k \<in> set ks" "entry_of D w k = Some e" "entry_of D w' k' = Some e'" for k e k' e'
    using l(4) [OF that(1) _ that(3)] that(2) s(2) by simp
  show "referenced D w' d" if "blob_of w' d \<noteq> None" for d using l(5) [OF that] .
  show "ks = []" if "stored_bytes w \<le> limit" using l(6) left le that by auto
qed

end
