(* ===== verification/Caching.thy ===== *)
theory Caching
  imports Maintenance
begin

text \<open>
  The store on a machine where nothing fails: a key whose blob is in order is served from the local
  layer without a request, and a file is placed where nothing stands in its way.
\<close>

section \<open>Steps that do not fail\<close>

lemma map_err_reliable: "m w = (Inr x, w') \<Longrightarrow> map_err g m w = (Inr x, w')"
  by (rule map_err_Inr)

lemma with_lock_reliable:
  assumes "reliable w"
  obtains w1 where "acquire n w = (Inr (), w1)" "reliable w1" "files w1 = files w" "sent w1 = sent w"
    "budget w1 = budget w"
    "\<And>(m :: 'a action) r w2. m w1 = (r, w2) \<Longrightarrow> with_lock n m w = (r, release w2)"
proof -
  let ?w = "next_step (next_step w)"
  let ?w1 = "?w\<lparr>lock_log := lock_log ?w @ [(n, held ?w)], held := n # held ?w\<rparr>"
  have a: "acquire n w = (Inr (), ?w1)"
    using assms by (simp add: acquire_def map_err_def bind_eff_def syscall_reliable)
  have "with_lock n m w = (r, release w2)" if "m ?w1 = (r, w2)" for m :: "'a action" and r w2
    using that a by (simp add: with_lock_def bind_eff_def)
  moreover have "reliable ?w1" using assms by (simp add: reliable_def next_step_def)
  ultimately show thesis
    using that [OF a] by (simp add: next_step_def)
qed

lemma read_entry_reliable:
  assumes "reliable w" "entry_of D w k = Some e"
  shows "read_entry D k w = (Inr (Some e), next_step w)"
proof -
  obtain t where t: "file_at w (index_path k) = Some (as_bytes t)" "utf8_valid (as_bytes t)"
    "from_json D t = Inr e" "is_digest (digest e)"
    using assms(2) by (auto simp: entry_of_def entry_text_def parse_entry_Some bind_eq_Some_conv
        split: if_splits)
  from read_to_string_reliable [OF assms(1) t(1,2)] t(3,4) show ?thesis
    by (simp add: read_entry_def handle_def bind_eff_def decode_entry_def)
qed

lemma recheck_blob_reliable:
  assumes "reliable w" "file_at w p = Some c" "sha256 D c = digest e" "length c = entry_bytes e"
    "admissible D a c"
  shows "\<exists>w'. recheck_blob D a e p w = (Inr (), w')"
proof -
  have len: "file_length p w = (Inr (length c), next_step w)"
    using file_length_reliable [OF assms(1,2)] .
  have dg: "digest_file D (Stored p) (next_step w) = (Inr (sha256 D c), next_step (next_step (next_step w)))"
    using digest_file_reliable [of "next_step w" "Stored p" c D] assms(1,2) by simp
  from validate_complete [of "next_step (next_step (next_step w))" "Stored p" c D a] assms(1,2,5)
  obtain w' where "validate D a (Stored p) (length c) (sha256 D c) (next_step (next_step (next_step w)))
      = (Inr (), w')" by auto
  with len dg assms(3,4) show ?thesis
    by (auto simp: recheck_blob_def bind_eff_def map_err_def)
qed

lemma admissible_pins: "admissible D a c \<Longrightarrow> pin \<in> set (pinned_sha256s (art_check a)) \<Longrightarrow> pin = sha256 D c"
  using accepts_split [of D "art_check a" c] by (simp add: admissible_def)

lemma local_hit_reliable:
  assumes "reliable w" "blob_of w (digest e) = Some c" "sha256 D c = digest e"
    "length c = entry_bytes e" "admissible D a c"
  shows "\<exists>w'. local_hit D a e w = (Inr (Some (blob_path (digest e))), w')"
proof -
  let ?p = "blob_path (digest e)"
  have st: "(is_file ?p :: bool action) w = (Inr True, next_step w)"
    using is_file_sighted [OF reliable_sighted [OF assms(1)], of ?p] assms(2) by (simp add: blob_of_def)
  have np: "\<not> list_ex (\<lambda>pin. pin \<noteq> digest e) (pinned_sha256s (art_check a))"
    using admissible_pins [OF assms(5)] assms(3) by (auto simp: list_ex_iff)
  from recheck_blob_reliable [of "next_step w" ?p c D e a] assms obtain w' where
    "recheck_blob D a e ?p (next_step w) = (Inr (), w')" by (auto simp: blob_of_def)
  with st np show ?thesis by (auto simp: local_hit_def Let_def bind_eff_def)
qed

text \<open>A key whose blob is in order is answered by the local layer, without a request.\<close>

lemma get_hit:
  assumes w: "reliable w" and e: "entry_of D w (key a) = Some e"
    and c: "blob_of w (digest e) = Some c" "sha256 D c = digest e" "length c = entry_bytes e"
    and a: "admissible D a c"
  shows "\<exists>w'. get_with_budget D ds a False w
      = (Inr (blob_path (digest e), outcome LocalDisk (entry_bytes e) None), w')
    \<and> files w' = files w \<and> sent w' = sent w"
proof -
  obtain w1 where w1: "reliable w1" "files w1 = files w" "sent w1 = sent w"
    and lk: "\<And>(m :: (path \<times> resolve_outcome) action) r w2.
      m w1 = (r, w2) \<Longrightarrow> with_lock (lock_name D (key a)) m w = (r, release w2)"
    by (rule with_lock_reliable [where 'a = "path \<times> resolve_outcome" and n = "lock_name D (key a)", OF w])
      blast
  have v1: "entry_of D w1 = entry_of D w" "blob_of w1 = blob_of w"
    using w1(2) by (simp_all add: fun_eq_iff entry_of_def entry_text_def blob_of_def file_at_def node_at_def)
  have re: "read_entry D (key a) w1 = (Inr (Some e), next_step w1)"
    using read_entry_reliable [OF w1(1)] e v1(1) by simp
  have "blob_of (next_step w1) = blob_of w1" by (simp add: blob_of_def [abs_def])
  then have "blob_of (next_step w1) (digest e) = Some c" using c(1) v1(2) by simp
  with local_hit_reliable [of "next_step w1" e c D a] w1(1) c(2,3) a obtain w2 where
    hit: "local_hit D a e (next_step w1) = (Inr (Some (blob_path (digest e))), w2)" by auto
  have fl: "from_local D a False w1
      = (Inr (Some (blob_path (digest e), outcome LocalDisk (entry_bytes e) None)), w2)"
    using re hit by (simp add: from_local_def bind_eff_def)
  have "get_with_budget D ds a False w
      = (Inr (blob_path (digest e), outcome LocalDisk (entry_bytes e) None), release w2)"
    unfolding get_with_budget_def lock_def
    by (rule lk) (use fl in \<open>simp add: bind_eff_def\<close>)
  moreover have "files w2 = files w1" "sent w2 = sent w1"
    by (rule sameD [OF keeps_from_local fl], rule observers)+
  ultimately show ?thesis using w1 by (simp add: release_def)
qed

section \<open>Writing without obstacles\<close>

text \<open>No file stands where a directory of \<open>p\<close> must be, and no directory at \<open>p\<close>.\<close>

definition room :: "world \<Rightarrow> path \<Rightarrow> bool" where
  "room w p \<longleftrightarrow> (\<forall>n < length p. file_at w (take n p) = None) \<and> node_at w p \<noteq> Some Dir"

lemma make_dir_node: "make_dir p w = (r, w') \<Longrightarrow> q \<noteq> p \<Longrightarrow> node_at w' q = node_at w q"
  by (auto simp: make_dir_def node_at_set elim!: bind_eff_cases dest!: syscall_result
      split: option.splits node.splits if_splits)

lemma create_dir_all_node:
  assumes "create_dir_all p w = (r, w')" "\<And>n. q \<noteq> take n p"
  shows "node_at w' q = node_at w q"
proof -
  have "for_each make_dir ps w = (r, w') \<Longrightarrow> q \<notin> set ps \<Longrightarrow> node_at w' q = node_at w q" for ps
    by (induction ps arbitrary: w) (auto elim!: bind_eff_cases dest: make_dir_node)
  moreover have "q \<notin> set (map (\<lambda>n. take (Suc n) p) [0..<length p])" using assms(2) by auto
  ultimately show ?thesis using assms(1) unfolding create_dir_all_def by blast
qed

text \<open>Writing a file below directories that are made first.\<close>

lemma place_reliable:
  assumes "reliable w" "room w p" "p \<noteq> []"
  obtains w1 w2 where "create_dir_all (butlast p) w = (Inr (), w1)" "reliable w1"
    "file_at w1 = file_at w" "sent w1 = sent w"
    "\<And>q. q \<noteq> p \<Longrightarrow> (\<And>n. n < length p \<Longrightarrow> q \<noteq> take n p) \<Longrightarrow> node_at w1 q = node_at w q"
    "node_at w1 (butlast p) = Some Dir" "node_at w1 p \<noteq> Some Dir"
proof -
  have pre: "file_at w (take n (butlast p)) = None" for n
  proof (cases "n < length p")
    case True
    then have "take n (butlast p) = take n p \<or> take n (butlast p) = butlast p"
      by (auto simp: butlast_conv_take min_def)
    moreover have "butlast p = take (length p - 1) p" by (simp add: butlast_conv_take)
    moreover have "length p - 1 < length p" using assms(3) by simp
    ultimately show ?thesis using assms(2) True by (auto simp: room_def)
  next
    case False
    then have "take n (butlast p) = take (length p - 1) p" by (simp add: butlast_conv_take)
    moreover have "length p - 1 < length p" using assms(3) by simp
    ultimately show ?thesis using assms(2) by (simp add: room_def)
  qed
  obtain w1 where w1: "create_dir_all (butlast p) w = (Inr (), w1)" "reliable w1"
    "node_at w1 (butlast p) = Some Dir" "grows_dirs w w1"
    using create_dir_all_reliable [OF assms(1) pre] by blast
  have f: "file_at w1 = file_at w" using w1(4) by (auto simp: fun_eq_iff grows_dirs_file_at)
  have s: "sent w1 = sent w"
    by (rule sameD [OF keeps_create_dir_all w1(1)]) (rule observers)
  have q: "node_at w1 q = node_at w q" if "\<And>n. n < length p \<Longrightarrow> q \<noteq> take n p" for q
  proof (rule create_dir_all_node [OF w1(1)])
    fix n
    have "take n (butlast p) = take (min n (length p - 1)) p" by (simp add: butlast_conv_take)
    moreover have "min n (length p - 1) < length p"
      using assms(3) by (intro le_less_trans [OF min.cobounded2]) simp
    ultimately show "q \<noteq> take n (butlast p)" using that by simp
  qed
  have "node_at w1 p = node_at w p"
  proof (rule q)
    fix n assume "n < length p"
    then have "length (take n p) \<noteq> length p" by simp
    then show "p \<noteq> take n p" by (rule contrapos_nn) simp
  qed
  with assms(2) have "node_at w1 p \<noteq> Some Dir" by (simp add: room_def)
  with w1(3) show thesis by (intro that [OF w1(1,2) f s q])
qed

end
