(* ===== verification/Example.thy ===== *)
theory Example
  imports Store_Invariant "HOL-Library.Code_Target_Nat"
begin

text \<open>
  A concrete instance of the third-party functions and a small world, on which the theorems are
  applied: \<open>demo\<close> has a digest of the documented shape (64 hex digits of the length and a checksum), a
  sidecar codec that round-trips, and a URL parser for plain http(s) URLs.  They stand in for the
  crates in evaluations only; every theorem is about an arbitrary \<open>crates\<close>.
\<close>

section \<open>A digest\<close>

definition hex :: "nat \<Rightarrow> char" where
  "hex n = ''0123456789abcdef'' ! (n mod 16)"

definition hex_byte :: "nat \<Rightarrow> string" where
  "hex_byte n = [hex (n div 16), hex n]"

definition demo_sha :: "bytes \<Rightarrow> string" where
  "demo_sha c =
     replicate 60 (CHR ''0'') @ hex_byte (length c) @ hex_byte (foldl (\<lambda>n b. 31 * n + unat b) 0 c)"

lemma hex_digit_hex [simp]: "hex_digit (hex n)"
proof -
  have "n mod 16 \<in> set [0..<16]" by simp
  moreover have "\<forall>m \<in> set [0..<16]. hex_digit (''0123456789abcdef'' ! m)" by code_simp
  ultimately show ?thesis by (simp only: hex_def)
qed

lemma demo_sha_digest: "is_digest (demo_sha c)"
proof -
  have "hex_digit (CHR ''0'')" by (simp add: hex_digit_def is_ascii_digit_def)
  then show ?thesis
    by (simp add: is_digest_def demo_sha_def hex_byte_def list_all_iff)
qed

section \<open>A codec\<close>

definition put_nat :: "nat \<Rightarrow> string" where
  "put_nat n = replicate n (CHR ''1'') @ ''.''"

definition get_nat :: "string \<Rightarrow> nat \<times> string" where
  "get_nat s = (length (takeWhile (\<lambda>c. c = CHR ''1'') s), drop 1 (dropWhile (\<lambda>c. c = CHR ''1'') s))"

text \<open>Dots, tildes and bytes outside ASCII are escaped; a dot ends the text.\<close>

definition put_char :: "char \<Rightarrow> string" where
  "put_char c =
     (if c = CHR ''.'' \<or> c = CHR ''~'' \<or> 128 \<le> code c
      then (let n = code c in [CHR ''~'', char_of (65 + n div 16), char_of (65 + n mod 16)])
      else [c])"

fun get_text :: "string \<Rightarrow> string \<times> string" where
  "get_text [] = ([], [])"
| "get_text (c # s) =
     (if c = CHR ''.'' then ([], s)
      else if c = CHR ''~'' then
        (case s of
           a # b # s' \<Rightarrow> (case get_text s' of
             (t, r) \<Rightarrow> (char_of ((code a - 65) * 16 + (code b - 65)) # t, r))
         | _ \<Rightarrow> ([], []))
      else (case get_text s of (t, r) \<Rightarrow> (c # t, r)))"

definition put_text :: "string \<Rightarrow> string" where
  "put_text s = concat (map put_char s) @ ''.''"

definition put_opt :: "string option \<Rightarrow> string" where
  "put_opt x = (case x of None \<Rightarrow> ''0'' | Some s \<Rightarrow> ''1'' @ put_text s)"

definition get_opt :: "string \<Rightarrow> string option \<times> string" where
  "get_opt s = (if hd s = CHR ''0'' then (None, tl s) else (case get_text (tl s) of (t, r) \<Rightarrow> (Some t, r)))"

definition put_layer :: "layer \<Rightarrow> string" where
  "put_layer l = (case l of LocalDisk \<Rightarrow> ''l'' | Mirror_layer \<Rightarrow> ''m'' | Upstream \<Rightarrow> ''u'')"

definition get_layer :: "string \<Rightarrow> layer" where
  "get_layer s = (if s = ''l'' then LocalDisk else if s = ''m'' then Mirror_layer else Upstream)"

definition demo_to_json :: "index_entry \<Rightarrow> string" where
  "demo_to_json e =
     put_text (digest e) @ put_nat (entry_bytes e) @ put_nat (fetched_at e) @ put_opt (entry_source e)
     @ put_opt (entry_etag e) @ put_opt (entry_identity e) @ put_layer (entry_layer e)"

definition demo_from_json :: "string \<Rightarrow> string + index_entry" where
  "demo_from_json s =
     (case get_text s of (d, s) \<Rightarrow> case get_nat s of (n, s) \<Rightarrow> case get_nat s of (t, s) \<Rightarrow>
      case get_opt s of (src, s) \<Rightarrow> case get_opt s of (tag, s) \<Rightarrow> case get_opt s of (i, s) \<Rightarrow>
      Inr \<lparr>digest = d, entry_bytes = n, fetched_at = t, entry_source = src, entry_etag = tag,
           entry_identity = i, entry_layer = get_layer s\<rparr>)"

lemma get_put_nat: "get_nat (put_nat n @ s) = (n, s)"
proof -
  have "takeWhile (\<lambda>c. c = CHR ''1'') (replicate n (CHR ''1'') @ CHR ''.'' # s) = replicate n (CHR ''1'')"
    by (induction n) auto
  moreover have "dropWhile (\<lambda>c. c = CHR ''1'') (replicate n (CHR ''1'') @ CHR ''.'' # s) = CHR ''.'' # s"
    by (induction n) auto
  ultimately show ?thesis by (simp add: get_nat_def put_nat_def)
qed

lemma nibble: "(of_char c :: nat) div 16 < 16"
  using nat_of_char_less_256 [of c] by (intro less_mult_imp_div_less) simp

lemma of_char_nibble:
  assumes "n < 16"
  shows "(of_char (char_of (65 + n :: nat)) :: nat) = 65 + n" "char_of (65 + n :: nat) \<noteq> CHR ''.''"
proof -
  show c: "(of_char (char_of (65 + n :: nat)) :: nat) = 65 + n" using assms by simp
  show "char_of (65 + n :: nat) \<noteq> CHR ''.''"
  proof
    assume "char_of (65 + n :: nat) = CHR ''.''"
    then have "(of_char (char_of (65 + n :: nat)) :: nat) = of_char (CHR ''.'')" by simp
    with c show False by simp
  qed
qed

lemma get_put_text: "get_text (put_text t @ s) = (t, s)"
proof (induction t)
  case Nil
  then show ?case by (simp add: put_text_def)
next
  case (Cons c t)
  let ?n = "of_char c :: nat"
  have d: "?n div 16 < 16" "?n mod 16 < 16" by (simp_all add: nibble)
  have "?n div 16 * 16 + ?n mod 16 = ?n" by simp
  with Cons of_char_nibble [OF d(1)] of_char_nibble [OF d(2)] show ?case
    by (simp add: put_text_def put_char_def Let_def)
qed

lemma get_put_opt: "get_opt (put_opt x @ s) = (x, s)"
  by (cases x) (simp_all add: put_opt_def get_opt_def get_put_text)

lemma demo_round_trip: "demo_from_json (demo_to_json e) = Inr e"
  by (cases "entry_layer e")
     (simp_all add: demo_from_json_def demo_to_json_def get_put_text get_put_nat get_put_opt
       get_layer_def put_layer_def)

lemma demo_json_ascii: "list_all (\<lambda>c. code c < 128) (demo_to_json e)"
proof -
  have n: "list_all (\<lambda>c. code c < 128) (put_nat n)" for n by (induction n) (auto simp: put_nat_def)
  have c: "list_all (\<lambda>c. code c < 128) (put_char c)" for c
  proof -
    let ?n = "of_char c :: nat"
    have "?n div 16 < 16" "?n mod 16 < 16" by (simp_all add: nibble)
    then show ?thesis by (auto simp: put_char_def Let_def)
  qed
  have t: "list_all (\<lambda>c. code c < 128) (put_text t)" for t
    by (induction t) (use c in \<open>auto simp: put_text_def\<close>)
  have o: "list_all (\<lambda>c. code c < 128) (put_opt x)" for x
    by (cases x) (use t in \<open>auto simp: put_opt_def\<close>)
  have l: "list_all (\<lambda>c. code c < 128) (put_layer l)" for l
    by (cases l) (auto simp: put_layer_def)
  show ?thesis using n t o l by (simp add: demo_to_json_def)
qed

section \<open>The instance\<close>

definition demo_url :: "string \<Rightarrow> string \<Rightarrow> string \<Rightarrow> parsed_url" where
  "demo_url raw s rest =
     \<lparr>scheme = s, username = [], password = None,
      host = (let h = takeWhile (\<lambda>c. c \<noteq> CHR ''/'') rest in if h = [] then None else Some h),
      port = None, url_path = dropWhile (\<lambda>c. c \<noteq> CHR ''/'') rest, query = None, fragment = None,
      url_text = raw\<rparr>"

definition demo_url_parse :: "string \<Rightarrow> string + parsed_url" where
  "demo_url_parse raw =
     (case strip_prefix ''https://'' raw of
        Some rest \<Rightarrow> Inr (demo_url raw ''https'' rest)
      | None \<Rightarrow>
          (case strip_prefix ''http://'' raw of
             Some rest \<Rightarrow> Inr (demo_url raw ''http'' rest)
           | None \<Rightarrow> Inl ''relative URL without a base''))"

definition demo :: crates where
  "demo = \<lparr>sha256 = demo_sha, to_json = demo_to_json, from_json = demo_from_json,
     url_parse = demo_url_parse, url_join = (\<lambda>_. demo_url_parse)\<rparr>"

lemma demo_sound: "sound_crates demo"
  by (simp add: sound_crates_def digests_ok_def json_ok_def demo_def demo_sha_digest
      demo_round_trip utf8_valid_ascii_string [OF demo_json_ascii])

definition demo_net :: "request list \<Rightarrow> request \<Rightarrow> response option" where
  "demo_net _ q =
     (if req_url q = ''https://m/artifact/k''
      then Some \<lparr>status = 302, location_header = Some ''https://s/k'', etag_header = None,
                 body = [], body_fails = False\<rparr>
      else if req_url q = ''https://s/k''
      then Some \<lparr>status = 200, location_header = None, etag_header = Some ''e1'',
                 body = [[1, 2], [3]], body_fails = False\<rparr>
      else Some \<lparr>status = 404, location_header = None, etag_header = None, body = [],
                 body_fails = False\<rparr>)"

definition demo_world :: world where
  "demo_world = \<lparr>files = map (\<lambda>d. ([d], Dir)) [''blobs'', ''index'', ''tmp'', ''locks''],
     steps = 0, fault = (\<lambda>_. None), blind = (\<lambda>_. False), clock = (\<lambda>_. 7), torn = (\<lambda>_. 0),
     held = [], lock_log = [], budget = 0, net = demo_net, sent = []\<rparr>"

definition demo_artifact :: artifact where
  "demo_artifact = with_check (MinBytes 2) (artifact_new (ArtifactKey ''k'') [])"

definition demo_store :: datastore where
  "demo_store = \<lparr>ds_mirror = (case http_mirror_new demo ''https://m'' of Inr m \<Rightarrow> Some m | Inl _ \<Rightarrow> None),
     ds_provider = None, allow_upstream = False, offline = False, ds_max_bytes = None\<rparr>"

lemma demo_mirror_ok: "mirror_ok demo_store"
  by (auto simp: mirror_ok_def demo_store_def http_mirror_new_def elim!: bind_sum_InrE
      split: sum.splits intro: http.producer_axioms)

end
