(* ===== verification/Store_Properties.thy ===== *)
theory Store_Properties
  imports Caching Example
begin

text \<open>
  The properties of the store that clients rely on, each a short consequence of the lemmas of the
  component theories, with the example of \<open>Example\<close> on which it is applied.
\<close>

section \<open>The example\<close>

lemma demo_no_files: "file_at demo_world p = None"
  by (simp add: file_at_def node_at_def demo_world_def)

lemma demo_reliable: "reliable demo_world"
  by (simp add: reliable_def demo_world_def)

lemma demo_clear: "clear demo_world"
  by (auto simp: clear_def wf_tree_def demo_world_def node_at_def sighted_def)

lemma demo_no_entries: "entry_of demo demo_world k = None"
  by (simp add: entry_of_def entry_text_def demo_no_files)

lemma demo_backed: "backed demo demo_world"
  by (simp add: backed_def demo_no_entries)

lemma demo_key: "valid_key (key demo_artifact)"
  by code_simp

lemma demo_http: "http_mirrored demo demo_store"
  by (auto simp: http_mirrored_def demo_store_def split: sum.splits)

definition demo_result :: "path \<times> resolve_outcome" where
  "demo_result = (blob_path (demo_sha [1, 2, 3]), outcome Mirror_layer 3 None)"

lemma demo_run: "fst (get_with_outcome demo demo_store demo_artifact demo_world) = Inr demo_result"
  by code_simp

section \<open>Sessions\<close>



text \<open>C2: the clients of one cache directory.  What an operation does is a sequence of critical sections
  (a publication, a removal, a scan, an eviction, each under the store lock) with steps between them
  that leave the tree alone; and however the sections of any number of clients are interleaved, with
  any failures and each cut short anywhere, what becomes of the entries and blobs is a sequence of
  steps of the abstract index: blobs are added where there was none, with content that has their
  digest, entries are recorded when their blob is there, and a blob only goes when no entry refers
  to it.\<close>

theorem clients_refine_the_index:
  assumes "sound_crates D" "clear w"
  shows "(runs D ds w w' \<and> mirror_ok ds \<longrightarrow> (store_section D)\<^sup>*\<^sup>* w w')
    \<and> ((store_section D)\<^sup>*\<^sup>* w w' \<longrightarrow> clear w'
        \<and> index_steps digest (\<lambda>d c. sha256 D c = d) (entry_of D w, blob_of w) (entry_of D w', blob_of w'))"
  using runs_sections [of D ds w w'] sections_refine [of D w w'] assms
  by (simp add: index.refines_def index.view_def)

text \<open>One client fetches; another, which scanned the directory earlier, evicts what it saw then.\<close>

definition demo_snapshot :: index_entry where
  "demo_snapshot =
     \<lparr>digest = demo_sha [1, 2, 3], entry_bytes = 3, fetched_at = 7, entry_source = None,
      entry_etag = None, entry_identity = None, entry_layer = Mirror_layer\<rparr>"

lemma clients_refine_the_index_witness:
  "index_steps digest (\<lambda>d c. sha256 demo c = d) (entry_of demo demo_world, blob_of demo_world)
     (entry_of demo (snd (gc_evict demo [] 9 (ArtifactKey ''k'', demo_snapshot)
        (perform demo demo_store (Op_get demo_artifact) demo_world))),
      blob_of (snd (gc_evict demo [] 9 (ArtifactKey ''k'', demo_snapshot)
        (perform demo demo_store (Op_get demo_artifact) demo_world))))"
proof -
  let ?w = "perform demo demo_store (Op_get demo_artifact) demo_world"
  have "runs demo demo_store demo_world ?w"
    by (intro runs_step runs_refl) (simp add: demo_key)
  then have "(store_section demo)\<^sup>*\<^sup>* demo_world ?w"
    using clients_refine_the_index [OF demo_sound demo_clear] demo_mirror_ok by blast
  moreover have "store_section demo ?w (snd (gc_evict demo [] 9 (ArtifactKey ''k'', demo_snapshot) ?w))"
    by (rule store_section.eviction) (rule surjective_pairing)
  ultimately have "(store_section demo)\<^sup>*\<^sup>* demo_world (snd (gc_evict demo [] 9 (ArtifactKey ''k'', demo_snapshot) ?w))"
    by (rule rtranclp.rtrancl_into_rtrancl)
  then show ?thesis using clients_refine_the_index [OF demo_sound demo_clear] by blast
qed

text \<open>C3: a path that \<open>get\<close> returns is the blob path of the entry now recorded for the key; the
  file there hashes to the recorded digest, and its content is admissible (size, pins and check of
  the artifact) unless it collides with another content that is; the outcome reports the size
  recorded and the layer that served it.\<close>

theorem get_serves_admissible_content:
  assumes "fst (get_with_outcome D ds a w) = Inr (p, o')"
    and "sound_crates D" "valid_key (key a)" "mirror_ok ds"
  shows "\<exists>e c. entry_of D (snd (get_with_outcome D ds a w)) (key a) = Some e
     \<and> p = blob_path (digest e) \<and> blob_of (snd (get_with_outcome D ds a w)) (digest e) = Some c
     \<and> sha256 D c = digest e
     \<and> (admissible D a c \<and> length c = entry_bytes e
        \<or> (\<exists>t. t \<noteq> c \<and> sha256 D t = sha256 D c \<and> admissible D a t))
     \<and> out_bytes o' = entry_bytes e
     \<and> (out_layer o' = LocalDisk \<or> out_layer o' = entry_layer e)"
proof -
  obtain w' where run: "get_with_budget D ds a False w = (Inr (p, o'), w')"
    and w': "snd (get_with_outcome D ds a w) = w'"
    using assms(1) by (cases "get_with_budget D ds a False w") (auto simp: get_with_outcome_def)
  from get_served [OF run assms(2-4)] obtain e c t where
    "entry_of D w' (key a) = Some e" "p = blob_path (digest e)" "blob_of w' (digest e) = Some c"
    "sha256 D c = digest e" "admissible D a t" "sha256 D t = digest e" "entry_bytes e = length t"
    "out_bytes o' = entry_bytes e" "out_layer o' = LocalDisk \<or> out_layer o' = entry_layer e"
    by (auto simp: served_by_def blob_of_def)
  then show ?thesis unfolding w' by (cases "t = c") fastforce+
qed

lemma get_serves_admissible_content_witness:
  "\<exists>e. entry_of demo (snd (get_with_outcome demo demo_store demo_artifact demo_world)) (key demo_artifact)
     = Some e \<and> entry_bytes e = 3"
  using get_serves_admissible_content
    [OF demo_run [unfolded demo_result_def] demo_sound demo_key demo_mirror_ok]
  by (auto simp: outcome_def)



text \<open>C5: a limited resolution that succeeds has a result no larger than the limit.\<close>

theorem get_limited_within_limit:
  assumes "fst (get_limited D ds a n w) = Inr p" "mirror_ok ds" "sound_crates D" "valid_key (key a)"
  shows "\<exists>e. entry_of D (snd (get_limited D ds a n w)) (key a) = Some e
     \<and> p = blob_path (digest e) \<and> entry_bytes e \<le> n"
proof -
  let ?w = "w\<lparr>budget := n\<rparr>"
  obtain o' w' where run: "get_with_budget D ds a True ?w = (Inr (p, o'), w')"
    and w': "snd (get_limited D ds a n w) = w'"
    using assms(1) unfolding get_limited_def
    by (cases "get_with_budget D ds a True ?w") (auto simp: bind_eff_def split: sum.splits)
  from get_served [OF run assms(3,4,2)] get_limited_paid [OF run assms(2)] show ?thesis
    unfolding w' by (auto simp: served_by_def)
qed

lemma demo_limited_run: "fst (get_limited demo demo_store demo_artifact 3 demo_world)
    = Inr (blob_path (demo_sha [1, 2, 3]))"
  by code_simp

lemma get_limited_within_limit_witness:
  "\<exists>e. entry_of demo (snd (get_limited demo demo_store demo_artifact 3 demo_world)) (key demo_artifact)
     = Some e \<and> entry_bytes e \<le> 3"
  using get_limited_within_limit [OF demo_limited_run demo_mirror_ok demo_sound demo_key] by blast

text \<open>C6: clients that wait for locks do not wait for each other: whatever sessions they are in, of
  any set of waiting clients one waits for a lock that none of the set holds (a key lock is only
  asked for with nothing held, the store lock with at most a key lock), and a session that is over
  holds nothing.\<close>

theorem clients_do_not_deadlock:
  assumes "sound_crates D" "S \<noteq> {}" "\<And>c. c \<in> S \<Longrightarrow> mirror_ok (ds c)"
    and "\<And>c. c \<in> S \<Longrightarrow> may_wait D (ds c) (waits c)"
  shows "(\<exists>c \<in> S. \<forall>c' \<in> S. fst (waits c) \<notin> set (snd (waits c')))
    \<and> (\<forall>c \<in> S. \<forall>w w'. runs D (ds c) w w' \<and> held w = [] \<longrightarrow> held w' = [])"
proof
  show "\<exists>c \<in> S. \<forall>c' \<in> S. fst (waits c) \<notin> set (snd (waits c'))"
    by (rule ordered_locks_no_cycle [OF assms(1,2)]) (rule may_wait_ordered [OF assms(4,3)])
  show "\<forall>c \<in> S. \<forall>w w'. runs D (ds c) w w' \<and> held w = [] \<longrightarrow> held w' = []"
    using runs_locking [OF _ assms(3)] by (auto simp: locking_def)
qed

text \<open>Two clients: one asks for the lock of a key, the other has it and asks for the store lock.\<close>

definition demo_waits :: "bool \<Rightarrow> string \<times> string list" where
  "demo_waits b = (if b then (lock_name demo (ArtifactKey ''k''), [])
                   else (''.store.lock'', [lock_name demo (ArtifactKey ''k'')]))"

lemma demo_lock_log:
  "lock_log (perform demo demo_store (Op_get demo_artifact) demo_world) = [demo_waits True, demo_waits False]"
  unfolding perform.simps by code_simp

lemma clients_do_not_deadlock_witness:
  "\<exists>c. \<forall>c'. fst (demo_waits c) \<notin> set (snd (demo_waits c'))"
proof -
  obtain w' where w': "runs demo demo_store demo_world w'" "lock_log w' = [demo_waits True, demo_waits False]"
    by (rule that [OF runs_step [OF runs_refl] demo_lock_log]) (simp add: demo_key)
  have "held demo_world = []" "lock_log demo_world = []" by (simp_all add: demo_world_def)
  with w' have "may_wait demo demo_store (demo_waits c)" for c
    unfolding may_wait_def by (cases c) fastforce+
  with clients_do_not_deadlock [OF demo_sound UNIV_not_empty, of "\<lambda>_. demo_store" demo_waits] demo_mirror_ok
  show ?thesis by auto
qed

end
