(* ===== verification/Importing.thy ===== *)
theory Importing
  imports Caching
begin

text \<open>
  What \<open>import_file\<close> does: a success has stored exactly the file it was given, and it succeeds
  whenever the content is admissible, the machine works and nothing stands in the way.
\<close>

section \<open>An import that succeeds has taken the whole file\<close>

lemma write_takes:
  assumes "receiver_write D c b (w, v) = (Inr (), (w', v'))"
  shows "temp v' = temp v @ b"
  using assms
  by (rule receiver_writeE)
     (auto simp: show_prefix_def receiver_check_prefix_def charge_def Let_def
        split: if_splits option.splits sum.splits)

lemma chunks_take:
  assumes "for_each (copy_chunk (receiver_write D c)) bs (w, v) = (Inr (), (w', v'))"
  shows "temp v' = temp v @ concat bs"
  using assms
proof (induction bs arbitrary: w v)
  case (Cons b bs)
  then obtain w1 v1 where one: "copy_chunk (receiver_write D c) b (w, v) = (Inr (), (w1, v1))"
    and more: "for_each (copy_chunk (receiver_write D c)) bs (w1, v1) = (Inr (), (w', v'))"
    by (auto elim!: bind_eff_InrE)
  have "temp v1 = temp v @ b"
    using one by (auto simp: copy_chunk_def write_all_def on_world_def elim!: bind_eff_InrE
        dest: write_takes split: if_splits prod.splits)
  with Cons.IH [OF more] show ?case by simp
qed simp

lemma receive_whole:
  assumes "receive D a lim (\<lambda>out. served (copy_file c out)) w = (Inr (Some ((t, d, n), x)), w')"
  shows "t = c"
proof -
  from assms obtain w1 result v where
    run: "served (copy_file c (receiver_write D (art_check a))) (w1, receiver_new lim) = (result, (w', v))"
    and rc: "received D a result v = Inr (Some ((t, d, n), x))"
    unfolding receive_def by (auto elim!: bind_eff_InrE split: prod.splits)
  from rc obtain y where "result = Inr y" and t: "t = temp v"
    by (auto simp: received_def receiver_finish_def split: if_splits sum.splits option.splits)
  with run obtain w2 v2 where
    c: "for_each (copy_chunk (receiver_write D (art_check a))) (chunks c) (w1, receiver_new lim) = (Inr (), (w2, v2))"
    and e: "on_world syscall (w2, v2) = (Inr (), (w', v))"
    by (auto simp: served_def copy_file_def io_copy_def elim!: bind_eff_InrE dest!: map_err_InrE)
  have "v = v2" using e by (auto simp: on_world_def split: prod.splits)
  with chunks_take [OF c] t show ?thesis by (simp add: receiver_new_def)
qed

lemma publish_stores:
  assumes run: "publish D a tmp e w = (Inr p, w')"
    and b: "blob_of w (digest e) = None \<or> blob_of w (digest e) = Some tmp"
  shows "blob_of w' (digest e) = Some tmp"
proof -
  from run obtain w1 where
    v: "validate D a (Temp tmp) (entry_bytes e) (digest e) w = (Inr (), w1)"
    and s: "store_lock (bind_eff (publish_blob D tmp (digest e)) (\<lambda>published.
           case published of
             None \<Rightarrow> throw (reject a ''cached blob digest''
               (''an existing blob at '' @ digest e
                @ '' no longer hashes to its address; run verify and remove the keys it reports''))
           | Some p \<Rightarrow> bind_eff (write_entry D (key a) e) (\<lambda>_. ret p))) w1 = (Inr p, w')"
    unfolding publish_def by (auto elim!: bind_eff_InrE)
  have t: "tree_env w1 = tree_env w"
    by (rule sameD [where f = tree_env, OF keeps_validate v]) (rule observers)
  from s obtain w2 w3 where l: "tree_env w2 = tree_env w1" "tree_env w' = tree_env w3"
    and m: "bind_eff (publish_blob D tmp (digest e)) (\<lambda>published.
           case published of
             None \<Rightarrow> throw (reject a ''cached blob digest''
               (''an existing blob at '' @ digest e
                @ '' no longer hashes to its address; run verify and remove the keys it reports''))
           | Some p \<Rightarrow> bind_eff (write_entry D (key a) e) (\<lambda>_. ret p)) w2 = (Inr p, w3)"
    unfolding store_lock_def by (rule with_lock_views)
  from m obtain q w4 where pb: "publish_blob D tmp (digest e) w2 = (Inr (Some q), w4)"
    and we: "write_entry D (key a) e w4 = (Inr (), w3)"
    by (auto elim!: bind_eff_InrE split: option.splits)
  have "blob_of w2 (digest e) = blob_of w (digest e)"
    using tree_env_views [OF l(1)] tree_env_views [OF t] by simp
  with b publish_blob_done(2) [OF pb] have "blob_of w4 (digest e) = Some tmp"
    by (auto simp: blob_of_def)
  then show ?thesis
    using index.put_entry_blobs [OF we] tree_env_views [OF l(2)] by simp
qed

lemma import_Inr:
  assumes run: "import_file D a (Some c) w = (Inr p, w')" and D: "sound_crates D" "valid_key (key a)"
    and b: "blob_of w (sha256 D c) = None \<or> blob_of w (sha256 D c) = Some c"
  shows "\<exists>e. entry_of D w' (key a) = Some e \<and> digest e = sha256 D c \<and> entry_bytes e = length c
     \<and> blob_of w' (digest e) = Some c \<and> admissible D a c \<and> p = blob_path (digest e)"
proof -
  let ?m = "bind_eff (map_err Io syscall) (\<lambda>_.
       bind_eff (of_sum (ok_or (Io not_found_error) (Some c))) (\<lambda>content.
       bind_eff (receive D a False (\<lambda>out. served (copy_file content out))) (\<lambda>r.
         case r of
           None \<Rightarrow> throw (Io (io_other ''a local file is always served''))
         | Some ((tmp, d, n), _) \<Rightarrow>
             bind_eff (index_entry_new d n LocalDisk) (\<lambda>entry.
               publish D a tmp (entry\<lparr>entry_source := Some ''local:import''\<rparr>)))))"
  from run obtain w1 w2 where t: "tree_env w1 = tree_env w" "tree_env w' = tree_env w2"
    and m: "?m w1 = (Inr p, w2)"
    unfolding import_file_def lock_def by (rule with_lock_views)
  from m obtain w3 tmp d n x w4 e w5 where
    sy: "map_err Io syscall w1 = (Inr (), w3)"
    and r: "receive D a False (\<lambda>out. served (copy_file c out)) w3 = (Inr (Some ((tmp, d, n), x)), w4)"
    and e: "(index_entry_new d n LocalDisk :: index_entry action) w4 = (Inr e, w5)"
    and pb: "publish D a tmp (e\<lparr>entry_source := Some ''local:import''\<rparr>) w5 = (Inr p, w2)"
    by (auto elim!: bind_eff_InrE split: option.splits)
  let ?e = "e\<lparr>entry_source := Some ''local:import''\<rparr>"
  have c: "tmp = c" using receive_whole [OF r] .
  have d: "digest ?e = sha256 D c" "entry_bytes ?e = length c"
    using index_entry_new_Inr [OF e] copying.receive_Some(1,2) [OF r] c by auto
  have "tree_env w3 = tree_env w1"
    using sy by (rule sameD [where f = tree_env, rotated]) (intro same.keeps_rules keeps_prims observers)
  moreover have "tree_env w4 = tree_env w3"
    using still_tree_env [OF keepsD [OF copying.receive_still r]] by (simp add: same_def)
  moreover have "tree_env w5 = tree_env w4"
    by (rule sameD [where f = tree_env, OF keeps_index_entry_new e]) (rule observers)
  ultimately have v: "blob_of w5 = blob_of w" using t(1) by (intro tree_env_views(2)) simp
  have "blob_of w2 (sha256 D c) = Some c"
    using publish_stores [OF pb] b d(1) v c by simp
  moreover have "proper_entry D (key a) ?e"
    by (rule proper_entry_sound [OF D d(1)])
  note pub = publish_Inr [OF pb _ _ this]
  ultimately show ?thesis
    using pub d c tree_env_views [OF t(2)] by auto
qed

section \<open>An import succeeds where nothing stands in the way\<close>

lemma reliable_set_node [simp]: "reliable (set_node p x w) = reliable w"
  by (simp add: reliable_def set_node_def)

lemma publish_blob_reliable:
  assumes "reliable w" "sha256 D c = d"
    and "blob_of w d = Some c \<or> blob_of w d = None \<and> room w (blob_path d)"
  shows "\<exists>w'. publish_blob D c d w = (Inr (Some (blob_path d)), w') \<and> reliable w'
     \<and> (\<forall>q. q \<noteq> [] \<longrightarrow> hd q \<noteq> ''blobs'' \<longrightarrow> node_at w' q = node_at w q)"
proof (cases "blob_of w d")
  case (Some b)
  with assms(3) have b: "file_at w (blob_path d) = Some c" by (simp add: blob_of_def)
  have f: "(is_file (blob_path d) :: bool action) w = (Inr True, next_step w)"
    using is_file_sighted [OF reliable_sighted [OF assms(1)], of "blob_path d"] b by simp
  have "digest_file D (Stored (blob_path d)) (next_step w) = (Inr d, next_step (next_step (next_step w)))"
    using digest_file_reliable [of "next_step w" "Stored (blob_path d)" c D] assms(1,2) b by simp
  with f assms(1) show ?thesis by (simp add: publish_blob_def Let_def bind_eff_def map_err_def)
next
  case None
  with assms(3) have "room w (blob_path d)" by simp
  then have room: "room (next_step w) (blob_path d)" by (simp add: room_def)
  have rel: "reliable (next_step w)" using assms(1) by simp
  have ne: "blob_path d \<noteq> []" by (simp add: blob_path_def)
  have f: "(is_file (blob_path d) :: bool action) w = (Inr False, next_step w)"
    using is_file_sighted [OF reliable_sighted [OF assms(1)], of "blob_path d"] None
    by (simp add: blob_of_def)
  obtain w1 where w1: "create_dir_all (butlast (blob_path d)) (next_step w) = (Inr (), w1)" "reliable w1"
    "\<And>q. q \<noteq> blob_path d \<Longrightarrow> (\<And>n. n < length (blob_path d) \<Longrightarrow> q \<noteq> take n (blob_path d)) \<Longrightarrow>
      node_at w1 q = node_at (next_step w) q"
    "node_at w1 (butlast (blob_path d)) = Some Dir" "node_at w1 (blob_path d) \<noteq> Some Dir"
    using place_reliable [OF rel room ne] by metis
  let ?w2 = "set_node (blob_path d) (File c) (next_step (next_step w1))"
  have ps: "persist c (blob_path d) (next_step w1) = (Inr (), ?w2)"
    using persist_reliable [of "next_step w1" "blob_path d" c] w1 by simp
  have r: "reliable ?w2" using w1(2) by simp
  have "node_at ?w2 q = node_at w q" if "q \<noteq> []" "hd q \<noteq> ''blobs''" for q
  proof -
    have "q \<noteq> take n (blob_path d)" for n
      using that by (cases n) (auto simp: blob_path_def)
    moreover from this [of "length (blob_path d)"] have "q \<noteq> blob_path d" by simp
    ultimately show ?thesis using w1(3) [of q] ne by (simp add: node_at_set)
  qed
  with f w1(1,2) ps r show ?thesis
    by (simp add: publish_blob_def Let_def bind_eff_def map_err_def sync_dir_def syscall_reliable)
qed

lemma write_entry_reliable:
  assumes "reliable w" "room w (index_path k)"
  shows "\<exists>w'. write_entry D k e w = (Inr (), w')"
proof -
  have ne: "index_path k \<noteq> []" by (simp add: index_path_def)
  obtain w1 where w1: "create_dir_all (butlast (index_path k)) w = (Inr (), w1)" "reliable w1"
    "node_at w1 (butlast (index_path k)) = Some Dir" "node_at w1 (index_path k) \<noteq> Some Dir"
    by (rule place_reliable [OF assms ne])
  let ?w2 = "next_step (next_step (next_step w1))"
  have "persist (as_bytes (to_json D e)) (index_path k) ?w2
      = (Inr (), set_node (index_path k) (File (as_bytes (to_json D e))) (next_step ?w2))"
    using persist_reliable [of ?w2 "index_path k"] w1 by simp
  moreover have "reliable (set_node (index_path k) x (next_step ?w2))" for x
    using w1(2) by simp
  ultimately show ?thesis using w1(1,2)
    by (simp add: write_entry_def Let_def bind_eff_def map_err_def sync_dir_def syscall_reliable)
qed

text \<open>Publishing a blob does not get in the way of a sidecar.\<close>

lemma room_index:
  assumes q: "\<And>q. q \<noteq> [] \<Longrightarrow> hd q \<noteq> ''blobs'' \<Longrightarrow> node_at w' q = node_at w q"
    and i: "room w (index_path k)"
  shows "room w' (index_path k)"
proof -
  have same_node: "node_at w' (take n (index_path k)) = node_at w (take n (index_path k))" if "0 < n" for n
    using that by (cases n) (auto simp: index_path_def intro: q)
  have "file_at w' (take n (index_path k)) = None" if "n < length (index_path k)" for n
  proof (cases "n = 0")
    case True
    then show ?thesis by (simp add: file_at_def node_at_def)
  next
    case False
    with same_node [of n] i that show ?thesis by (simp add: room_def file_at_def)
  qed
  moreover have "node_at w' (index_path k) \<noteq> Some Dir"
    using same_node [of "length (index_path k)"] i by (simp add: room_def index_path_def)
  ultimately show ?thesis by (simp add: room_def)
qed

lemma publish_reliable:
  assumes w: "reliable w" and a: "admissible D a c" and e: "digest e = sha256 D c" "entry_bytes e = length c"
    and b: "blob_of w (digest e) = Some c \<or> blob_of w (digest e) = None \<and> room w (blob_path (digest e))"
    and i: "room w (index_path (key a))"
  shows "\<exists>w'. publish D a c e w = (Inr (blob_path (digest e)), w')"
proof -
  from validate_complete [OF w _ a, of "Temp c"] obtain w1 where
    v: "validate D a (Temp c) (length c) (sha256 D c) w = (Inr (), w1)" by auto
  have "tree_env w1 = tree_env w"
    by (rule sameD [where f = tree_env, OF keeps_validate v]) (rule observers)
  note t1 = tree_env_views [OF this]
  obtain w2 where w2: "reliable w2" "files w2 = files w1"
    and lk: "\<And>(m :: path action) r w3. m w2 = (r, w3) \<Longrightarrow> with_lock ''.store.lock'' m w1 = (r, release w3)"
    by (rule with_lock_reliable [where 'a = path and n = "''.store.lock''" and w = w1]) (use w t1 in auto)
  have "node_at w2 = node_at w1" "file_at w2 = file_at w1"
    using w2(2) by (simp_all add: node_at_def file_at_def fun_eq_iff)
  then have n2: "node_at w2 = node_at w" "file_at w2 = file_at w" using t1 by simp_all
  have b2: "blob_of w2 (digest e) = Some c
      \<or> blob_of w2 (digest e) = None \<and> room w2 (blob_path (digest e))"
    using b by (simp add: blob_of_def room_def n2)
  from publish_blob_reliable [OF w2(1) e(1) [symmetric] b2] obtain w3 where
    pb: "publish_blob D c (digest e) w2 = (Inr (Some (blob_path (digest e))), w3)" "reliable w3"
    and q: "\<And>q. q \<noteq> [] \<Longrightarrow> hd q \<noteq> ''blobs'' \<Longrightarrow> node_at w3 q = node_at w2 q" by blast
  have "room w3 (index_path (key a))"
    by (rule room_index [OF q]) (use i in \<open>simp_all add: room_def n2\<close>)
  from write_entry_reliable [OF pb(2) this, of D e] obtain w4 where
    "write_entry D (key a) e w3 = (Inr (), w4)" by blast
  with pb(1) have "bind_eff (publish_blob D c (digest e)) (\<lambda>published.
           case published of
             None \<Rightarrow> throw (reject a ''cached blob digest''
               (''an existing blob at '' @ digest e
                @ '' no longer hashes to its address; run verify and remove the keys it reports''))
           | Some p \<Rightarrow> bind_eff (write_entry D (key a) e) (\<lambda>_. ret p)) w2
      = (Inr (blob_path (digest e)), w4)"
    by (simp add: bind_eff_def)
  note run = this
  have v': "validate D a (Temp c) (entry_bytes e) (digest e) w = (Inr (), w1)" using v e by simp
  show ?thesis
    unfolding publish_def store_lock_def bind_eff_Inr [where m = "validate D a (Temp c) (entry_bytes e) (digest e)", OF v']
    by (intro exI) (rule lk, rule run)
qed

lemma import_reliable:
  assumes w: "reliable w" and a: "admissible D a c"
    and b: "blob_of w (sha256 D c) = Some c
      \<or> blob_of w (sha256 D c) = None \<and> room w (blob_path (sha256 D c))"
    and i: "room w (index_path (key a))"
  shows "\<exists>w'. import_file D a (Some c) w = (Inr (blob_path (sha256 D c)), w')"
proof -
  obtain w1 where w1: "reliable w1" "files w1 = files w"
    and lk: "\<And>(m :: path action) r w3. m w1 = (r, w3) \<Longrightarrow> with_lock (lock_name D (key a)) m w = (r, release w3)"
    by (rule with_lock_reliable [where 'a = path and n = "lock_name D (key a)", OF w]) blast
  have sy: "map_err Io syscall w1 = (Inr (), next_step w1)"
    by (simp add: map_err_def syscall_reliable [OF w1(1)])
  have "check_prefix D (art_check a) (take PREFIX_BYTES c) = Inr ()"
    using check_prefix_accepts(1) a by (simp add: admissible_def PREFIX_BYTES_def)
  with receive_copy [of "next_step w1" D a c False] w1(1) obtain w2 where
    r: "receive D a False (\<lambda>out. served (copy_file c out)) (next_step w1)
      = (Inr (Some ((c, sha256 D c, length c), ())), w2)" by auto
  have "tree_env w2 = tree_env (next_step w1)"
    using still_tree_env [OF keepsD [OF copying.receive_still r]] by (simp add: same_def)
  note t2 = tree_env_views [OF this]
  obtain e w3 where e: "(index_entry_new (sha256 D c) (length c) LocalDisk :: index_entry action) w2 = (Inr e, w3)"
    by (simp add: index_entry_new_def now_unix_def bind_eff_def split: prod.splits)
  have "tree_env w3 = tree_env w2"
    by (rule sameD [where f = tree_env, OF keeps_index_entry_new e]) (rule observers)
  note t3 = tree_env_views [OF this]
  have "node_at w1 = node_at w" "file_at w1 = file_at w"
    using w1(2) by (simp_all add: node_at_def file_at_def fun_eq_iff)
  with t2 t3 have n: "node_at w3 = node_at w" "file_at w3 = file_at w" "reliable w3"
    using w1(1) by (simp_all add: fun_eq_iff)
  let ?e = "e\<lparr>entry_source := Some ''local:import''\<rparr>"
  have d: "digest ?e = sha256 D c" "entry_bytes ?e = length c" using index_entry_new_Inr [OF e] by auto
  have "\<exists>w'. publish D a c ?e w3 = (Inr (blob_path (digest ?e)), w')"
    by (rule publish_reliable [OF n(3) a d]) (use b i in \<open>simp_all add: d room_def n blob_of_def\<close>)
  then obtain w4 where pb: "publish D a c ?e w3 = (Inr (blob_path (sha256 D c)), w4)" using d(1) by auto
  have "bind_eff (map_err Io syscall) (\<lambda>_.
       bind_eff (of_sum (ok_or (Io not_found_error) (Some c))) (\<lambda>content.
       bind_eff (receive D a False (\<lambda>out. served (copy_file content out))) (\<lambda>r.
         case r of
           None \<Rightarrow> throw (Io (io_other ''a local file is always served''))
         | Some ((tmp, d, n), _) \<Rightarrow>
             bind_eff (index_entry_new d n LocalDisk) (\<lambda>entry.
               publish D a tmp (entry\<lparr>entry_source := Some ''local:import''\<rparr>))))) w1
    = (Inr (blob_path (sha256 D c)), w4)"
    using sy r e pb by (simp add: bind_eff_def)
  note run = this
  show ?thesis unfolding import_file_def lock_def by (intro exI) (rule lk, rule run)
qed

end
