(* ===== verification/Upkeep_Properties.thy ===== *)
theory Upkeep_Properties
  imports Store_Properties Importing
begin

text \<open>
  What the store promises about its upkeep: importing, verifying and removing, and what the content
  checks mean that decide about them.
\<close>

section \<open>Importing\<close>

text \<open>C7: an import that succeeds has stored exactly the file it was given, which satisfies the
  size, pins and check of the artifact (unless other content with the same digest was there), and
  whenever the files are still the same and the machine works, \<open>get\<close> answers with that file from the
  local layer, leaves the files alone and sends nothing.  And an import of admissible content does
  succeed on a machine that works, when no file stands where the directories of the blob or of the
  sidecar must be and no directory at their names.\<close>

theorem imports_are_served_locally:
  assumes "sound_crates D" "valid_key (key a)"
    and "blob_of w (sha256 D c) = None \<or> blob_of w (sha256 D c) = Some c"
  shows "(import_file D a (Some c) w = (Inr p, w1) \<and> files v = files w1 \<and> reliable v
      \<longrightarrow> file_at v p = Some c \<and> admissible D a c
        \<and> fst (get_with_outcome D ds a v) = Inr (p, outcome LocalDisk (length c) None)
        \<and> files (snd (get_with_outcome D ds a v)) = files v
        \<and> sent (snd (get_with_outcome D ds a v)) = sent v)
    \<and> (reliable w \<and> admissible D a c \<and> room w (index_path (key a)) \<and> room w (blob_path (sha256 D c))
      \<longrightarrow> fst (import_file D a (Some c) w) = Inr (blob_path (sha256 D c)))"
proof (intro conjI [of "_ \<longrightarrow> _"] impI)
  assume run: "import_file D a (Some c) w = (Inr p, w1) \<and> files v = files w1 \<and> reliable v"
  from import_Inr [OF conjunct1 [OF run] assms] obtain e where
    e: "entry_of D w1 (key a) = Some e" "digest e = sha256 D c" "entry_bytes e = length c"
    "blob_of w1 (digest e) = Some c" "admissible D a c" "p = blob_path (digest e)" by blast
  have v: "entry_of D v = entry_of D w1" "blob_of v = blob_of w1"
    using run
    by (simp_all add: fun_eq_iff entry_of_def entry_text_def blob_of_def file_at_def node_at_def)
  have "entry_of D v (key a) = Some e" "blob_of v (digest e) = Some c" using e v by simp_all
  from get_hit [OF _ this e(2) [symmetric] e(3) [symmetric] e(5), of ds] run obtain v' where
    "get_with_budget D ds a False v
      = (Inr (blob_path (digest e), outcome LocalDisk (entry_bytes e) None), v')"
    "files v' = files v" "sent v' = sent v" by blast
  moreover have "file_at v p = Some c"
    using \<open>blob_of v (digest e) = Some c\<close> e(6) by (simp add: blob_of_def)
  ultimately show "file_at v p = Some c \<and> admissible D a c
      \<and> fst (get_with_outcome D ds a v) = Inr (p, outcome LocalDisk (length c) None)
      \<and> files (snd (get_with_outcome D ds a v)) = files v
      \<and> sent (snd (get_with_outcome D ds a v)) = sent v"
    using e by (simp add: get_with_outcome_def)
next
  assume "reliable w \<and> admissible D a c \<and> room w (index_path (key a)) \<and> room w (blob_path (sha256 D c))"
  with import_reliable [of w D a c] assms(3)
  show "fst (import_file D a (Some c) w) = Inr (blob_path (sha256 D c))" by auto
qed

lemma demo_room: "room demo_world p" if "node_at demo_world p \<noteq> Some Dir"
  using that by (simp add: room_def demo_no_files)

lemma demo_admissible: "admissible demo demo_artifact [1, 2, 3]"
  by code_simp

lemma imports_are_served_locally_witness:
  "\<exists>v. fst (get_with_outcome demo demo_store demo_artifact v)
     = Inr (blob_path (demo_sha [1, 2, 3]), outcome LocalDisk 3 None)"
proof -
  let ?c = "[1, 2, 3 :: 8 word]"
  let ?v = "\<lambda>w1. demo_world\<lparr>files := files w1\<rparr>"
  have sha: "sha256 demo = demo_sha" by (simp add: demo_def)
  have free: "blob_of demo_world d = None" for d by (simp add: blob_of_def demo_no_files)
  note both = imports_are_served_locally [of demo demo_artifact demo_world ?c, OF demo_sound demo_key]
  have "node_at demo_world (index_path (key demo_artifact)) \<noteq> Some Dir"
    "node_at demo_world (blob_path (sha256 demo ?c)) \<noteq> Some Dir"
    by (simp_all add: node_at_def demo_world_def index_path_def blob_path_def)
  then have "fst (import_file demo demo_artifact (Some ?c) demo_world) = Inr (blob_path (sha256 demo ?c))"
    using both free demo_reliable demo_admissible demo_room by blast
  then obtain w1 where run: "import_file demo demo_artifact (Some ?c) demo_world
      = (Inr (blob_path (sha256 demo ?c)), w1)"
    by (cases "import_file demo demo_artifact (Some ?c) demo_world") auto
  have "reliable (?v w1)" using demo_reliable by (simp add: reliable_def)
  with both [of "blob_path (sha256 demo ?c)" w1 "?v w1" demo_store] free run
  have "fst (get_with_outcome demo demo_store demo_artifact (?v w1))
     = Inr (blob_path (sha256 demo ?c), outcome LocalDisk (length ?c) None)" by simp
  moreover have "length ?c = 3" by simp
  ultimately show ?thesis unfolding sha by metis
qed

section \<open>Verification\<close>

text \<open>C8: on a machine that answers what it is asked, \<open>verify\<close> names exactly the keys whose blob is
  gone, does not hash to the digest recorded or has another size, and changes no file.\<close>

theorem verify_names_exactly_the_damage:
  assumes "verify D w = (Inr fs, w')" "clear w"
  shows "(\<forall>k. (\<exists>f \<in> set fs. vf_key f = k)
       = (\<exists>e. entry_of D w k = Some e
           \<and> \<not> (\<exists>c. blob_of w (digest e) = Some c \<and> sha256 D c = digest e \<and> length c = entry_bytes e)))
    \<and> files w' = files w"
proof -
  have "files w' = files w"
    by (rule sameD [where f = files, OF keeps_verify assms(1)]) (rule observers)
  with verify_iff [OF assms(2,1)] show ?thesis unfolding entry_intact_def by simp
qed

text \<open>A file is imported and its blob then disappears.\<close>

definition demo_imported :: world where
  "demo_imported = snd (import_file demo demo_artifact (Some [1, 2, 3]) demo_world)"

definition demo_damaged :: world where
  "demo_damaged = snd (remove_blob (demo_sha [1, 2, 3]) demo_imported)"

lemma demo_imported_ok: "clear demo_imported \<and> backed demo demo_imported"
proof -
  have "safe demo demo_world demo_imported"
    unfolding demo_imported_def by (rule safe.keeps_end) (rule safe.keeps_import [OF demo_key])
  then show ?thesis
    using refines_backed [OF _ demo_clear demo_backed] demo_sound by (simp add: safe_def)
qed

lemma demo_damaged_clear: "clear demo_damaged"
  using index.drop_blob_wf [OF _ surjective_pairing] demo_imported_ok unfolding demo_damaged_def by blast

lemma demo_verify: "fst (verify demo demo_damaged)
    = Inr [\<lparr>vf_key = key demo_artifact, vf_expected = demo_sha [1, 2, 3], vf_actual = None,
            vf_reason = ''blob '' @ demo_sha [1, 2, 3] @ '' is missing''\<rparr>]"
  by code_simp

lemma verify_names_exactly_the_damage_witness:
  "\<exists>e. entry_of demo demo_damaged (key demo_artifact) = Some e
     \<and> (\<forall>c. blob_of demo_damaged (digest e) = Some c \<longrightarrow> demo_sha c = digest e \<longrightarrow> length c \<noteq> entry_bytes e)"
proof -
  from demo_verify obtain w' where "verify demo demo_damaged
      = (Inr [\<lparr>vf_key = key demo_artifact, vf_expected = demo_sha [1, 2, 3], vf_actual = None,
            vf_reason = ''blob '' @ demo_sha [1, 2, 3] @ '' is missing''\<rparr>], w')"
    by (cases "verify demo demo_damaged") auto
  from spec [OF conjunct1 [OF verify_names_exactly_the_damage [OF this demo_damaged_clear]],
      of "key demo_artifact"]
  have "\<exists>e. entry_of demo demo_damaged (key demo_artifact) = Some e
     \<and> \<not> (\<exists>c. blob_of demo_damaged (digest e) = Some c \<and> sha256 demo c = digest e \<and> length c = entry_bytes e)"
    by simp
  moreover have "sha256 demo = demo_sha" by (simp add: demo_def)
  ultimately show ?thesis by metis
qed

section \<open>Removal\<close>

text \<open>C9: a removal that succeeds forgets exactly the key; its blob goes if and only if no other key
  refers to it, and every other blob stays as it is.\<close>

theorem remove_forgets_exactly_one_key:
  assumes "remove D k w = (Inr (), w')" "clear w" "valid_key k"
  shows "entry_of D w' = (entry_of D w)(k := None)
    \<and> blob_of w' d = (if (\<exists>e. entry_of D w k = Some e \<and> digest e = d)
          \<and> \<not> (\<exists>j e. j \<noteq> k \<and> entry_of D w j = Some e \<and> digest e = d)
        then None else blob_of w d)"
  using remove_Inr [OF assms] by (auto simp: shared_def split: option.splits if_splits)

lemma demo_remove: "fst (remove demo (key demo_artifact) demo_imported) = Inr ()"
  by code_simp

lemma remove_forgets_exactly_one_key_witness:
  "entry_of demo (snd (remove demo (key demo_artifact) demo_imported)) (key demo_artifact) = None"
proof -
  from demo_remove have "remove demo (key demo_artifact) demo_imported
      = (Inr (), snd (remove demo (key demo_artifact) demo_imported))" by (simp add: prod_eq_iff)
  from remove_forgets_exactly_one_key [OF this conjunct1 [OF demo_imported_ok] demo_key] show ?thesis
    by simp
qed

section \<open>What can go wrong\<close>

text \<open>
  The properties above need their hypotheses.  The sidecar of \<open>k.json/b\<close> lies in a directory that has
  the name of the sidecar of \<open>k\<close>, so the two keys exclude each other; and a collection during which the
  system does not answer one question (whether the index is a directory) takes every blob for
  unreferenced.
\<close>

lemma keys_may_exclude_each_other:
  "is_ok (fst (import_file demo (demo_artifact\<lparr>key := ArtifactKey ''k.json/b''\<rparr>) (Some [1, 2, 3]) demo_world))"
  "\<not> is_ok (fst (import_file demo (demo_artifact\<lparr>key := ArtifactKey ''k.json/b''\<rparr>) (Some [1, 2, 3]) demo_imported))"
  by code_simp+

lemma unseen_index_loses_blobs:
  "(case gc demo 100 (demo_imported\<lparr>blind := (\<lambda>n. n = steps demo_imported + 2)\<rparr>) of (r, w) \<Rightarrow>
     is_ok r \<and> entry_of demo w (key demo_artifact) \<noteq> None \<and> blob_of w (demo_sha [1, 2, 3]) = None)"
  by code_simp

section \<open>Content checks\<close>

text \<open>C10: checking content through the buffered reader decides exactly what the check says of the
  whole content; and the check of the first 8192 bytes, made while the content still arrives, never
  rejects content that the full check accepts.\<close>

theorem checks_mean_what_they_say:
  "is_ok (check D c content) = accepts D c content
   \<and> (accepts D c content \<longrightarrow> check_prefix D c (take 8192 content) = Inr ())"
  by (simp add: check_iff check_prefix_accepts)

lemma demo_check: "accepts demo (All_of [MinBytes 2, NotHtml]) [1, 2, 3]"
  by code_simp

lemma checks_mean_what_they_say_witness:
  "check_prefix demo (All_of [MinBytes 2, NotHtml]) (take 8192 [1, 2, 3]) = Inr ()"
  using checks_mean_what_they_say [of demo "All_of [MinBytes 2, NotHtml]" "[1, 2, 3]"] demo_check
  by blast

end
