(* ===== verification/Manifest.thy ===== *)
theory Manifest
  imports Artifact
begin

text \<open>
  \<open>src/manifest.rs\<close>: documents that declare artifacts.  TOML text is read and written by the
  \<open>toml\<close> crate (with the serde-derived code of the document structs), a parameter: \<open>toml_from_str\<close>
  gives the document or the position where the text is wrong, \<open>toml_to_string_pretty\<close> the text or
  an error.  Everything after the text is a document is modelled: \<open>parse_check\<close> and \<open>encode_check\<close>
  on TOML values, the reading, writing, merging and pinning of manifests.
\<close>

section \<open>Documents\<close>

text \<open>A table is a \<open>BTreeMap\<close>: an association list in the order of its keys.\<close>

datatype toml_value =
    T_string string
  | T_integer int
  | T_float string
  | T_boolean bool
  | T_datetime string
  | T_array "toml_value list"
  | T_table "(string \<times> toml_value) list"

datatype source_entry = Url string | Detailed string bool

record manifest_entry =
  me_key :: string
  me_sources :: "source_entry list"
  me_sha256 :: "string option"
  me_bytes :: "u64 option"
  me_freshness :: string
  me_check :: "toml_value option"
  me_description :: string
  me_license :: string
  me_citation :: "string option"

record toml_crate =
  toml_from_str :: "string \<Rightarrow> nat option + manifest_entry list"
  toml_to_string_pretty :: "manifest_entry list \<Rightarrow> string option"

type_synonym manifest = "artifact list"

definition immutable :: string where
  "immutable = ''immutable''"

definition invalid :: "string \<Rightarrow> datastore_error" where
  "invalid message = Manifest_error message"

definition i64_max :: int where
  "i64_max = 2 ^ 63 - 1"

section \<open>Pins and URLs\<close>

fun ensure_compatible_pin :: "content_check \<Rightarrow> string \<Rightarrow> datastore_error + unit"
  and ensure_compatible_pins :: "content_check list \<Rightarrow> string \<Rightarrow> datastore_error + unit"
where
  "ensure_compatible_pin (Sha256 existing) d =
     (if existing \<noteq> d then Inl (invalid ''refusing to replace an existing digest pin'') else Inr ())"
| "ensure_compatible_pin (All_of checks) d = ensure_compatible_pins checks d"
| "ensure_compatible_pin _ d = Inr ()"
| "ensure_compatible_pins [] d = Inr ()"
| "ensure_compatible_pins (c # cs) d =
     bind_sum (ensure_compatible_pin c d) (\<lambda>_. ensure_compatible_pins cs d)"

fun split_pin :: "content_check \<Rightarrow> string option \<times> content_check" where
  "split_pin (Sha256 d) = (Some d, No_check)"
| "split_pin (All_of (Sha256 d # rest)) =
     (Some d, (case rest of [c] \<Rightarrow> c | _ \<Rightarrow> All_of rest))"
| "split_pin c = (None, c)"

definition validate_url :: "crates \<Rightarrow> string \<Rightarrow> datastore_error + unit" where
  "validate_url D raw =
     (case url_parse D raw of
        Inl _ \<Rightarrow> Inl (invalid ''invalid source URL'')
      | Inr u \<Rightarrow>
          if \<not> (scheme u = ''http'' \<or> scheme u = ''https'') \<or> host u = None
             \<or> username u \<noteq> [] \<or> password u \<noteq> None
          then Inl (invalid ''source must be HTTP(S) without embedded credentials'')
          else Inr ())"

definition validate_digest :: "string \<Rightarrow> datastore_error + unit" where
  "validate_digest d =
     (if length d \<noteq> 64 \<or> \<not> list_all hex_digit d
      then Inl (invalid ''sha256 must be 64 lowercase hexadecimal characters'') else Inr ())"

section \<open>Checks as TOML values\<close>

definition parse_prefix :: "toml_value \<Rightarrow> datastore_error + bytes" where
  "parse_prefix p =
     (case p of
        T_string s \<Rightarrow> Inr (as_bytes s)
      | T_array bs \<Rightarrow>
          traverse (\<lambda>b. case b of
              T_integer n \<Rightarrow>
                if 0 \<le> n \<and> n < 256 then Inr (of_nat (nat n))
                else Inl (invalid ''magic byte out of range'')
            | _ \<Rightarrow> Inl (invalid ''magic byte out of range'')) bs
      | _ \<Rightarrow> Inl (invalid ''magic prefix must be text or a byte array''))"

definition parse_magic :: "(string \<times> toml_value) list \<Rightarrow> datastore_error + content_check" where
  "parse_magic t =
     (if list_ex (\<lambda>(k, _). k \<noteq> ''magic'' \<and> k \<noteq> ''trim_leading_whitespace'') t
      then Inl (invalid ''unknown magic-check field'')
      else
        bind_sum (case map_of t ''magic'' of
            Some (T_array ps) \<Rightarrow> traverse parse_prefix ps
          | _ \<Rightarrow> Inl (invalid ''magic must be an array'')) (\<lambda>sigs.
        if sigs = [] \<or> list_ex (\<lambda>p. p = []) sigs
        then Inl (invalid ''magic requires nonempty prefixes'')
        else
          bind_sum (case map_of t ''trim_leading_whitespace'' of
              None \<Rightarrow> Inr False
            | Some (T_boolean b) \<Rightarrow> Inr b
            | Some _ \<Rightarrow> Inl (invalid ''trim_leading_whitespace must be boolean'')) (\<lambda>trim.
          Inr (Magic sigs trim))))"

definition bad_variant :: "datastore_error + content_check" where
  "bad_variant = Inl (invalid
     ''unknown or invalid declarative check; custom predicates cannot appear in manifests'')"

definition parse_variant :: "string \<Rightarrow> toml_value \<Rightarrow> datastore_error + content_check" where
  "parse_variant name value =
     (if name = ''none'' \<and> value = T_boolean True then Inr No_check
      else if name = ''not_html'' \<and> value = T_boolean True then Inr NotHtml
      else if name = ''sha256'' then
        (case value of
           T_string d \<Rightarrow> bind_sum (validate_digest d) (\<lambda>_. Inr (Sha256 d))
         | _ \<Rightarrow> Inl (invalid ''sha256 must be text''))
      else if name = ''min_bytes'' then
        (case value of
           T_integer n \<Rightarrow>
             if 0 \<le> n then Inr (MinBytes (nat n)) else Inl (invalid ''min_bytes must be nonnegative'')
         | _ \<Rightarrow> Inl (invalid ''min_bytes must be nonnegative''))
      else bad_variant)"

fun parse_check :: "toml_value \<Rightarrow> nat \<Rightarrow> datastore_error + content_check"
  and parse_checks :: "toml_value list \<Rightarrow> nat \<Rightarrow> datastore_error + content_check list"
where
  "parse_check v depth =
     (if 32 < depth then Inl (invalid ''checks are nested too deeply'')
      else case v of
        T_string s \<Rightarrow>
          if s = ''none'' then Inr No_check
          else if s = ''not-html'' then Inr NotHtml
          else Inl (invalid ''unknown check'')
      | T_table t \<Rightarrow>
          if map_of t ''magic'' \<noteq> None then parse_magic t
          else (case t of
            [(name, value)] \<Rightarrow>
              if name = ''all''
              then (case value of
                  T_array vs \<Rightarrow> bind_sum (parse_checks vs (Suc depth)) (\<lambda>cs. Inr (All_of cs))
                | _ \<Rightarrow> Inl (invalid ''all must be an array''))
              else parse_variant name value
          | _ \<Rightarrow> Inl (invalid ''a check must contain exactly one variant''))
      | _ \<Rightarrow> Inl (invalid ''check must be a table or named check''))"
| "parse_checks [] depth = Inr []"
| "parse_checks (v # vs) depth =
     bind_sum (parse_check v depth) (\<lambda>c. bind_sum (parse_checks vs depth) (\<lambda>cs. Inr (c # cs)))"

definition encode_prefix :: "bytes \<Rightarrow> toml_value" where
  "encode_prefix p =
     (case from_utf8 p of
        Some s \<Rightarrow> T_string s
      | None \<Rightarrow> T_array (map (\<lambda>b. T_integer (uint b)) p))"

fun encode_check :: "content_check \<Rightarrow> datastore_error + toml_value"
  and encode_checks :: "content_check list \<Rightarrow> datastore_error + toml_value list"
where
  "encode_check No_check = Inr (T_table [(''none'', T_boolean True)])"
| "encode_check NotHtml = Inr (T_table [(''not_html'', T_boolean True)])"
| "encode_check (MinBytes n) =
     (if int n \<le> i64_max then Inr (T_table [(''min_bytes'', T_integer (int n))])
      else Inl (invalid ''min_bytes exceeds TOML integer range''))"
| "encode_check (Sha256 d) =
     bind_sum (validate_digest d) (\<lambda>_. Inr (T_table [(''sha256'', T_string d)]))"
| "encode_check (All_of checks) =
     bind_sum (encode_checks checks) (\<lambda>vs. Inr (T_table [(''all'', T_array vs)]))"
| "encode_check (Magic sigs trim) =
     (if sigs = [] \<or> list_ex (\<lambda>p. p = []) sigs
      then Inl (invalid ''magic requires nonempty prefixes'')
      else Inr (T_table [(''magic'', T_array (map encode_prefix sigs)),
                         (''trim_leading_whitespace'', T_boolean trim)]))"
| "encode_check (Custom _) = Inl (invalid ''custom predicates cannot appear in manifests'')"
| "encode_checks [] = Inr []"
| "encode_checks (c # cs) =
     bind_sum (encode_check c) (\<lambda>v. bind_sum (encode_checks cs) (\<lambda>vs. Inr (v # vs)))"

section \<open>Reading and writing\<close>

text \<open>Line and column of a parse error; the text itself is never echoed.\<close>

definition parse_error :: "string \<Rightarrow> nat option \<Rightarrow> datastore_error" where
  "parse_error s span =
     (let offset = min (case span of None \<Rightarrow> 0 | Some n \<Rightarrow> n) (length s);
          before = take offset s;
          line = length (filter (\<lambda>b. b = CHR 0x0A) before) + 1;
          tail = takeWhile (\<lambda>b. b \<noteq> CHR 0x0A) (rev before);
          column = (if CHR 0x0A \<in> set before
                    then offset - (length before - length tail - 1) else offset + 1)
      in invalid (''invalid TOML or unknown field at line '' @ decimal line
           @ '', column '' @ decimal column))"

definition in_artifact :: "artifact_key \<Rightarrow> datastore_error \<Rightarrow> datastore_error" where
  "in_artifact k e = invalid (''artifact '' @ as_str k @ '': '' @ show_error e)"

fun read_source :: "source_entry \<Rightarrow> source" where
  "read_source (Url u) = source_new u"
| "read_source (Detailed u trust) = \<lparr>url = u, trust_redirects = trust\<rparr>"

text \<open>One entry of the document, given the keys before it.\<close>

definition read_manifest_entry ::
    "crates \<Rightarrow> artifact_key set \<Rightarrow> manifest_entry \<Rightarrow> datastore_error + artifact" where
  "read_manifest_entry D seen e =
     bind_sum (artifact_key_new (me_key e)) (\<lambda>k.
     if k \<in> seen then Inl (invalid (''duplicate artifact key '' @ as_str k))
     else if me_freshness e \<noteq> ''immutable''
     then Inl (invalid ''only immutable freshness is supported'')
     else
       bind_sum (traverse (\<lambda>s. let src = read_source s in
           bind_sum (map_error (in_artifact k) (validate_url D (url src))) (\<lambda>_. Inr src))
         (me_sources e)) (\<lambda>srcs.
       bind_sum (case me_check e of
           None \<Rightarrow> Inr default_binary
         | Some v \<Rightarrow> map_error (in_artifact k) (parse_check v 0)) (\<lambda>c.
       bind_sum (case me_sha256 e of
           None \<Rightarrow> Inr c
         | Some d \<Rightarrow> bind_sum (validate_digest d) (\<lambda>_. Inr (All_of [Sha256 d, c]))) (\<lambda>c.
       Inr \<lparr>key = k, sources = srcs, art_check = c, art_freshness = Immutable,
            art_provenance = \<lparr>description = me_description e, license = me_license e,
                              citation = me_citation e\<rparr>,
            expected_bytes = me_bytes e\<rparr>))))"

fun read_entries ::
    "crates \<Rightarrow> artifact_key set \<Rightarrow> manifest_entry list \<Rightarrow> datastore_error + manifest" where
  "read_entries D seen [] = Inr []"
| "read_entries D seen (e # es) =
     bind_sum (read_manifest_entry D seen e) (\<lambda>a.
     bind_sum (read_entries D (insert (key a) seen) es) (\<lambda>m. Inr (a # m)))"

definition from_toml_str :: "crates \<Rightarrow> toml_crate \<Rightarrow> string \<Rightarrow> datastore_error + manifest" where
  "from_toml_str D T s =
     bind_sum (map_error (parse_error s) (toml_from_str T s)) (read_entries D {})"

text \<open>From a file named \<open>p\<close>, given what reading it as text yields.\<close>

definition from_path ::
    "crates \<Rightarrow> toml_crate \<Rightarrow> string \<Rightarrow> io_error + string \<Rightarrow> datastore_error + manifest" where
  "from_path D T p r =
     bind_sum (map_error Io r) (\<lambda>s.
       map_error (\<lambda>e. invalid (p @ '': '' @ show_error e)) (from_toml_str D T s))"

definition write_source :: "source \<Rightarrow> source_entry" where
  "write_source s = (if trust_redirects s then Detailed (url s) True else Url (url s))"

definition write_manifest_entry ::
    "crates \<Rightarrow> artifact_key set \<Rightarrow> artifact \<Rightarrow> datastore_error + manifest_entry" where
  "write_manifest_entry D seen a =
     (if key a \<in> seen then Inl (invalid ''duplicate artifact key'')
      else case split_pin (art_check a) of (pin, c) \<Rightarrow>
        bind_sum (case pin of None \<Rightarrow> Inr () | Some d \<Rightarrow> validate_digest d) (\<lambda>_.
        bind_sum (traverse (\<lambda>s. bind_sum (validate_url D (url s)) (\<lambda>_. Inr (write_source s)))
            (sources a)) (\<lambda>srcs.
        bind_sum (encode_check c) (\<lambda>v.
        Inr \<lparr>me_key = as_str (key a), me_sources = srcs, me_sha256 = pin,
             me_bytes = expected_bytes a, me_freshness = immutable, me_check = Some v,
             me_description = description (art_provenance a),
             me_license = license (art_provenance a),
             me_citation = citation (art_provenance a)\<rparr>))))"

fun write_entries ::
    "crates \<Rightarrow> artifact_key set \<Rightarrow> manifest \<Rightarrow> datastore_error + manifest_entry list" where
  "write_entries D seen [] = Inr []"
| "write_entries D seen (a # m) =
     bind_sum (write_manifest_entry D seen a) (\<lambda>e.
     bind_sum (write_entries D (insert (key a) seen) m) (\<lambda>es. Inr (e # es)))"

definition to_toml_string :: "crates \<Rightarrow> toml_crate \<Rightarrow> manifest \<Rightarrow> datastore_error + string" where
  "to_toml_string D T m =
     bind_sum (write_entries D {} m) (\<lambda>es.
       ok_or (invalid ''cannot encode manifest'') (toml_to_string_pretty T es))"

section \<open>Lookup, merge and pin\<close>

definition manifest_get :: "manifest \<Rightarrow> artifact_key \<Rightarrow> artifact option" where
  "manifest_get m k = find (\<lambda>a. key a = k) m"

text \<open>In place of the first artifact with its key, or at the end.\<close>

fun put_artifact :: "artifact \<Rightarrow> manifest \<Rightarrow> manifest" where
  "put_artifact a [] = [a]"
| "put_artifact a (b # m) = (if key b = key a then a # m else b # put_artifact a m)"

fun merge :: "manifest \<Rightarrow> manifest \<Rightarrow> manifest" where
  "merge m [] = m"
| "merge m (a # other) = merge (put_artifact a m) other"

definition pin_sha256 :: "manifest \<Rightarrow> artifact_key \<Rightarrow> string \<Rightarrow> datastore_error + manifest" where
  "pin_sha256 m k d =
     bind_sum (validate_digest d) (\<lambda>_.
     bind_sum (ok_or (invalid (''cannot pin unknown key '' @ as_str k)) (manifest_get m k)) (\<lambda>a.
     bind_sum (ensure_compatible_pin (art_check a) d) (\<lambda>_.
     case split_pin (art_check a) of (pin, c) \<Rightarrow>
       if pin = Some d then Inr m
       else Inr (put_artifact (a\<lparr>art_check := All_of [Sha256 d, c]\<rparr>) m))))"

section \<open>Checks round-trip\<close>

lemma validate_digest_Inr [simp]: "validate_digest d = Inr u \<longleftrightarrow> is_digest d"
  by (simp add: validate_digest_def is_digest_def)

lemma validate_digest_ok: "is_digest d \<Longrightarrow> validate_digest d = Inr ()"
  by simp

text \<open>A check a document can hold, nested at most \<open>n\<close> levels deep.\<close>

fun declarative :: "nat \<Rightarrow> content_check \<Rightarrow> bool" where
  "declarative 0 (All_of cs) = (cs = [])"
| "declarative (Suc n) (All_of cs) = list_all (declarative n) cs"
| "declarative n (Custom _) = False"
| "declarative n (MinBytes k) = (int k \<le> i64_max)"
| "declarative n (Sha256 d) = is_digest d"
| "declarative n (Magic sigs _) = (sigs \<noteq> [] \<and> [] \<notin> set sigs)"
| "declarative n _ = True"

text \<open>A value of a document: integers are 64-bit, tables are ordered, nesting is bounded.\<close>

fun value_ok :: "nat \<Rightarrow> toml_value \<Rightarrow> bool" where
  "value_ok n (T_integer i) = (- i64_max - 1 \<le> i \<and> i \<le> i64_max)"
| "value_ok 0 (T_array vs) = False"
| "value_ok (Suc n) (T_array vs) = list_all (value_ok n) vs"
| "value_ok 0 (T_table t) = False"
| "value_ok (Suc n) (T_table t) =
     (sorted_wrt (<) (map fst t) \<and> list_all (\<lambda>(k, v). value_ok n v) t)"
| "value_ok n _ = True"

lemma value_ok_mono: "value_ok n v \<Longrightarrow> n \<le> m \<Longrightarrow> value_ok m v"
proof (induction n v arbitrary: m rule: value_ok.induct)
  case (3 n vs)
  then show ?case by (cases m) (auto simp: list_all_iff)
next
  case (5 n t)
  then show ?case by (cases m) (fastforce simp: list_all_iff)+
qed auto

lemma traverse_bytes:
  "traverse (\<lambda>b. case b of T_integer n \<Rightarrow>
       if 0 \<le> n \<and> n < 256 then Inr (of_nat (nat n)) else Inl e | _ \<Rightarrow> Inl e)
     (map (\<lambda>b :: byte. T_integer (uint b)) p) = Inr p"
proof -
  have "0 \<le> uint b \<and> uint b < 256" for b :: byte using uint_bounded [of b] by simp
  then have "traverse (\<lambda>b. case b of T_integer n \<Rightarrow>
       if 0 \<le> n \<and> n < 256 then Inr (of_nat (nat n)) else Inl e | _ \<Rightarrow> Inl e)
     (map (\<lambda>b :: byte. T_integer (uint b)) p) = Inr (map id p)"
    by (intro traverse_map) simp
  then show ?thesis by simp
qed

lemma parse_encode_prefix [simp]: "parse_prefix (encode_prefix p) = Inr p"
proof (cases "from_utf8 p")
  case None
  then show ?thesis by (simp add: encode_prefix_def parse_prefix_def traverse_bytes)
next
  case (Some s)
  then show ?thesis by (auto simp: encode_prefix_def parse_prefix_def dest: from_utf8_Some [THEN iffD1])
qed

lemma encode_prefix_ok: "value_ok (Suc n) (encode_prefix p)"
proof -
  have "- i64_max - 1 \<le> uint b \<and> uint b \<le> i64_max" for b :: byte
  proof -
    have "0 \<le> uint b" "uint b < 256" using uint_bounded [of b] by simp_all
    then show ?thesis by (auto simp: i64_max_def intro: order_trans [of _ 0])
  qed
  then show ?thesis
    by (cases "from_utf8 p") (simp_all add: encode_prefix_def list_all_iff)
qed

lemmas parse_check_unfold = parse_check.simps

declare parse_check.simps [simp del]

lemma parse_named_variant:
  assumes "d \<le> 32" "name \<noteq> ''magic''" "name \<noteq> ''all''"
  shows "parse_check (T_table [(name, value)]) d = parse_variant name value"
  using assms by (simp add: parse_check_unfold)

lemma parse_all:
  assumes "d \<le> 32"
  shows "parse_check (T_table [(''all'', T_array vs)]) d
    = bind_sum (parse_checks vs (Suc d)) (\<lambda>cs. Inr (All_of cs))"
  using assms by (simp add: parse_check_unfold)

lemma parse_magic_table:
  assumes "d \<le> 32"
  shows "parse_check (T_table ((''magic'', v) # t)) d = parse_magic ((''magic'', v) # t)"
  using assms by (simp add: parse_check_unfold)

lemma three_more: "2 * n + 3 = Suc (2 * n + 2)" "2 * n + 2 = Suc (2 * n + 1)"
  by simp_all

lemmas parse_tables = three_more validate_digest_ok parse_named_variant parse_all parse_magic_table

lemma encode_check_declarative:
  "declarative n c \<Longrightarrow> \<exists>v. encode_check c = Inr v \<and> value_ok (2 * n + 3) v
     \<and> (\<forall>d. d + n \<le> 32 \<longrightarrow> parse_check v d = Inr c)"
  "list_all (declarative n) cs \<Longrightarrow> \<exists>vs. encode_checks cs = Inr vs \<and> list_all (value_ok (2 * n + 3)) vs
     \<and> (\<forall>d. d + n \<le> 32 \<longrightarrow> parse_checks vs d = Inr cs)"
proof (induction c and cs arbitrary: n and n rule: encode_check_encode_checks.induct)
  case (4 d)
  then show ?case by (auto simp: parse_tables parse_variant_def)
next
  case (5 cs)
  show ?case
  proof (cases n)
    case 0
    with 5 show ?thesis by (auto simp: parse_tables numeral_3_eq_3)
  next
    case (Suc m)
    with "5.prems" have "list_all (declarative m) cs" by simp
    from "5.IH" [OF this] obtain vs where vs: "encode_checks cs = Inr vs"
      "list_all (value_ok (2 * m + 3)) vs" "\<forall>d. d + m \<le> 32 \<longrightarrow> parse_checks vs d = Inr cs" by blast
    have "2 * n + 3 = Suc (Suc (2 * m + 3))" using Suc by simp
    with vs Suc show ?thesis by (auto simp: parse_tables)
  qed
next
  case (6 sigs trim)
  have "traverse parse_prefix (map encode_prefix sigs) = Inr (map id sigs)"
    by (rule traverse_map) simp
  moreover have "2 * n + 3 = Suc (Suc (Suc (2 * n)))" by simp
  moreover have "''magic'' < (''trim_leading_whitespace'' :: string)"
    by (simp add: less_char_def)
  ultimately show ?case
    using 6 encode_prefix_ok by (auto simp: parse_tables parse_magic_def list_ex_iff list_all_iff)
next
  case (9 c cs)
  then have "declarative n c" "list_all (declarative n) cs" by simp_all
  from "9.IH"(1) [OF this(1)] "9.IH"(2) [OF this(2)] show ?case by auto
qed (auto simp: parse_tables parse_variant_def i64_max_def)

text \<open>What \<open>parse_check\<close> returns can be written.\<close>

lemma parse_magic_declarative:
  assumes "parse_magic t = Inr c"
  shows "declarative n c"
proof -
  from assms obtain sigs trim where "sigs \<noteq> []" "\<not> list_ex (\<lambda>p. p = []) sigs" "c = Magic sigs trim"
    unfolding parse_magic_def sum_iff by blast
  then show ?thesis by (auto simp: list_ex_iff)
qed

lemma parse_variant_declarative:
  assumes "parse_variant name v = Inr c" "value_ok m v"
  shows "declarative n c"
proof -
  consider "name = ''none'' \<and> v = T_boolean True" | "name = ''not_html'' \<and> v = T_boolean True"
    | "name = ''sha256''" | "name = ''min_bytes''" | "parse_variant name v = bad_variant"
    unfolding parse_variant_def by argo
  then show ?thesis
  proof cases
    case 3
    with assms show ?thesis
      by (cases v) (auto simp: parse_variant_def elim!: bind_sum_InrE)
  next
    case 4
    with assms show ?thesis
      by (cases v) (auto simp: parse_variant_def split: if_splits)
  qed (use assms in \<open>auto simp: parse_variant_def bad_variant_def\<close>)
qed

lemma parse_check_declarative:
  "parse_check v d = Inr c \<Longrightarrow> value_ok m v \<Longrightarrow> declarative (32 - d) c"
  "parse_checks vs d = Inr cs \<Longrightarrow> list_all (value_ok m) vs \<Longrightarrow> list_all (declarative (32 - d)) cs
     \<and> (32 < d \<longrightarrow> cs = [])"
proof (induction v d and vs d arbitrary: c m and cs m rule: parse_check_parse_checks.induct)
  case (1 v d)
  have d: "d \<le> 32" using "1.prems"(1) by (auto simp: parse_check_unfold split: if_splits)
  show ?case
  proof (cases v)
    case (T_string s)
    with 1 d show ?thesis by (auto simp: parse_check_unfold split: if_splits)
  next
    case (T_table t)
    show ?thesis
    proof (cases "map_of t ''magic'' = None")
      case False
      with T_table 1 d have "parse_magic t = Inr c" by (simp add: parse_check_unfold)
      then show ?thesis by (rule parse_magic_declarative)
    next
      case True
      with T_table 1 d obtain name val where t: "t = [(name, val)]"
        by (auto simp: parse_check_unfold split: list.splits)
      obtain k where m: "m = Suc k" "value_ok k val"
        using "1.prems"(2) T_table t by (cases m) auto
      show ?thesis
      proof (cases "name = ''all''")
        case False
        with T_table t True "1.prems" d have "parse_variant name val = Inr c"
          by (simp add: parse_check_unfold)
        then show ?thesis using m(2) by (rule parse_variant_declarative)
      next
        case nm: True
        with T_table t True "1.prems" d obtain vs cs where
          vs: "val = T_array vs" "parse_checks vs (Suc d) = Inr cs" "c = All_of cs"
          by (auto simp: parse_check_unfold elim!: bind_sum_InrE split: toml_value.splits)
        obtain j where "list_all (value_ok j) vs" using m(2) vs(1) by (cases k) auto
        with "1.IH" [of t "(name, val)" "[]" name val vs] T_table t True nm d vs
        have "list_all (declarative (32 - Suc d)) cs \<and> (32 < Suc d \<longrightarrow> cs = [])" by simp
        moreover have "32 - d = Suc (32 - Suc d) \<or> d = 32" using d by arith
        ultimately show ?thesis using vs(3) by auto
      qed
    qed
  qed (use 1 d in \<open>auto simp: parse_check_unfold\<close>)
next
  case (3 v vs d)
  from "3.prems"(1) obtain c cs' where
    "parse_check v d = Inr c" "parse_checks vs d = Inr cs'" "cs = c # cs'"
    by (auto elim!: bind_sum_InrE)
  moreover have "d \<le> 32" using calculation(1) by (auto simp: parse_check_unfold split: if_splits)
  ultimately show ?case using "3.IH" "3.prems"(2) by auto
qed auto

section \<open>Well-formed manifests\<close>

definition url_ok :: "crates \<Rightarrow> string \<Rightarrow> bool" where
  "url_ok D raw \<longleftrightarrow> validate_url D raw = Inr ()"

definition artifact_ok :: "crates \<Rightarrow> artifact \<Rightarrow> bool" where
  "artifact_ok D a \<longleftrightarrow>
     valid_key (key a) \<and> (\<forall>s \<in> set (sources a). url_ok D (url s))
     \<and> (\<forall>n. expected_bytes a = Some n \<longrightarrow> int n \<le> i64_max)
     \<and> (\<forall>d. fst (split_pin (art_check a)) = Some d \<longrightarrow> is_digest d)
     \<and> declarative 32 (snd (split_pin (art_check a)))"

definition manifest_ok :: "crates \<Rightarrow> manifest \<Rightarrow> bool" where
  "manifest_ok D m \<longleftrightarrow> distinct (map key m) \<and> list_all (artifact_ok D) m"

text \<open>What the \<open>toml\<close> crate documents: integers are 64-bit, documents nest at most 80 levels.\<close>

definition entry_ok :: "nat \<Rightarrow> manifest_entry \<Rightarrow> bool" where
  "entry_ok n e \<longleftrightarrow>
     (\<forall>b. me_bytes e = Some b \<longrightarrow> int b \<le> i64_max) \<and> (\<forall>v. me_check e = Some v \<longrightarrow> value_ok n v)"

definition toml_ok :: "toml_crate \<Rightarrow> bool" where
  "toml_ok T \<longleftrightarrow>
     (\<forall>s es. toml_from_str T s = Inr es \<longrightarrow> list_all (entry_ok 80) es)
     \<and> (\<forall>es. list_all (entry_ok 72) es \<longrightarrow>
          (\<exists>s. toml_to_string_pretty T es = Some s \<and> toml_from_str T s = Inr es))"

lemma validate_url_Inr: "validate_url D raw = Inr u \<longleftrightarrow> url_ok D raw"
  by (simp add: url_ok_def)

lemma read_write_source [simp]: "read_source (write_source s) = s"
  by (simp add: write_source_def source_new_def)

text \<open>Pins first: the form in which a check is read back.\<close>

definition normal_check :: "content_check \<Rightarrow> content_check" where
  "normal_check c = (case split_pin c of (None, c') \<Rightarrow> c' | (Some d, c') \<Rightarrow> All_of [Sha256 d, c'])"

definition normal :: "artifact \<Rightarrow> artifact" where
  "normal a = a\<lparr>art_check := normal_check (art_check a)\<rparr>"

lemma split_pin_None: "split_pin c = (None, c') \<Longrightarrow> c' = c"
  by (cases c rule: split_pin.cases) auto

lemma split_normal [simp]: "split_pin (normal_check c) = split_pin c"
  by (cases "split_pin c") (auto simp: normal_check_def split: option.splits dest: split_pin_None)

lemma split_pin_accepts:
  "accepts D c content \<longleftrightarrow>
     (case fst (split_pin c) of None \<Rightarrow> True | Some d \<Rightarrow> sha256 D content = d)
     \<and> accepts D (snd (split_pin c)) content"
  by (cases c rule: split_pin.cases) (auto split: list.splits)

lemma normal_accepts [simp]: "accepts D (normal_check c) content = accepts D c content"
  using split_pin_accepts [of D c content]
  by (auto simp: normal_check_def split: prod.splits option.splits)

lemma artifact_eta:
  "\<lparr>key = key a, sources = sources a, art_check = c, art_freshness = Immutable,
     art_provenance = \<lparr>description = description (art_provenance a),
       license = license (art_provenance a), citation = citation (art_provenance a)\<rparr>,
     expected_bytes = expected_bytes a\<rparr> = a\<lparr>art_check := c\<rparr>"
proof -
  have "art_freshness a = Immutable" by (cases "art_freshness a")
  then show ?thesis by (cases a; cases "art_provenance a") simp
qed

lemma write_manifest_entry_ok:
  assumes a: "artifact_ok D a" and k: "key a \<notin> seen"
  shows "\<exists>e. write_manifest_entry D seen a = Inr e \<and> write_manifest_entry D seen (normal a) = Inr e
     \<and> entry_ok 72 e \<and> read_manifest_entry D seen e = Inr (normal a)"
proof -
  obtain pin c where pc: "split_pin (art_check a) = (pin, c)" by (cases "split_pin (art_check a)")
  with a have c: "declarative 32 c" and pin: "\<And>d. pin = Some d \<Longrightarrow> is_digest d"
    by (auto simp: artifact_ok_def)
  from encode_check_declarative(1) [OF c] obtain v where
    v: "encode_check c = Inr v" "value_ok 67 v" "parse_check v 0 = Inr c" by auto
  have pin': "(case pin of None \<Rightarrow> Inr () | Some d \<Rightarrow> validate_digest d) = Inr ()"
    using pin by (auto split: option.split)
  have "traverse (\<lambda>s. bind_sum (validate_url D (url s)) (\<lambda>_. Inr (write_source s)))
      (map id (sources a)) = Inr (map write_source (sources a))"
    using a by (intro traverse_map) (simp add: artifact_ok_def url_ok_def)
  moreover have "traverse (\<lambda>s. let src = read_source s in
      bind_sum (map_error (in_artifact (key a)) (validate_url D (url src))) (\<lambda>_. Inr src))
      (map write_source (sources a)) = Inr (map id (sources a))"
    using a by (intro traverse_map) (simp add: artifact_ok_def url_ok_def)
  moreover have "value_ok 72 v" by (rule value_ok_mono [OF v(2)]) simp
  moreover have "artifact_key_new (as_str (key a)) = Inr (key a)"
    using a by (simp add: artifact_ok_def artifact_key_new_valid)
  moreover have "(case pin of None \<Rightarrow> Inr c | Some d \<Rightarrow>
      bind_sum (validate_digest d) (\<lambda>_. Inr (All_of [Sha256 d, c]))) = Inr (normal_check (art_check a))"
    using pc pin by (auto simp: normal_check_def validate_digest_ok split: option.splits)
  ultimately show ?thesis
    using a k pc pin' v
    by (simp add: write_manifest_entry_def read_manifest_entry_def normal_def artifact_ok_def
        entry_ok_def immutable_def artifact_eta)
qed

lemma write_entries_ok:
  assumes "distinct (map key m)" "list_all (artifact_ok D) m" "\<And>a. a \<in> set m \<Longrightarrow> key a \<notin> seen"
  shows "\<exists>es. write_entries D seen m = Inr es \<and> write_entries D seen (map normal m) = Inr es
     \<and> list_all (entry_ok 72) es \<and> read_entries D seen es = Inr (map normal m)"
  using assms
proof (induction m arbitrary: seen)
  case (Cons a m)
  have k: "key (normal a) = key a" by (simp add: normal_def)
  from Cons.prems write_manifest_entry_ok [of D a seen] obtain e where
    "write_manifest_entry D seen a = Inr e" "write_manifest_entry D seen (normal a) = Inr e"
    "entry_ok 72 e" "read_manifest_entry D seen e = Inr (normal a)" by auto
  moreover have "\<exists>es. write_entries D (insert (key a) seen) m = Inr es
     \<and> write_entries D (insert (key a) seen) (map normal m) = Inr es
     \<and> list_all (entry_ok 72) es \<and> read_entries D (insert (key a) seen) es = Inr (map normal m)"
    using Cons.prems by (intro Cons.IH) (auto simp: image_iff)
  ultimately show ?case by (auto simp: k)
qed simp

lemma manifest_round_trip:
  assumes "manifest_ok D m" "toml_ok T"
  shows "\<exists>s. to_toml_string D T m = Inr s \<and> from_toml_str D T s = Inr (map normal m)
     \<and> to_toml_string D T (map normal m) = Inr s"
proof -
  from write_entries_ok [of m D "{}"] assms(1) obtain es where
    es: "write_entries D {} m = Inr es" "write_entries D {} (map normal m) = Inr es"
    "list_all (entry_ok 72) es" "read_entries D {} es = Inr (map normal m)"
    by (auto simp: manifest_ok_def)
  with assms(2) obtain s where "toml_to_string_pretty T es = Some s" "toml_from_str T s = Inr es"
    by (auto simp: toml_ok_def)
  with es show ?thesis by (simp add: to_toml_string_def from_toml_str_def)
qed

section \<open>What is read is well-formed\<close>

lemma declarative_mono: "declarative n c \<Longrightarrow> n \<le> m \<Longrightarrow> declarative m c"
proof (induction n c arbitrary: m rule: declarative.induct)
  case (1 cs)
  then show ?case by (cases m) auto
next
  case (2 n cs)
  then show ?case by (cases m) (auto simp: list_all_iff)
qed auto

lemma split_pin_declarative:
  "declarative n c \<Longrightarrow> declarative n (snd (split_pin c))
     \<and> (\<forall>d. fst (split_pin c) = Some d \<longrightarrow> is_digest d)"
proof (cases c rule: split_pin.cases)
  case (2 d rest)
  assume a: "declarative n c"
  with 2 obtain m where n: "n = Suc m" by (cases n) auto
  have "declarative n (case rest of [c] \<Rightarrow> c | _ \<Rightarrow> All_of rest)"
    using a 2 n by (auto split: list.splits intro: declarative_mono)
  with a 2 n show ?thesis by simp
qed auto

lemma default_declarative [simp]: "declarative (Suc n) default_binary"
  by (cases n) (simp_all add: default_binary_def i64_max_def)

lemma read_manifest_entry_ok:
  assumes "read_manifest_entry D seen e = Inr a" "entry_ok 80 e"
  shows "artifact_ok D a \<and> key a \<notin> seen"
proof -
  from assms(1) obtain k srcs c c' where
    k: "artifact_key_new (me_key e) = Inr k" "k \<notin> seen"
    and srcs: "traverse (\<lambda>s. let src = read_source s in
      bind_sum (map_error (in_artifact k) (validate_url D (url src))) (\<lambda>_. Inr src)) (me_sources e)
        = Inr srcs"
    and c: "(case me_check e of None \<Rightarrow> Inr default_binary
         | Some v \<Rightarrow> map_error (in_artifact k) (parse_check v 0)) = Inr c"
    and c': "(case me_sha256 e of None \<Rightarrow> Inr c
         | Some d \<Rightarrow> bind_sum (validate_digest d) (\<lambda>_. Inr (All_of [Sha256 d, c]))) = Inr c'"
    and a: "key a = k" "sources a = srcs" "art_check a = c'" "expected_bytes a = me_bytes e"
    unfolding read_manifest_entry_def sum_iff by auto
  have "url_ok D (url s)" if "s \<in> set srcs" for s
    using traverse_Inr_set [OF srcs, of s] that
    by (auto simp: Let_def sum_iff validate_url_Inr)
  moreover have "declarative 32 c"
  proof (cases "me_check e")
    case None
    then show ?thesis using c default_declarative [of 31] by simp
  next
    case (Some v)
    with assms(2) c parse_check_declarative(1) [of v 0 c 80] show ?thesis
      by (simp add: entry_ok_def)
  qed
  then have "declarative 32 (snd (split_pin c')) \<and> (\<forall>d. fst (split_pin c') = Some d \<longrightarrow> is_digest d)"
    using c' split_pin_declarative [of 32 c] by (auto simp: sum_iff split: option.splits)
  ultimately show ?thesis
    using k a assms(2) by (auto simp: artifact_ok_def artifact_key_new_Inr entry_ok_def)
qed

lemma read_entries_ok:
  "read_entries D seen es = Inr m \<Longrightarrow> list_all (entry_ok 80) es \<Longrightarrow>
     manifest_ok D m \<and> key ` set m \<inter> seen = {}"
proof (induction D seen es arbitrary: m rule: read_entries.induct)
  case (2 D seen e es)
  then obtain a m' where
    "read_manifest_entry D seen e = Inr a" "read_entries D (insert (key a) seen) es = Inr m'" "m = a # m'"
    by (auto simp: sum_iff)
  with "2.IH" read_manifest_entry_ok [of D seen e a] "2.prems"(2) show ?case
    by (auto simp: manifest_ok_def)
qed (simp add: manifest_ok_def)

lemma from_toml_str_ok:
  assumes "from_toml_str D T s = Inr m" "toml_ok T"
  shows "manifest_ok D m"
  using assms read_entries_ok [of D "{}"]
  by (fastforce simp: from_toml_str_def sum_iff toml_ok_def)

section \<open>Lookup, merge and pin\<close>

lemma manifest_get_simps [simp]:
  "manifest_get [] k = None"
  "manifest_get (a # m) k = (if key a = k then Some a else manifest_get m k)"
  by (simp_all add: manifest_get_def)

lemma manifest_get_None: "manifest_get m k = None \<longleftrightarrow> k \<notin> key ` set m"
  by (induction m) auto

lemma manifest_get_Some: "manifest_get m k = Some a \<Longrightarrow> a \<in> set m \<and> key a = k"
  by (induction m) (auto split: if_splits)

lemma get_put_artifact [simp]:
  "manifest_get (put_artifact a m) k = (if k = key a then Some a else manifest_get m k)"
  by (induction m) auto

lemma keys_put_artifact:
  "map key (put_artifact a m) = (if key a \<in> key ` set m then map key m else map key m @ [key a])"
  by (induction m) auto

lemma set_put_artifact: "set (put_artifact a m) \<subseteq> insert a (set m)"
  by (induction m) auto

lemma put_artifact_ok: "manifest_ok D m \<Longrightarrow> artifact_ok D a \<Longrightarrow> manifest_ok D (put_artifact a m)"
  using set_put_artifact [of a m] by (auto simp: manifest_ok_def keys_put_artifact list_all_iff)

lemma merge_ok: "manifest_ok D m \<Longrightarrow> manifest_ok D other \<Longrightarrow> manifest_ok D (merge m other)"
proof (induction m other rule: merge.induct)
  case (2 m a other)
  then have "artifact_ok D a" "manifest_ok D other" by (auto simp: manifest_ok_def)
  with 2 put_artifact_ok show ?case by simp
qed simp

lemma merge_get:
  "distinct (map key other) \<Longrightarrow> manifest_get (merge m other) k
     = (case manifest_get other k of Some a \<Rightarrow> Some a | None \<Rightarrow> manifest_get m k)"
proof (induction m other rule: merge.induct)
  case (2 m a other)
  then have "key a \<notin> key ` set other" by auto
  then have "manifest_get other (key a) = None" by (simp add: manifest_get_None)
  with 2 show ?case by (auto split: option.splits)
qed simp

lemma merge_keys:
  "distinct (map key other) \<Longrightarrow>
     map key (merge m other) = map key m @ filter (\<lambda>k. k \<notin> key ` set m) (map key other)"
proof (induction m other rule: merge.induct)
  case (2 m a other)
  have "key ` set (put_artifact a m) = insert (key a) (key ` set m)"
    using arg_cong [OF keys_put_artifact [of a m], of set] by (auto split: if_splits)
  with 2 show ?case
    by (auto simp: keys_put_artifact intro!: filter_cong)
qed simp

lemma ensure_compatible_split:
  "ensure_compatible_pin c d = Inr () \<Longrightarrow>
     ensure_compatible_pin (snd (split_pin c)) d = Inr () \<and> fst (split_pin c) \<in> {None, Some d}"
  by (cases c rule: split_pin.cases) (auto simp: sum_iff split: list.splits)

lemma pin_sha256_Inr:
  assumes "pin_sha256 m k d = Inr m'"
  obtains a c where "is_digest d" "manifest_get m k = Some a"
    "ensure_compatible_pin (art_check a) d = Inr ()"
    "m' = m \<and> split_pin (art_check a) = (Some d, c)
     \<or> split_pin (art_check a) = (None, c) \<and> m' = put_artifact (a\<lparr>art_check := All_of [Sha256 d, c]\<rparr>) m"
proof -
  from assms obtain a where a: "is_digest d" "manifest_get m k = Some a"
      "ensure_compatible_pin (art_check a) d = Inr ()"
    and r: "(case split_pin (art_check a) of (pin, c) \<Rightarrow>
       if pin = Some d then Inr m
       else Inr (put_artifact (a\<lparr>art_check := All_of [Sha256 d, c]\<rparr>) m))
       = (Inr m' :: datastore_error + manifest)"
    unfolding pin_sha256_def sum_iff ok_or_Inr validate_digest_Inr by (elim exE conjE) simp
  obtain pin c where "split_pin (art_check a) = (pin, c)" by (cases "split_pin (art_check a)")
  with r ensure_compatible_split [OF a(3)] show thesis
    by (intro that [OF a, of c]) (auto split: if_splits)
qed

lemma pin_sha256_get:
  assumes "pin_sha256 m k d = Inr m'"
  obtains a a' where "manifest_get m k = Some a" "manifest_get m' k = Some a'"
    "a' = a\<lparr>art_check := art_check a'\<rparr>" "fst (split_pin (art_check a')) = Some d"
    "ensure_compatible_pin (art_check a') d = Inr ()"
    "\<And>D content. accepts D (art_check a') content
       \<longleftrightarrow> sha256 D content = d \<and> accepts D (art_check a) content"
    "\<And>j. j \<noteq> k \<Longrightarrow> manifest_get m' j = manifest_get m j" "map key m' = map key m"
proof -
  from assms obtain a c where a: "manifest_get m k = Some a"
    "ensure_compatible_pin (art_check a) d = Inr ()"
    and c: "m' = m \<and> split_pin (art_check a) = (Some d, c)
     \<or> split_pin (art_check a) = (None, c) \<and> m' = put_artifact (a\<lparr>art_check := All_of [Sha256 d, c]\<rparr>) m"
    by (rule pin_sha256_Inr)
  note k = manifest_get_Some [OF a(1)]
  from c show thesis
  proof (elim disjE conjE)
    assume "m' = m" "split_pin (art_check a) = (Some d, c)"
    with a show thesis by (intro that [of a a]) (auto simp: split_pin_accepts [of _ "art_check a"])
  next
    assume s: "split_pin (art_check a) = (None, c)"
      and m': "m' = put_artifact (a\<lparr>art_check := All_of [Sha256 d, c]\<rparr>) m"
    note c = split_pin_None [OF s]
    show thesis
      by (rule that [of a "a\<lparr>art_check := All_of [Sha256 d, c]\<rparr>"])
        (use a k m' c in \<open>auto simp: keys_put_artifact\<close>)
  qed
qed

lemma pin_sha256_ok: "pin_sha256 m k d = Inr m' \<Longrightarrow> manifest_ok D m \<Longrightarrow> manifest_ok D m'"
proof (erule pin_sha256_Inr)
  fix a c
  assume m: "manifest_ok D m" and d: "is_digest d" and a: "manifest_get m k = Some a"
    and c: "m' = m \<and> split_pin (art_check a) = (Some d, c)
     \<or> split_pin (art_check a) = (None, c) \<and> m' = put_artifact (a\<lparr>art_check := All_of [Sha256 d, c]\<rparr>) m"
  from m manifest_get_Some [OF a] have "artifact_ok D a" by (auto simp: manifest_ok_def list_all_iff)
  with d have "artifact_ok D (a\<lparr>art_check := All_of [Sha256 d, c]\<rparr>)"
    if "split_pin (art_check a) = (None, c)" using that by (simp add: artifact_ok_def)
  with m c show ?thesis by (auto simp: put_artifact_ok)
qed

lemma pin_sha256_again:
  assumes "pin_sha256 m k d = Inr m'"
  shows "pin_sha256 m' k d = Inr m'"
proof -
  have d: "is_digest d" using assms by (rule pin_sha256_Inr)
  from assms obtain a' where "manifest_get m' k = Some a'" "fst (split_pin (art_check a')) = Some d"
    "ensure_compatible_pin (art_check a') d = Inr ()" by (rule pin_sha256_get)
  with d show ?thesis by (cases "split_pin (art_check a')") (simp add: pin_sha256_def validate_digest_ok)
qed

end
