(* ===== verification/Manifest_Properties.thy ===== *)
theory Manifest_Properties
  imports Manifest Example
begin

text \<open>
  The properties of manifests, and a small text format that stands in for TOML in the examples: it
  has the documented properties of the \<open>toml\<close> crate.
\<close>

section \<open>A text format\<close>

lemma entry_ok_code [code]:
  "entry_ok n e \<longleftrightarrow>
     (case me_bytes e of None \<Rightarrow> True | Some b \<Rightarrow> int b \<le> i64_max)
     \<and> (case me_check e of None \<Rightarrow> True | Some v \<Rightarrow> value_ok n v)"
  by (auto simp: entry_ok_def split: option.splits)

definition put_int :: "int \<Rightarrow> string" where
  "put_int i = (if i < 0 then ''-'' else ''+'') @ put_nat (nat \<bar>i\<bar>)"

definition get_int :: "string \<Rightarrow> int \<times> string" where
  "get_int s = (case get_nat (tl s) of (n, r) \<Rightarrow> (if hd s = CHR ''-'' then - int n else int n, r))"

fun get_seq :: "(string \<Rightarrow> 'a \<times> string) \<Rightarrow> nat \<Rightarrow> string \<Rightarrow> 'a list \<times> string" where
  "get_seq g 0 s = ([], s)"
| "get_seq g (Suc k) s = (case g s of (x, s) \<Rightarrow> case get_seq g k s of (xs, s) \<Rightarrow> (x # xs, s))"

definition put_seq :: "('a \<Rightarrow> string) \<Rightarrow> 'a list \<Rightarrow> string" where
  "put_seq p xs = put_nat (length xs) @ concat (map p xs)"

definition get_seqs :: "(string \<Rightarrow> 'a \<times> string) \<Rightarrow> string \<Rightarrow> 'a list \<times> string" where
  "get_seqs g s = (case get_nat s of (k, s) \<Rightarrow> get_seq g k s)"

fun put_value :: "toml_value \<Rightarrow> string" where
  "put_value (T_string s) = ''s'' @ put_text s"
| "put_value (T_integer i) = ''i'' @ put_int i"
| "put_value (T_float s) = ''f'' @ put_text s"
| "put_value (T_boolean b) = (if b then ''y'' else ''n'')"
| "put_value (T_datetime s) = ''d'' @ put_text s"
| "put_value (T_array vs) = ''a'' @ put_nat (length vs) @ concat (map put_value vs)"
| "put_value (T_table t) =
     ''t'' @ put_nat (length t) @ concat (map (\<lambda>(k, v). put_text k @ put_value v) t)"

fun get_value :: "nat \<Rightarrow> string \<Rightarrow> toml_value \<times> string" where
  "get_value 0 s = (T_boolean False, s)"
| "get_value (Suc n) s =
     (let c = hd s; r = tl s in
      if c = CHR ''s'' then (case get_text r of (t, r) \<Rightarrow> (T_string t, r))
      else if c = CHR ''i'' then (case get_int r of (i, r) \<Rightarrow> (T_integer i, r))
      else if c = CHR ''f'' then (case get_text r of (t, r) \<Rightarrow> (T_float t, r))
      else if c = CHR ''y'' then (T_boolean True, r)
      else if c = CHR ''n'' then (T_boolean False, r)
      else if c = CHR ''d'' then (case get_text r of (t, r) \<Rightarrow> (T_datetime t, r))
      else if c = CHR ''a'' then (case get_seqs (get_value n) r of (vs, r) \<Rightarrow> (T_array vs, r))
      else (case get_seqs (\<lambda>s. case get_text s of (k, s) \<Rightarrow> case get_value n s of (v, s) \<Rightarrow> ((k, v), s)) r
            of (t, r) \<Rightarrow> (T_table t, r)))"

lemma get_put_int: "get_int (put_int i @ s) = (i, s)"
  by (simp add: get_int_def put_int_def get_put_nat)

lemma get_put_seq:
  assumes "\<And>x s. x \<in> set xs \<Longrightarrow> g (p x @ s) = (x, s)"
  shows "get_seqs g (put_seq p xs @ s) = (xs, s)"
proof -
  have "get_seq g (length xs) (concat (map p xs) @ s) = (xs, s)" using assms
    by (induction xs) simp_all
  then show ?thesis by (simp add: get_seqs_def put_seq_def get_put_nat)
qed

lemma get_put_value: "value_ok n v \<Longrightarrow> get_value (Suc n) (put_value v @ s) = (v, s)"
proof (induction n v arbitrary: s rule: value_ok.induct)
  case (3 n vs)
  then have "get_seqs (get_value (Suc n)) (put_seq put_value vs @ s) = (vs, s)"
    by (intro get_put_seq) (simp add: list_all_iff)
  then show ?case by (simp add: put_seq_def)
next
  case (5 n t)
  let ?g = "\<lambda>s. case get_text s of (k, s) \<Rightarrow> case get_value (Suc n) s of (v, s) \<Rightarrow> ((k, v), s)"
  have "get_seqs ?g (put_seq (\<lambda>(k, v). put_text k @ put_value v) t @ s) = (t, s)"
  proof (rule get_put_seq)
    fix x s assume "x \<in> set t"
    with 5 show "?g ((\<lambda>(k, v). put_text k @ put_value v) x @ s) = (x, s)"
      by (cases x) (auto simp: get_put_text list_all_iff simp del: get_value.simps)
  qed
  then show ?case by (simp add: put_seq_def)
qed (simp_all add: get_put_text get_put_int)

fun put_source :: "source_entry \<Rightarrow> string" where
  "put_source (Url u) = ''u'' @ put_text u"
| "put_source (Detailed u b) = (if b then ''t'' else ''f'') @ put_text u"

definition get_source :: "string \<Rightarrow> source_entry \<times> string" where
  "get_source s = (case get_text (tl s) of (u, r) \<Rightarrow>
     (if hd s = CHR ''u'' then Url u else Detailed u (hd s = CHR ''t''), r))"

definition put_some :: "('a \<Rightarrow> string) \<Rightarrow> 'a option \<Rightarrow> string" where
  "put_some p x = (case x of None \<Rightarrow> ''0'' | Some y \<Rightarrow> ''1'' @ p y)"

definition get_some :: "(string \<Rightarrow> 'a \<times> string) \<Rightarrow> string \<Rightarrow> 'a option \<times> string" where
  "get_some g s = (if hd s = CHR ''0'' then (None, tl s) else (case g (tl s) of (y, s) \<Rightarrow> (Some y, s)))"

definition put_entry :: "manifest_entry \<Rightarrow> string" where
  "put_entry e =
     put_text (me_key e) @ put_seq put_source (me_sources e) @ put_some put_text (me_sha256 e)
     @ put_some put_nat (me_bytes e) @ put_text (me_freshness e) @ put_some put_value (me_check e)
     @ put_text (me_description e) @ put_text (me_license e) @ put_some put_text (me_citation e)"

definition get_entry :: "string \<Rightarrow> manifest_entry \<times> string" where
  "get_entry s =
     (case get_text s of (k, s) \<Rightarrow> case get_seqs get_source s of (srcs, s) \<Rightarrow>
      case get_some get_text s of (sha, s) \<Rightarrow> case get_some get_nat s of (b, s) \<Rightarrow>
      case get_text s of (f, s) \<Rightarrow> case get_some (get_value 81) s of (c, s) \<Rightarrow>
      case get_text s of (d, s) \<Rightarrow> case get_text s of (l, s) \<Rightarrow>
      case get_some get_text s of (q, s) \<Rightarrow>
      (\<lparr>me_key = k, me_sources = srcs, me_sha256 = sha, me_bytes = b, me_freshness = f,
        me_check = c, me_description = d, me_license = l, me_citation = q\<rparr>, s))"

definition demo_toml :: toml_crate where
  "demo_toml =
     \<lparr>toml_from_str = (\<lambda>s. case get_seqs get_entry s of (es, _) \<Rightarrow>
        if list_all (entry_ok 80) es then Inr es else Inl None),
      toml_to_string_pretty = (\<lambda>es. Some (put_seq put_entry es))\<rparr>"

lemma get_put_some:
  assumes "\<And>y s. x = Some y \<Longrightarrow> g (p y @ s) = (y, s)"
  shows "get_some g (put_some p x @ s) = (x, s)"
  using assms by (cases x) (auto simp: get_some_def put_some_def)

lemma get_put_source: "get_source (put_source s @ r) = (s, r)"
  by (cases s) (auto simp: get_source_def get_put_text)

lemma get_put_entry: "entry_ok 80 e \<Longrightarrow> get_entry (put_entry e @ s) = (e, s)"
  using get_put_value [of 80]
  by (simp add: get_entry_def put_entry_def get_put_text get_put_nat get_put_seq get_put_some
      get_put_source entry_ok_def eval_nat_numeral del: get_value.simps)

lemma entry_ok_mono: "entry_ok n e \<Longrightarrow> n \<le> m \<Longrightarrow> entry_ok m e"
  by (auto simp: entry_ok_def intro: value_ok_mono)

lemma demo_toml_ok: "toml_ok demo_toml"
proof -
  have "get_seqs get_entry (put_seq put_entry es) = (es, [])" "list_all (entry_ok 80) es"
    if "list_all (entry_ok 72) es" for es
  proof -
    show a: "list_all (entry_ok 80) es" using that by (auto simp: list_all_iff intro: entry_ok_mono)
    show "get_seqs get_entry (put_seq put_entry es) = (es, [])"
      using get_put_seq [of es get_entry put_entry "[]"] get_put_entry a by (simp add: list_all_iff)
  qed
  then show ?thesis by (auto simp: toml_ok_def demo_toml_def split: if_splits prod.splits)
qed

section \<open>Properties\<close>

definition demo_digest :: string where
  "demo_digest = replicate 64 (CHR ''a'')"

definition demo_entry :: manifest_entry where
  "demo_entry =
     \<lparr>me_key = ''k'', me_sources = [Url ''https://h/f'', Detailed ''https://g/f'' True],
      me_sha256 = Some demo_digest, me_bytes = Some 3, me_freshness = ''immutable'',
      me_check = Some (T_table [(''all'', T_array [T_string ''not-html'',
        T_table [(''magic'', T_array [T_string ''AB'', T_array [T_integer 255]])]])]),
      me_description = ''d'', me_license = ''l'', me_citation = None\<rparr>"

definition demo_text :: string where
  "demo_text = put_seq put_entry [demo_entry]"

definition demo_manifest :: manifest where
  "demo_manifest =
     [\<lparr>key = ArtifactKey ''k'', sources = [source_new ''https://h/f'',
         trusting_redirects (source_new ''https://g/f'')],
       art_check = All_of [Sha256 demo_digest, All_of [NotHtml, Magic [[65, 66], [255]] False]],
       art_freshness = Immutable,
       art_provenance = \<lparr>description = ''d'', license = ''l'', citation = None\<rparr>,
       expected_bytes = Some 3\<rparr>]"

lemma demo_read: "is_ok (from_toml_str demo demo_toml demo_text)"
  by code_simp

lemma demo_digest: "is_digest demo_digest"
  by code_simp

definition deep_check :: content_check where
  "deep_check = ((\<lambda>c. All_of [c]) ^^ 33) No_check"

definition deep_value :: toml_value where
  "deep_value = ((\<lambda>v. T_table [(''all'', T_array [v])]) ^^ 33) (T_table [(''none'', T_boolean True)])"

definition deep_entry :: manifest_entry where
  "deep_entry = \<lparr>me_key = ''k'', me_sources = [], me_sha256 = None, me_bytes = None,
     me_freshness = immutable, me_check = Some deep_value, me_description = [], me_license = [],
     me_citation = None\<rparr>"

lemma deep_value_ok: "value_ok 72 deep_value"
  by code_simp

lemma deep_written: "write_entries D {} [with_check deep_check (artifact_new (ArtifactKey ''k'') [])]
    = Inr [deep_entry]"
proof -
  have "encode_check (((\<lambda>c. All_of [c]) ^^ n) No_check)
      = Inr (((\<lambda>v. T_table [(''all'', T_array [v])]) ^^ n) (T_table [(''none'', T_boolean True)]))" for n
    by (induction n) simp_all
  moreover have "split_pin deep_check = (None, deep_check)" by (simp add: deep_check_def numeral_eq_Suc)
  ultimately show ?thesis
    by (simp add: write_manifest_entry_def with_check_def artifact_new_def deep_entry_def
        deep_value_def deep_check_def provenance_default_def)
qed

lemma deep_refused: "\<not> is_ok (parse_check deep_value 0)"
  by code_simp

text \<open>C11: a manifest that was read can be written, and the text written reads back as the same keys,
  sources, sizes and provenance with checks that accept exactly the same content; writing that again
  gives the same text.\<close>

theorem read_manifest_round_trips:
  assumes "from_toml_str D T s = Inr m" "toml_ok T"
  shows "\<exists>s' m'. to_toml_string D T m = Inr s' \<and> from_toml_str D T s' = Inr m'
     \<and> to_toml_string D T m' = Inr s'
     \<and> list_all2 (\<lambda>a a'. a' = a\<lparr>art_check := art_check a'\<rparr>
          \<and> (\<forall>content. accepts D (art_check a') content = accepts D (art_check a) content)) m m'"
proof -
  have "list_all2 (\<lambda>a a'. a' = a\<lparr>art_check := art_check a'\<rparr>
      \<and> (\<forall>content. accepts D (art_check a') content = accepts D (art_check a) content)) m (map normal m)"
    by (simp add: list_all2_map2 list.rel_refl normal_def)
  with manifest_round_trip [OF from_toml_str_ok [OF assms] assms(2)] show ?thesis by blast
qed

lemma read_manifest_round_trips_witness:
  "\<exists>m s' m'. from_toml_str demo demo_toml demo_text = Inr m \<and> to_toml_string demo demo_toml m = Inr s'
     \<and> from_toml_str demo demo_toml s' = Inr m' \<and> to_toml_string demo demo_toml m' = Inr s'"
proof -
  obtain m where m: "from_toml_str demo demo_toml demo_text = Inr m"
    using demo_read by (auto simp: is_ok_iff)
  from read_manifest_round_trips [OF m demo_toml_ok] m show ?thesis by blast
qed

text \<open>C12: reading, merging and pinning only produce manifests with distinct valid keys, credential-free
  http(s) sources, digest-shaped pins and writable checks.\<close>

theorem manifest_operations_keep_ok:
  assumes "from_toml_str D T s = Inr m" "from_toml_str D T s' = Inr other" "toml_ok T"
    and "pin_sha256 (merge m other) k d = Inr m'"
  shows "manifest_ok D m' \<and> manifest_ok D (merge m other) \<and> manifest_ok D m"
  using pin_sha256_ok [OF assms(4) merge_ok] from_toml_str_ok [OF assms(1,3)]
    from_toml_str_ok [OF assms(2,3)] by (simp add: merge_ok)

lemma demo_session:
  "is_ok (bind_sum (from_toml_str demo demo_toml demo_text) (\<lambda>m.
     pin_sha256 (merge m m) (ArtifactKey ''k'') demo_digest))"
  by code_simp

lemma manifest_operations_keep_ok_witness:
  "\<exists>m m'. from_toml_str demo demo_toml demo_text = Inr m
     \<and> pin_sha256 (merge m m) (ArtifactKey ''k'') demo_digest = Inr m' \<and> manifest_ok demo m'"
proof -
  obtain m m' where m: "from_toml_str demo demo_toml demo_text = Inr m"
    and p: "pin_sha256 (merge m m) (ArtifactKey ''k'') demo_digest = Inr m'"
    using demo_session by (auto simp: is_ok_iff bind_sum_Inr_iff)
  from manifest_operations_keep_ok [OF m m demo_toml_ok p] m p show ?thesis by blast
qed

text \<open>C13: pinning a key makes its check accept exactly what it accepted before and hashes to the digest;
  every other artifact and the order stay, and pinning the same digest again changes nothing.\<close>

theorem pin_sha256_adds_exactly_the_pin:
  assumes "pin_sha256 m k d = Inr m'"
  shows "(\<exists>a a'. manifest_get m k = Some a \<and> manifest_get m' k = Some a'
       \<and> a' = a\<lparr>art_check := art_check a'\<rparr>
       \<and> (\<forall>D content. accepts D (art_check a') content
            \<longleftrightarrow> sha256 D content = d \<and> accepts D (art_check a) content))
     \<and> (\<forall>j. j \<noteq> k \<longrightarrow> manifest_get m' j = manifest_get m j)
     \<and> map key m' = map key m \<and> pin_sha256 m' k d = Inr m'"
  using pin_sha256_get [OF assms] pin_sha256_again [OF assms] by (smt (verit, best))

lemma demo_pin: "pin_sha256 demo_manifest (ArtifactKey ''k'') demo_digest = Inr demo_manifest"
  using demo_digest by (simp add: pin_sha256_def demo_manifest_def validate_digest_ok)

lemma pin_sha256_adds_exactly_the_pin_witness:
  "\<exists>a. manifest_get demo_manifest (ArtifactKey ''k'') = Some a
     \<and> (\<forall>D content. accepts D (art_check a) content \<longrightarrow> sha256 D content = demo_digest)"
  using pin_sha256_adds_exactly_the_pin [OF demo_pin] by blast

lemma ensure_compatible_pin_iff:
  "ensure_compatible_pin c d = Inr () \<longleftrightarrow> (\<forall>p \<in> set (pinned_sha256s c). p = d)"
  "ensure_compatible_pins cs d = Inr () \<longleftrightarrow> (\<forall>c \<in> set cs. \<forall>p \<in> set (pinned_sha256s c). p = d)"
  by (induction c d and cs d rule: ensure_compatible_pin_ensure_compatible_pins.induct)
     (auto simp: sum_iff)

text \<open>An artifact whose check tree pins another digest anywhere can not be pinned.\<close>

theorem pin_sha256_refuses_other_pins:
  assumes "manifest_get m k = Some a" "p \<in> set (pinned_sha256s (art_check a))" "p \<noteq> d"
  shows "\<exists>e. pin_sha256 m k d = Inl e"
proof -
  have "\<not> (\<exists>m'. pin_sha256 m k d = Inr m')"
    using assms ensure_compatible_pin_iff(1) [of "art_check a" d] by (auto simp: pin_sha256_def sum_iff)
  then show ?thesis by (cases "pin_sha256 m k d") auto
qed

lemma pin_sha256_refuses_other_pins_witness:
  "\<exists>e. pin_sha256 demo_manifest (ArtifactKey ''k'') (replicate 64 (CHR ''b'')) = Inl e"
  by (rule pin_sha256_refuses_other_pins [of _ _ "hd demo_manifest" demo_digest])
     (simp_all add: demo_manifest_def demo_digest_def numeral_eq_Suc)

text \<open>Merging gives every key the artifact of the other manifest if it has one and keeps the rest;
  old keys keep their places and new keys follow in their order.\<close>

theorem merge_replaces_in_place:
  assumes "distinct (map key other)"
  shows "manifest_get (merge m other) k
       = (case manifest_get other k of Some a \<Rightarrow> Some a | None \<Rightarrow> manifest_get m k)
     \<and> map key (merge m other) = map key m @ filter (\<lambda>k. k \<notin> key ` set m) (map key other)"
  using merge_get [OF assms] merge_keys [OF assms] by blast

lemma merge_replaces_in_place_witness:
  "map key (merge [artifact_new (ArtifactKey ''x'') []] demo_manifest) = [ArtifactKey ''x'', ArtifactKey ''k'']"
proof -
  have "distinct (map key demo_manifest)" by (simp add: demo_manifest_def)
  from conjunct2 [OF merge_replaces_in_place [OF this, of "[artifact_new (ArtifactKey ''x'') []]"]]
  show ?thesis by (simp add: demo_manifest_def artifact_new_def)
qed

text \<open>A check built in memory that nests more than 32 levels is written without an error, but the
  text written is refused by the reader.\<close>

theorem deep_checks_do_not_read_back:
  assumes "toml_ok T"
  shows "\<exists>s e. to_toml_string D T [with_check deep_check (artifact_new (ArtifactKey ''k'') [])] = Inr s
     \<and> from_toml_str D T s = Inl e"
proof -
  have "list_all (entry_ok 72) [deep_entry]" by (simp add: entry_ok_def deep_entry_def deep_value_ok)
  with assms obtain s where s: "toml_to_string_pretty T [deep_entry] = Some s"
    "toml_from_str T s = Inr [deep_entry]" unfolding toml_ok_def by blast
  have "artifact_key_new ''k'' = Inr (ArtifactKey ''k'')" by code_simp
  moreover obtain e where "parse_check deep_value 0 = Inl e"
    using deep_refused by (cases "parse_check deep_value 0") auto
  ultimately have "\<exists>e. read_entries D {} [deep_entry] = Inl e"
    by (simp add: read_manifest_entry_def deep_entry_def immutable_def)
  with s show ?thesis
    by (simp only: to_toml_string_def from_toml_str_def deep_written bind_sum_simps ok_or_simps
        map_error_simps) simp
qed

lemma deep_checks_do_not_read_back_witness:
  "\<exists>s e. to_toml_string demo demo_toml [with_check deep_check (artifact_new (ArtifactKey ''k'') [])] = Inr s
     \<and> from_toml_str demo demo_toml s = Inl e"
  by (rule deep_checks_do_not_read_back [OF demo_toml_ok])

end
