(* ===== verification/Text_Std.thy ===== *)
theory Text_Std
  imports Utf8
begin

text \<open>
  Operations of Rust's standard library on text that need the characters of a \<open>String\<close>:
  \<open>chars\<close> with the bytes of each character, \<open>trim\<close>, ASCII case, \<open>parse::<u64>\<close>, and the
  \<open>Debug\<close> form of a string (characters outside ASCII are shown as they are; the escapes Rust uses
  for unprintable ones among them are not modelled).
\<close>

section \<open>Characters with their bytes\<close>

function pieces :: "bytes \<Rightarrow> (nat \<times> bytes) list" where
  "pieces [] = []"
| "pieces (b # bs) =
     ((case fst (utf8_step b bs) of None \<Rightarrow> 0xFFFD | Some c \<Rightarrow> c),
      b # take (length bs - length (snd (utf8_step b bs))) bs) # pieces (snd (utf8_step b bs))"
  by pat_completeness auto
termination
  by (relation "measure length") (auto simp: utf8_step_length less_Suc_eq_le)

lemma utf8_step_suffix: "suffix (snd (utf8_step b bs)) bs"
  by (auto simp: utf8_step_def suffix_def split: list.split)

lemma concat_pieces: "concat (map snd (pieces bs)) = bs"
proof (induction bs rule: pieces.induct)
  case (2 b bs)
  obtain u where "bs = u @ snd (utf8_step b bs)" using utf8_step_suffix [of b bs] by (auto simp: suffix_def)
  then have "take (length bs - length (snd (utf8_step b bs))) bs @ snd (utf8_step b bs) = bs"
    by (metis append_eq_conv_conj diff_add_inverse2 length_append)
  with 2 show ?case by simp
qed simp

lemma map_fst_pieces: "map fst (pieces bs) = utf8_lossy bs"
  by (induction bs rule: pieces.induct) simp_all

lemma pieces_ascii: "list_all (\<lambda>b. b < 0x80) bs \<Longrightarrow> pieces bs = map (\<lambda>b. (unat b, [b])) bs"
  by (induction bs) (simp_all add: utf8_step_ascii)

definition str_pieces :: "string \<Rightarrow> (nat \<times> string) list" where
  "str_pieces s = map (\<lambda>(c, bs). (c, of_bytes bs)) (pieces (as_bytes s))"

definition is_ascii :: "string \<Rightarrow> bool" where
  "is_ascii s \<longleftrightarrow> list_all (\<lambda>c. code c < 128) s"

lemma str_pieces_ascii: "is_ascii s \<Longrightarrow> str_pieces s = map (\<lambda>c. (code c, [c])) s"
proof -
  assume "is_ascii s"
  then have "list_all (\<lambda>b. b < 0x80) (as_bytes s)"
    by (auto simp: is_ascii_def as_bytes_def list_all_iff of_char_less_128)
  moreover have "of_bytes [of_char c] = [c]" for c
    using of_bytes_as_bytes [of "[c]"] by (simp add: as_bytes_def)
  ultimately show ?thesis by (simp add: str_pieces_def pieces_ascii as_bytes_def)
qed

lemma concat_str_pieces: "concat (map snd (str_pieces s)) = s"
proof -
  have "concat (map snd (str_pieces s)) = of_bytes (concat (map snd (pieces (as_bytes s))))"
    by (simp add: str_pieces_def of_bytes_def map_concat comp_def case_prod_beta)
  then show ?thesis by (simp add: concat_pieces)
qed

section \<open>Trimming and case\<close>

definition trim_pieces :: "(nat \<times> string) list \<Rightarrow> (nat \<times> string) list" where
  "trim_pieces ps =
     rev (dropWhile (\<lambda>p. is_whitespace (fst p)) (rev (dropWhile (\<lambda>p. is_whitespace (fst p)) ps)))"

definition trim :: "string \<Rightarrow> string" where
  "trim s = concat (map snd (trim_pieces (str_pieces s)))"

definition ascii_lowercase :: "string \<Rightarrow> string" where
  "ascii_lowercase s = map to_ascii_lowercase s"

lemma to_ascii_lowercase_again [simp]: "to_ascii_lowercase (to_ascii_lowercase c) = to_ascii_lowercase c"
  by (auto simp: to_ascii_lowercase_def)

lemma ascii_lowercase_again [simp]: "ascii_lowercase (ascii_lowercase s) = ascii_lowercase s"
  by (simp add: ascii_lowercase_def)

section \<open>Numbers and quoted text\<close>

text \<open>\<open>str::parse::<u64>\<close>: an optional plus sign and decimal digits, within range.\<close>

definition digit_value :: "char \<Rightarrow> nat" where
  "digit_value c = code c - 48"

definition parse_u64 :: "string \<Rightarrow> u64 option" where
  "parse_u64 s =
     (let ds = (case s of c # r \<Rightarrow> if c = CHR ''+'' then r else s | [] \<Rightarrow> []) in
      if ds = [] \<or> \<not> list_all is_ascii_digit ds then None
      else (let n = foldl (\<lambda>n c. 10 * n + digit_value c) 0 ds in
            if n \<le> u64_max then Some n else None))"

definition hex_char :: "nat \<Rightarrow> char" where
  "hex_char n = ''0123456789abcdef'' ! (n mod 16)"

definition debug_char :: "char \<Rightarrow> string" where
  "debug_char c =
     (if c = CHR 0x22 \<or> c = CHR 0x5C then [CHR 0x5C, c]
      else if code c = 0 then [CHR 0x5C, CHR ''0'']
      else if code c = 9 then [CHR 0x5C, CHR ''t'']
      else if code c = 10 then [CHR 0x5C, CHR ''n'']
      else if code c = 13 then [CHR 0x5C, CHR ''r'']
      else if code c < 32 \<or> code c = 127
      then [CHR 0x5C] @ ''u{'' @ (if 16 \<le> code c then [hex_char (code c div 16)] else [])
             @ [hex_char (code c)] @ ''}''
      else [c])"

definition debug_str :: "string \<Rightarrow> string" where
  "debug_str s = [CHR 0x22] @ concat (map debug_char s) @ [CHR 0x22]"

text \<open>\<open>parse::<u64>\<close> reads what \<open>to_string\<close> writes.\<close>

lemma digit_char_value: "n < 10 \<Longrightarrow> digit_value (digit_char n) = n \<and> is_ascii_digit (digit_char n)"
  by (simp add: digit_value_def digit_char_def is_ascii_digit_def)

lemma decimal_digits: "list_all is_ascii_digit (decimal n) \<and> decimal n \<noteq> []
    \<and> foldl (\<lambda>n c. 10 * n + digit_value c) 0 (decimal n) = n"
proof (induction n rule: decimal.induct)
  case (1 n)
  show ?case
  proof (cases "n < 10")
    case True
    then show ?thesis by (simp add: decimal.simps [of n] digit_char_value)
  next
    case False
    with 1 have "list_all is_ascii_digit (decimal (n div 10))"
      "foldl (\<lambda>n c. 10 * n + digit_value c) 0 (decimal (n div 10)) = n div 10" by simp_all
    with False show ?thesis by (simp add: decimal.simps [of n] digit_char_value)
  qed
qed

lemma parse_u64_decimal: "n \<le> u64_max \<Longrightarrow> parse_u64 (decimal n) = Some n"
proof -
  assume n: "n \<le> u64_max"
  note d = decimal_digits [of n]
  then obtain c r where c: "decimal n = c # r" by (cases "decimal n") auto
  with d have "c \<noteq> CHR ''+''" by (auto simp: is_ascii_digit_def)
  with c d n show ?thesis by (simp add: parse_u64_def Let_def)
qed

end
