(* ===== verification/Credentials.thy ===== *)
theory Credentials
  imports Fetch Text_Std
begin

text \<open>
  \<open>src/credential.rs\<close>: the providers of credentials.  What they read from the process they run in
  (environment variables, the home directory, \<open>.netrc\<close>, the output of \<open>op\<close>, whether the
  \<open>onepassword\<close> feature was built in) is a record; a \<open>Secret\<close> is its text, zeroing of memory is left out.
\<close>

section \<open>The process\<close>

datatype env_var = Not_present | Not_unicode | Var string

record process =
  env_var :: "string \<Rightarrow> env_var"
  home_os :: "string option"
  read_text :: "string \<Rightarrow> io_error + string"
  file_mode :: "string \<Rightarrow> io_error + nat"
  run_op :: "string list \<Rightarrow> io_error + bool \<times> bytes"
  op_feature :: bool

text \<open>\<open>Path::join\<close>.\<close>

definition path_join :: "string \<Rightarrow> string \<Rightarrow> string" where
  "path_join a b =
     (if starts_with b ''/'' then b
      else if a = [] \<or> last a = CHR ''/'' then a @ b else a @ ''/'' @ b)"

section \<open>Static and chained providers\<close>

definition static_provider :: "(string \<times> credential) list \<Rightarrow> provider" where
  "static_provider cs =
     \<lparr>credential_for = (\<lambda>h. Inr (map_of cs h)),
      identity_for = (\<lambda>h. if map_of cs h \<noteq> None then Some (''static:'' @ h) else None)\<rparr>"

fun first_credential :: "provider list \<Rightarrow> string \<Rightarrow> datastore_error + credential option" where
  "first_credential [] h = Inr None"
| "first_credential (p # ps) h =
     bind_sum (credential_for p h) (\<lambda>c.
       case c of Some c \<Rightarrow> Inr (Some c) | None \<Rightarrow> first_credential ps h)"

fun first_identity :: "provider list \<Rightarrow> string \<Rightarrow> string option" where
  "first_identity [] h = None"
| "first_identity (p # ps) h =
     (case identity_for p h of Some i \<Rightarrow> Some i | None \<Rightarrow> first_identity ps h)"

definition chain_provider :: "provider list \<Rightarrow> provider" where
  "chain_provider ps = \<lparr>credential_for = first_credential ps, identity_for = first_identity ps\<rparr>"

text \<open>\<open>self.credential_for(host).ok().flatten().map(|_| ..)\<close>.\<close>

definition identity_if :: "(string \<Rightarrow> datastore_error + credential option) \<Rightarrow> string \<Rightarrow> string \<Rightarrow> string option" where
  "identity_if f kind h = (case f h of Inr (Some _) \<Rightarrow> Some (kind @ '':'' @ h) | _ \<Rightarrow> None)"

section \<open>Environment variables\<close>

text \<open>The variable for a host: every character that is not an ASCII letter or digit becomes \<open>_\<close>.\<close>

definition env_variable :: "string \<Rightarrow> string" where
  "env_variable h =
     ''STARFIELD_TOKEN_'' @ map (\<lambda>(c, s).
       case s of [b] \<Rightarrow> if is_ascii_alphanumeric b then to_ascii_uppercase b else CHR ''_''
       | _ \<Rightarrow> CHR ''_'') (str_pieces h)"

definition env_credential :: "process \<Rightarrow> string \<Rightarrow> datastore_error + credential option" where
  "env_credential P h =
     (case env_var P (env_variable h) of
        Var token \<Rightarrow> Inr (if token \<noteq> [] then Some (Bearer token None) else None)
      | Not_present \<Rightarrow> Inr None
      | Not_unicode \<Rightarrow> Inl (Config ''credential environment variable is not UTF-8''))"

definition env_provider :: "process \<Rightarrow> provider" where
  "env_provider P =
     \<lparr>credential_for = env_credential P, identity_for = identity_if (env_credential P) ''env''\<rparr>"

section \<open>Netrc\<close>

text \<open>The tokens of the text: quotes group, a backslash takes the next character as it is, an
  unquoted \<open>#\<close> starts a comment that ends with the line.\<close>

fun netrc_tokens ::
    "(nat \<times> string) list \<Rightarrow> string \<Rightarrow> bool \<Rightarrow> bool \<Rightarrow> bool \<Rightarrow> datastore_error + string list" where
  "netrc_tokens [] token quoted escaped comment =
     (if quoted \<or> escaped then Inl (Config ''invalid .netrc quoting'')
      else Inr (if token \<noteq> [] then [token] else []))"
| "netrc_tokens ((c, s) # cs) token quoted escaped comment =
     (if comment \<and> c \<noteq> 10 then netrc_tokens cs token quoted escaped True
      else if escaped then netrc_tokens cs (token @ s) quoted False False
      else if c = 0x5C then netrc_tokens cs token quoted True False
      else if c = 0x22 then netrc_tokens cs token (\<not> quoted) False False
      else
        let comment = (c = 0x23 \<and> \<not> quoted) in
        if (is_whitespace c \<or> comment) \<and> \<not> quoted
        then bind_sum (netrc_tokens cs [] quoted False comment) (\<lambda>ts.
               Inr (if token \<noteq> [] then token # ts else ts))
        else netrc_tokens cs (token @ s) quoted False comment)"

definition netrc_credential :: "string option \<Rightarrow> string option \<Rightarrow> datastore_error + credential option" where
  "netrc_credential user pass =
     (case (user, pass) of
        (Some u, Some p) \<Rightarrow> Inr (Some (Basic u p))
      | _ \<Rightarrow> Inl (Config ''.netrc machine needs login and password''))"

definition starts_entry :: "string \<Rightarrow> bool" where
  "starts_entry field \<longleftrightarrow> field = ''machine'' \<or> field = ''default''"

definition takes_value :: "string \<Rightarrow> bool" where
  "takes_value field \<longleftrightarrow> field = ''login'' \<or> field = ''password'' \<or> field = ''account''"

definition set_if :: "bool \<Rightarrow> 'a \<Rightarrow> 'a option \<Rightarrow> 'a option" where
  "set_if b v old = (if b then Some v else old)"

fun netrc_fields ::
    "string \<Rightarrow> string list \<Rightarrow> string option \<Rightarrow> string option \<Rightarrow> string option
      \<Rightarrow> datastore_error + credential option" where
  "netrc_fields h [] machine user pass =
     (if machine = Some h then netrc_credential user pass else Inr None)"
| "netrc_fields h (field # ts) machine user pass =
     (if starts_entry field
      then
        if machine = Some h then netrc_credential user pass
        else if field = ''default'' then netrc_fields h ts None None None
        else (case ts of
            [] \<Rightarrow> netrc_fields h [] None None None
          | m # ts \<Rightarrow> netrc_fields h ts (Some m) None None)
      else if takes_value field
      then
        (case ts of
            [] \<Rightarrow> Inl (Config ''incomplete .netrc entry'')
          | v # ts \<Rightarrow>
              netrc_fields h ts machine (set_if (field = ''login'') v user)
                (set_if (field = ''password'') v pass))
      else Inl (Config ''unsupported or malformed .netrc field''))"

definition parse_netrc :: "string \<Rightarrow> string \<Rightarrow> datastore_error + credential option" where
  "parse_netrc text h =
     bind_sum (netrc_tokens (str_pieces text) [] False False False) (\<lambda>ts.
       netrc_fields h ts None None None)"

definition netrc_lookup :: "process \<Rightarrow> string \<Rightarrow> datastore_error + credential option" where
  "netrc_lookup P h =
     (case home_os P of
        None \<Rightarrow> Inr None
      | Some home \<Rightarrow>
          (let p = path_join home ''.netrc'' in
           case read_text P p of
             Inl e \<Rightarrow> if io_kind e = Not_found then Inr None else Inl (Io e)
           | Inr text \<Rightarrow>
               bind_sum (map_error Io (file_mode P p)) (\<lambda>mode.
                 if mode mod 64 \<noteq> 0
                 then Inl (Config ''.netrc must not be accessible to group or other users (chmod 600)'')
                 else parse_netrc text h)))"

definition netrc_provider :: "process \<Rightarrow> provider" where
  "netrc_provider P =
     \<lparr>credential_for = netrc_lookup P, identity_for = identity_if (netrc_lookup P) ''netrc''\<rparr>"

section \<open>1Password\<close>

text \<open>The token of a field: the output without its line end.\<close>

definition op_token :: "datastore_error \<Rightarrow> datastore_error \<Rightarrow> io_error + bool \<times> bytes
    \<Rightarrow> datastore_error + credential option" where
  "op_token failed garbled output =
     bind_sum (map_error Io output) (\<lambda>(success, stdout).
       if \<not> success then Inl failed
       else
         bind_sum (ok_or garbled (from_utf8 stdout)) (\<lambda>text.
           let token = rev (dropWhile (\<lambda>c. c = CHR 0x0D \<or> c = CHR 0x0A) (rev text)) in
           Inr (if token = [] then None else Some (Bearer token None))))"

definition one_password_lookup :: "process \<Rightarrow> string \<Rightarrow> string \<Rightarrow> datastore_error + credential option" where
  "one_password_lookup P item h =
     (if \<not> starts_with item ''op://'' \<or> h = []
         \<or> \<not> list_all (\<lambda>b. is_ascii_alphanumeric b \<or> b \<in> set ''.-:'') h
      then Inl (Config ''invalid 1Password reference or host'')
      else
        op_token (Config ''1Password read failed'') (Config ''1Password field is not UTF-8'')
          (run_op P [''read'', trim_end_matches (CHR ''/'') item @ ''/'' @ h]))"

definition one_password_provider :: "process \<Rightarrow> string \<Rightarrow> provider" where
  "one_password_provider P item =
     \<lparr>credential_for = one_password_lookup P item,
      identity_for = (\<lambda>h. Some (''onepassword:'' @ h))\<rparr>"

section \<open>What a netrc file means\<close>

text \<open>A value in quotes, with quotes and backslashes escaped.\<close>

definition quote_char :: "char \<Rightarrow> string" where
  "quote_char c = (if c = CHR 0x22 \<or> c = CHR 0x5C then [CHR 0x5C, c] else [c])"

definition quoted :: "string \<Rightarrow> string" where
  "quoted s = [CHR 0x22] @ concat (map quote_char s) @ [CHR 0x22]"

definition netrc_entry :: "string \<times> string \<times> string \<Rightarrow> string" where
  "netrc_entry = (\<lambda>(m, u, p).
     ''machine '' @ quoted m @ '' login '' @ quoted u @ '' password '' @ quoted p @ [CHR 0x0A])"

abbreviation ascii_pieces :: "string \<Rightarrow> (nat \<times> string) list" where
  "ascii_pieces s \<equiv> map (\<lambda>c. (code c, [c])) s"

lemma code_inject: "code c = code d \<longleftrightarrow> c = d"
  by simp

lemma tokens_quoted:
  "netrc_tokens (ascii_pieces (concat (map quote_char s)) @ ascii_pieces (CHR 0x22 # r)) t True False False
     = netrc_tokens (ascii_pieces r) (t @ s) False False False"
proof (induction s arbitrary: t)
  case (Cons c s)
  have "code c = 0x5C \<longleftrightarrow> c = CHR 0x5C" "code c = 0x22 \<longleftrightarrow> c = CHR 0x22"
    using code_inject [of c "CHR 0x5C"] code_inject [of c "CHR 0x22"] by simp_all
  with Cons [of "t @ [c]"] show ?case by (simp add: quote_char_def Let_def)
qed simp

lemma tokens_quoted_word:
  "netrc_tokens (ascii_pieces (quoted s @ r)) t False False False
     = netrc_tokens (ascii_pieces r) (t @ s) False False False"
  using tokens_quoted [of s r t] by (simp add: quoted_def)

definition plain :: "char \<Rightarrow> bool" where
  "plain c \<longleftrightarrow> \<not> is_whitespace (code c) \<and> c \<notin> {CHR 0x5C, CHR 0x22, CHR ''#''}"

lemma tokens_word:
  "list_all plain w \<Longrightarrow> netrc_tokens (ascii_pieces (w @ r)) t False False False
     = netrc_tokens (ascii_pieces r) (t @ w) False False False"
proof (induction w arbitrary: t)
  case (Cons c w)
  have "code c \<noteq> 0x5C" "code c \<noteq> 0x22" "code c \<noteq> 0x23" "\<not> is_whitespace (code c)"
    using Cons.prems code_inject [of c "CHR 0x5C"] code_inject [of c "CHR 0x22"] code_inject [of c "CHR ''#''"]
    by (auto simp: plain_def)
  with Cons show ?case by (simp add: Let_def)
qed simp

lemma tokens_space:
  assumes "is_whitespace (code c)" "t \<noteq> []"
  shows "netrc_tokens (ascii_pieces (c # r)) t False False False
     = bind_sum (netrc_tokens (ascii_pieces r) [] False False False) (\<lambda>ts. Inr (t # ts))"
proof -
  have "code c \<noteq> 0x5C" "code c \<noteq> 0x22" "code c \<noteq> 0x23"
    using assms(1) by (auto simp: is_whitespace_def)
  with assms show ?thesis by (simp add: Let_def)
qed

lemma white [simp]: "is_whitespace 32" "is_whitespace 10"
  by (simp_all add: is_whitespace_def)

lemma white_chars: "is_whitespace (code (CHR '' ''))" "is_whitespace (code (CHR 0x0A))"
  by simp_all

lemma bind_sum_assoc: "bind_sum (bind_sum r f) g = bind_sum r (\<lambda>x. bind_sum (f x) g)"
  by (cases r) simp_all

lemma plain_words [simp]:
  "list_all plain ''machine''" "list_all plain ''login''" "list_all plain ''password''"
  by (simp_all add: plain_def is_whitespace_def)

lemma tokens_entry:
  assumes "m \<noteq> []" "u \<noteq> []" "p \<noteq> []"
  shows "netrc_tokens (ascii_pieces (netrc_entry (m, u, p) @ r)) [] False False False
     = bind_sum (netrc_tokens (ascii_pieces r) [] False False False) (\<lambda>ts.
         Inr ([''machine'', m, ''login'', u, ''password'', p] @ ts))"
proof -
  have e: "netrc_entry (m, u, p) @ r = ''machine'' @ CHR '' '' # quoted m @ CHR '' '' # ''login''
      @ CHR '' '' # quoted u @ CHR '' '' # ''password'' @ CHR '' '' # quoted p @ CHR 0x0A # r"
    by (simp add: netrc_entry_def)
  show ?thesis
    unfolding e
    by (simp only: tokens_word plain_words append_Nil tokens_quoted_word tokens_space white_chars
        assms list.distinct not_False_eq_True bind_sum_assoc bind_sum_simps)
      simp
qed

text \<open>The file of a list of entries, and what it holds for a host.\<close>

definition netrc_file :: "(string \<times> string \<times> string) list \<Rightarrow> string" where
  "netrc_file es = concat (map netrc_entry es)"

definition netrc_meaning :: "(string \<times> string \<times> string) list \<Rightarrow> string \<Rightarrow> credential option" where
  "netrc_meaning es h = map_option (\<lambda>(u, p). Basic u p) (map_of es h)"

definition complete :: "string \<times> string \<times> string \<Rightarrow> bool" where
  "complete = (\<lambda>(m, u, p). m \<noteq> [] \<and> u \<noteq> [] \<and> p \<noteq> [])"

lemma tokens_file:
  "list_all complete es \<Longrightarrow> netrc_tokens (ascii_pieces (netrc_file es)) [] False False False
     = Inr (concat (map (\<lambda>(m, u, p). [''machine'', m, ''login'', u, ''password'', p]) es))"
proof (induction es)
  case (Cons e es)
  then show ?case
    by (cases e) (simp add: netrc_file_def complete_def tokens_entry del: map_append)
qed (simp add: netrc_file_def)

lemma fields_file:
  "netrc_fields h (concat (map (\<lambda>(m, u, p). [''machine'', m, ''login'', u, ''password'', p]) es)) None None None
     = Inr (netrc_meaning es h)"
  "netrc_fields h (concat (map (\<lambda>(m, u, p). [''machine'', m, ''login'', u, ''password'', p]) es))
       (Some m) (Some u) (Some p)
     = Inr (if m = h then Some (Basic u p) else netrc_meaning es h)"
proof (induction es arbitrary: m u p)
  case Nil
  { case 1 show ?case by (simp add: netrc_meaning_def) }
  { case 2 show ?case by (simp add: netrc_meaning_def netrc_credential_def) }
next
  case (Cons e es)
  obtain m' u' p' where e: "e = (m', u', p')" by (cases e)
  note f = starts_entry_def takes_value_def set_if_def netrc_meaning_def netrc_credential_def
  { case 1 show ?case using Cons.IH(2) [of m' u' p'] by (simp add: e f) }
  { case 2 show ?case using Cons.IH(2) [of m' u' p'] by (simp add: e f) }
qed

lemma is_ascii_Nil [simp]: "is_ascii []"
  by (simp add: is_ascii_def)

lemma is_ascii_append [simp]: "is_ascii (a @ b) \<longleftrightarrow> is_ascii a \<and> is_ascii b"
  by (simp add: is_ascii_def)

lemma is_ascii_quoted: "is_ascii s \<Longrightarrow> is_ascii (quoted s)"
  by (induction s) (auto simp: quoted_def quote_char_def is_ascii_def)

lemma is_ascii_netrc_entry:
  "is_ascii m \<Longrightarrow> is_ascii u \<Longrightarrow> is_ascii p \<Longrightarrow> is_ascii (netrc_entry (m, u, p))"
proof -
  have "is_ascii ''machine ''" "is_ascii '' login ''" "is_ascii '' password ''" "is_ascii [CHR 0x0A]"
    by (simp_all add: is_ascii_def)
  then show "is_ascii m \<Longrightarrow> is_ascii u \<Longrightarrow> is_ascii p \<Longrightarrow> is_ascii (netrc_entry (m, u, p))"
    by (simp only: netrc_entry_def prod.case is_ascii_append is_ascii_quoted simp_thms)
qed

definition writable_entry :: "string \<times> string \<times> string \<Rightarrow> bool" where
  "writable_entry = (\<lambda>(m, u, p). complete (m, u, p) \<and> is_ascii m \<and> is_ascii u \<and> is_ascii p)"

lemma parse_netrc_file:
  assumes "list_all writable_entry es"
  shows "parse_netrc (netrc_file es) h = Inr (netrc_meaning es h)"
proof -
  have "is_ascii (netrc_file es)" using assms
    by (induction es) (auto simp: netrc_file_def writable_entry_def is_ascii_netrc_entry)
  moreover have "list_all complete es" using assms by (auto simp: list_all_iff writable_entry_def)
  ultimately show ?thesis
    by (simp add: parse_netrc_def str_pieces_ascii tokens_file fields_file)
qed

section \<open>Chains and identities\<close>

lemma first_credential_Some:
  "first_credential ps h = Inr (Some c) \<longleftrightarrow>
     (\<exists>qs p rs. ps = qs @ p # rs \<and> credential_for p h = Inr (Some c)
        \<and> (\<forall>q \<in> set qs. credential_for q h = Inr None))"
proof (induction ps)
  case (Cons p ps)
  show ?case
  proof (cases "credential_for p h = Inr None")
    case True
    then have "first_credential (p # ps) h = Inr (Some c) \<longleftrightarrow> first_credential ps h = Inr (Some c)" by simp
    also note Cons.IH
    also have "(\<exists>qs q rs. ps = qs @ q # rs \<and> credential_for q h = Inr (Some c)
          \<and> (\<forall>q \<in> set qs. credential_for q h = Inr None))
      \<longleftrightarrow> (\<exists>qs q rs. p # ps = qs @ q # rs \<and> credential_for q h = Inr (Some c)
          \<and> (\<forall>q \<in> set qs. credential_for q h = Inr None))"
      using True by (auto simp: Cons_eq_append_conv) (metis list.set_intros set_ConsD)+
    finally show ?thesis .
  next
    case False
    then have "first_credential (p # ps) h = Inr (Some c) \<longleftrightarrow> credential_for p h = Inr (Some c)"
      by (auto simp: bind_sum_def split: sum.splits option.splits)
    also have "\<dots> \<longleftrightarrow> (\<exists>qs q rs. p # ps = qs @ q # rs \<and> credential_for q h = Inr (Some c)
          \<and> (\<forall>q \<in> set qs. credential_for q h = Inr None))"
      using False by (auto simp: Cons_eq_append_conv intro: exI [of _ "[]"])
    finally show ?thesis .
  qed
qed simp

lemma map_env_variable: "is_ascii h \<Longrightarrow> env_variable h = ''STARFIELD_TOKEN_''
    @ map (\<lambda>b. if is_ascii_alphanumeric b then to_ascii_uppercase b else CHR ''_'') h"
  by (simp add: env_variable_def str_pieces_ascii comp_def)

end
