(* ===== verification/Credential_Config.thy ===== *)
theory Credential_Config
  imports Credentials
begin

text \<open>
  \<open>src/credential_config.rs\<close>: named credential entries of the configuration file.  An entry is
  read from and written to a map of \<open>serde_json\<close> values (ordered by key, as its \<open>Map\<close>); the
  texts of serde's own errors are a parameter.
\<close>

section \<open>Entries\<close>

datatype json =
    J_null
  | J_bool bool
  | J_number string
  | J_string string
  | J_array "json list"
  | J_object "(string \<times> json) list"

datatype credential_source =
    Env_source string
  | Basic_source string string
  | Netrc_source
  | OnePassword_source string
  | Unrecognized json

record credential_config =
  cc_name :: string
  cc_hosts :: "string list"
  cc_source :: credential_source

record skipped_credential =
  sk_name :: string
  sk_kind :: string

definition literal_secret_keys :: "string list" where
  "literal_secret_keys = [''password'', ''token'', ''secret'', ''api_key'']"

definition known_kinds :: "string list" where
  "known_kinds = [''env'', ''basic'', ''netrc'', ''onepassword'']"

definition kind_of :: "json \<Rightarrow> string" where
  "kind_of raw =
     (case raw of
        J_object t \<Rightarrow> (case map_of t ''type'' of Some (J_string k) \<Rightarrow> k | _ \<Rightarrow> ''<missing>'')
      | _ \<Rightarrow> ''<missing>'')"

fun source_kind :: "credential_source \<Rightarrow> string" where
  "source_kind (Env_source _) = ''env''"
| "source_kind (Basic_source _ _) = ''basic''"
| "source_kind Netrc_source = ''netrc''"
| "source_kind (OnePassword_source _) = ''onepassword''"
| "source_kind (Unrecognized raw) = kind_of raw"

section \<open>Reading an entry\<close>

fun contains_toml_datetime :: "json \<Rightarrow> bool" where
  "contains_toml_datetime (J_object t) =
     (list_ex (\<lambda>(k, _). starts_with k ''$__toml_private_'') t
      \<or> list_ex (\<lambda>(_, v). contains_toml_datetime v) t)"
| "contains_toml_datetime (J_array vs) = list_ex contains_toml_datetime vs"
| "contains_toml_datetime _ = False"

definition in_quotes :: "string \<Rightarrow> string" where
  "in_quotes s = [CHR 0x22] @ s @ [CHR 0x22]"

text \<open>The structs of the known types: exactly the named fields, all of them strings.\<close>

definition env_fields :: "(string \<times> json) list \<Rightarrow> credential_source option" where
  "env_fields t =
     (case t of
        [(k, J_string v)] \<Rightarrow> if k = ''variable'' then Some (Env_source v) else None
      | _ \<Rightarrow> None)"

definition basic_fields :: "(string \<times> json) list \<Rightarrow> credential_source option" where
  "basic_fields t =
     (case t of
        [(k, J_string p), (l, J_string u)] \<Rightarrow>
          if k = ''password_env'' \<and> l = ''username'' then Some (Basic_source u p) else None
      | _ \<Rightarrow> None)"

definition netrc_fields_of :: "(string \<times> json) list \<Rightarrow> credential_source option" where
  "netrc_fields_of t = (if t = [] then Some Netrc_source else None)"

definition one_password_fields :: "(string \<times> json) list \<Rightarrow> credential_source option" where
  "one_password_fields t =
     (case t of
        [(k, J_string v)] \<Rightarrow> if k = ''reference'' then Some (OnePassword_source v) else None
      | _ \<Rightarrow> None)"

definition known_fields :: "string \<Rightarrow> (string \<times> json) list \<Rightarrow> credential_source option" where
  "known_fields kind t =
     (if kind = ''env'' then env_fields t
      else if kind = ''basic'' then basic_fields t
      else if kind = ''netrc'' then netrc_fields_of t
      else one_password_fields t)"

definition remove_key :: "string \<Rightarrow> (string \<times> json) list \<Rightarrow> (string \<times> json) list" where
  "remove_key k t = filter (\<lambda>(k', _). k' \<noteq> k) t"

text \<open>\<open>E\<close> is the text of the error serde reports for fields that do not fit.\<close>

definition decode_source ::
    "((string \<times> json) list \<Rightarrow> string) \<Rightarrow> string \<Rightarrow> (string \<times> json) list \<Rightarrow> string + credential_source" where
  "decode_source E name raw =
     (case map_of raw ''type'' of
        Some (J_string kind) \<Rightarrow>
          if kind \<notin> set known_kinds
          then (if contains_toml_datetime (J_object raw)
                then Inl (''credential '' @ in_quotes name @ '' (type '' @ kind
                  @ ''): datetime values are not supported in credential entries'')
                else Inr (Unrecognized (J_object raw)))
          else
            (case find (\<lambda>k. map_of raw k \<noteq> None) literal_secret_keys of
               Some k \<Rightarrow> Inl (''credential '' @ in_quotes name @ '' carries a literal `'' @ k
                 @ ''`; name an environment variable with `'' @ k
                 @ ''_env` or use netrc/onepassword instead'')
             | None \<Rightarrow>
                 (let fs = remove_key ''type'' raw in
                  ok_or (''credential '' @ in_quotes name @ '' (type '' @ kind @ ''): '' @ E fs)
                    (known_fields kind fs)))
      | Some _ \<Rightarrow> Inl (''credential '' @ in_quotes name @ '': `type` must be a string'')
      | None \<Rightarrow> Inl (''credential '' @ in_quotes name @ '' has no `type`''))"

text \<open>\<open>Deserialize for CredentialConfig\<close>: \<open>name\<close>, \<open>hosts\<close> (none by default), and the rest.\<close>

definition json_text :: "json \<Rightarrow> string option" where
  "json_text v = (case v of J_string s \<Rightarrow> Some s | _ \<Rightarrow> None)"

definition json_texts :: "json \<Rightarrow> string list option" where
  "json_texts v = (case v of J_array vs \<Rightarrow> those (map json_text vs) | _ \<Rightarrow> None)"

definition decode_credential ::
    "((string \<times> json) list \<Rightarrow> string) \<Rightarrow> (string \<times> json) list \<Rightarrow> string + credential_config" where
  "decode_credential E t =
     bind_sum (ok_or (E t) (Option.bind (map_of t ''name'') json_text)) (\<lambda>name.
     bind_sum (case map_of t ''hosts'' of
         None \<Rightarrow> Inr []
       | Some v \<Rightarrow> ok_or (E t) (json_texts v)) (\<lambda>hosts.
     bind_sum (decode_source E name (remove_key ''hosts'' (remove_key ''name'' t))) (\<lambda>src.
       Inr \<lparr>cc_name = name, cc_hosts = hosts, cc_source = src\<rparr>)))"

section \<open>Writing an entry\<close>

text \<open>\<open>Map::insert\<close>.\<close>

fun map_insert :: "string \<Rightarrow> json \<Rightarrow> (string \<times> json) list \<Rightarrow> (string \<times> json) list" where
  "map_insert k v [] = [(k, v)]"
| "map_insert k v ((k', v') # t) =
     (if k < k' then (k, v) # (k', v') # t
      else if k = k' then (k, v) # t
      else (k', v') # map_insert k v t)"

fun insert_fields ::
    "string \<Rightarrow> (string \<times> json) list \<Rightarrow> (string \<times> json) list \<Rightarrow> string + (string \<times> json) list" where
  "insert_fields name [] t = Inr t"
| "insert_fields name ((k, v) # fs) t =
     (if k = ''name'' \<or> k = ''hosts''
      then Inl (''credential '' @ in_quotes name @ '': unrecognised source must not carry a `'' @ k
             @ ''` key'')
      else insert_fields name fs (map_insert k v t))"

definition source_table :: "credential_source \<Rightarrow> (string \<times> json) list" where
  "source_table src =
     (case src of
        Env_source v \<Rightarrow> [(''type'', J_string ''env''), (''variable'', J_string v)]
      | Basic_source u p \<Rightarrow>
          [(''type'', J_string ''basic''), (''username'', J_string u), (''password_env'', J_string p)]
      | Netrc_source \<Rightarrow> [(''type'', J_string ''netrc'')]
      | OnePassword_source r \<Rightarrow> [(''type'', J_string ''onepassword''), (''reference'', J_string r)]
      | Unrecognized _ \<Rightarrow> [])"

definition encode_credential :: "credential_config \<Rightarrow> string + (string \<times> json) list" where
  "encode_credential c =
     (let t = map_insert ''hosts'' (J_array (map J_string (cc_hosts c)))
                (map_insert ''name'' (J_string (cc_name c)) []) in
      case cc_source c of
        Unrecognized (J_object fs) \<Rightarrow> insert_fields (cc_name c) fs t
      | Unrecognized _ \<Rightarrow>
          Inl (''credential '' @ in_quotes (cc_name c) @ '': unrecognised source is not a table'')
      | src \<Rightarrow> Inr (foldl (\<lambda>t (k, v). map_insert k v t) t (source_table src)))"

section \<open>Checking entries\<close>

definition is_bare_host :: "string \<Rightarrow> bool" where
  "is_bare_host h \<longleftrightarrow>
     (let h = trim h in
      h \<noteq> [] \<and> list_all (\<lambda>b. is_ascii_alphanumeric b \<or> b = CHR ''.'' \<or> b = CHR ''-'') h)"

definition invalid_entry :: "credential_config \<Rightarrow> string \<Rightarrow> datastore_error" where
  "invalid_entry e detail = Config (''credential '' @ in_quotes (cc_name e) @ '': '' @ detail)"

definition source_complete :: "credential_source \<Rightarrow> string + unit" where
  "source_complete src =
     (case src of
        Env_source v \<Rightarrow> if trim v = [] then Inl ''`variable` is empty'' else Inr ()
      | Basic_source u p \<Rightarrow>
          if u = [] \<or> trim p = [] then Inl ''`username` and `password_env` are required'' else Inr ()
      | OnePassword_source r \<Rightarrow>
          if \<not> starts_with r ''op://'' then Inl ''`reference` must start with op://'' else Inr ()
      | _ \<Rightarrow> Inr ())"

definition validate_entry :: "string set \<Rightarrow> credential_config \<Rightarrow> datastore_error + unit" where
  "validate_entry names e =
     (if trim (cc_name e) = [] then Inl (Config ''a credential entry has an empty name'')
      else if cc_name e \<in> names then Inl (invalid_entry e ''name is used twice'')
      else if cc_hosts e = [] then Inl (invalid_entry e ''lists no hosts'')
      else
        (case find (\<lambda>h. \<not> is_bare_host h) (cc_hosts e) of
           Some h \<Rightarrow> Inl (invalid_entry e (''host '' @ debug_str h
             @ '' must be a bare hostname: no port, path, scheme or wildcard''))
         | None \<Rightarrow> map_error (invalid_entry e) (source_complete (cc_source e))))"

fun validate_from :: "string set \<Rightarrow> credential_config list \<Rightarrow> datastore_error + unit" where
  "validate_from names [] = Inr ()"
| "validate_from names (e # es) =
     bind_sum (validate_entry names e) (\<lambda>_. validate_from (insert (cc_name e) names) es)"

definition validate_entries :: "credential_config list \<Rightarrow> datastore_error + unit" where
  "validate_entries = validate_from {}"

section \<open>The provider of a selection\<close>

type_synonym by_host = "(string \<times> credential_config) list"

definition normal_host :: "string \<Rightarrow> string" where
  "normal_host h = ascii_lowercase (trim h)"

fun claim_hosts :: "credential_config \<Rightarrow> string list \<Rightarrow> by_host \<Rightarrow> datastore_error + by_host" where
  "claim_hosts e [] m = Inr m"
| "claim_hosts e (h # hs) m =
     (case map_of m h of
        Some other \<Rightarrow> Inl (Config (''host '' @ h @ '' is claimed by both credential ''
          @ in_quotes (cc_name other) @ '' and '' @ in_quotes (cc_name e) @ '' in the same selection''))
      | None \<Rightarrow> claim_hosts e hs ((h, e) # m))"

fun select_entries ::
    "credential_config list \<Rightarrow> by_host \<Rightarrow> datastore_error + by_host \<times> skipped_credential list" where
  "select_entries [] m = Inr (m, [])"
| "select_entries (e # es) m =
     (case cc_source e of
        Unrecognized raw \<Rightarrow>
          bind_sum (select_entries es m) (\<lambda>(m, skipped).
            Inr (m, \<lparr>sk_name = cc_name e, sk_kind = kind_of raw\<rparr> # skipped))
      | _ \<Rightarrow>
          (let e = e\<lparr>cc_hosts := map normal_host (cc_hosts e)\<rparr> in
           bind_sum (claim_hosts e (cc_hosts e) m) (select_entries es)))"

definition read_env :: "process \<Rightarrow> string \<Rightarrow> string option" where
  "read_env P v = (case env_var P v of Var t \<Rightarrow> if t = [] then None else Some t | _ \<Rightarrow> None)"

definition one_password :: "process \<Rightarrow> string \<Rightarrow> string \<Rightarrow> datastore_error + credential option" where
  "one_password P name reference =
     (if op_feature P
      then op_token
        (Config (''credential '' @ in_quotes name @ '': `op read` failed for its reference''))
        (Config (''credential '' @ in_quotes name @ '': 1Password field is not UTF-8''))
        (run_op P [''read'', reference])
      else Inl (Config (''credential '' @ in_quotes name
        @ '' uses 1Password, but this build has no `onepassword` feature'')))"

definition unset :: "credential_config \<Rightarrow> string \<Rightarrow> string \<Rightarrow> datastore_error" where
  "unset e h v = Config (''credential '' @ in_quotes (cc_name e) @ '' for '' @ h
     @ '' needs environment variable '' @ v @ '', which is not set'')"

definition entry_credential ::
    "process \<Rightarrow> credential_config \<Rightarrow> string \<Rightarrow> datastore_error + credential option" where
  "entry_credential P e h =
     (case cc_source e of
        Env_source v \<Rightarrow>
          bind_sum (ok_or (unset e h v) (read_env P v)) (\<lambda>t. Inr (Some (Bearer t None)))
      | Basic_source u p \<Rightarrow>
          bind_sum (ok_or (unset e h p) (read_env P p)) (\<lambda>t. Inr (Some (Basic u t)))
      | Netrc_source \<Rightarrow> netrc_lookup P h
      | OnePassword_source r \<Rightarrow> one_password P (cc_name e) r
      | Unrecognized _ \<Rightarrow> Inr None)"

definition config_provider :: "process \<Rightarrow> by_host \<Rightarrow> provider" where
  "config_provider P m =
     \<lparr>credential_for = (\<lambda>h. case map_of m (ascii_lowercase h) of
         None \<Rightarrow> Inr None | Some e \<Rightarrow> entry_credential P e h),
      identity_for = (\<lambda>h. map_option (\<lambda>e. ''config:'' @ cc_name e) (map_of m (ascii_lowercase h)))\<rparr>"

definition configured_provider ::
    "process \<Rightarrow> credential_config list \<Rightarrow> datastore_error + provider \<times> skipped_credential list" where
  "configured_provider P es =
     bind_sum (validate_entries es) (\<lambda>_.
     bind_sum (select_entries es []) (\<lambda>(m, skipped). Inr (config_provider P m, skipped)))"

definition show_skipped :: "skipped_credential \<Rightarrow> string" where
  "show_skipped s = ''credential '' @ in_quotes (sk_name s) @ '' has unrecognised type ''
     @ in_quotes (sk_kind s) @ '' and is skipped; its hosts get no credential from this entry''"

section \<open>Ordered maps\<close>

definition ordered :: "(string \<times> json) list \<Rightarrow> bool" where
  "ordered t \<longleftrightarrow> sorted_wrt (<) (map fst t)"

lemma map_of_map_insert [simp]: "map_of (map_insert k v t) = (map_of t)(k \<mapsto> v)"
  by (induction k v t rule: map_insert.induct) auto

lemma keys_map_insert: "fst ` set (map_insert k v t) = insert k (fst ` set t)"
  by (induction k v t rule: map_insert.induct) auto

lemma ordered_map_insert [simp]: "ordered t \<Longrightarrow> ordered (map_insert k v t)"
proof (induction k v t rule: map_insert.induct)
  case (2 k v k' v' t)
  have "fst ` set (map_insert k v t) = insert k (fst ` set t)" by (rule keys_map_insert)
  with 2 show ?case by (fastforce simp: ordered_def)
qed (simp add: ordered_def)

lemma ordered_remove_key [simp]: "ordered t \<Longrightarrow> ordered (remove_key k t)"
  by (induction t) (auto simp: ordered_def remove_key_def)

lemma map_of_remove_key [simp]: "map_of (remove_key k t) = (map_of t)(k := None)"
  by (induction t) (auto simp: remove_key_def fun_eq_iff)

lemma ordered_eq:
  assumes "ordered s" "ordered t" "map_of s = map_of t"
  shows "s = t"
proof -
  have d: "distinct (map fst s)" "distinct (map fst t)" "sorted (map fst s)" "sorted (map fst t)"
    using assms by (auto simp: ordered_def strict_sorted_iff)
  then have "set s = set t" using assms(3) by (metis map_of_inject_set)
  with d show ?thesis
    by (intro map_sorted_distinct_set_unique [of fst])
       (auto simp: distinct_map intro: inj_on_subset)
qed

lemma insert_fields_Inr:
  "insert_fields name fs t = Inr u \<Longrightarrow> ordered t \<Longrightarrow>
     ordered u \<and> map_of u = map_of t ++ map_of (rev fs) \<and> ''name'' \<notin> fst ` set fs \<and> ''hosts'' \<notin> fst ` set fs"
proof (induction fs arbitrary: t)
  case (Cons f fs)
  obtain k v where f: "f = (k, v)" by (cases f)
  with Cons.prems(1) have k: "k \<noteq> ''name''" "k \<noteq> ''hosts''"
    and i: "insert_fields name fs (map_insert k v t) = Inr u" by (auto split: if_splits)
  from Cons.IH [OF i] Cons.prems(2) k f show ?case by (auto simp: map_add_def fun_eq_iff split: option.splits)
qed simp

section \<open>Entries round-trip\<close>

definition source_wf :: "credential_source \<Rightarrow> bool" where
  "source_wf src \<longleftrightarrow>
     (\<forall>raw. src = Unrecognized raw \<longrightarrow> (\<exists>fs k. raw = J_object fs \<and> ordered fs
        \<and> map_of fs ''type'' = Some (J_string k) \<and> k \<notin> set known_kinds
        \<and> \<not> contains_toml_datetime raw))"

lemma those_texts: "those (map json_text (map J_string hs)) = Some hs"
  by (induction hs) (simp_all add: json_text_def)

lemma decode_credential_steps:
  assumes "map_of t ''name'' = Some (J_string n)" "map_of t ''hosts'' = Some (J_array (map J_string hs))"
    and "decode_source E n (remove_key ''hosts'' (remove_key ''name'' t)) = Inr src"
  shows "decode_credential E t = Inr \<lparr>cc_name = n, cc_hosts = hs, cc_source = src\<rparr>"
  using assms those_texts [of hs]
  by (simp add: decode_credential_def json_text_def json_texts_def del: map_map)

lemma ordered_base:
  "ordered (map_insert ''hosts'' h (map_insert ''name'' n []))"
  by (intro ordered_map_insert) (simp add: ordered_def)

lemmas decode_known = decode_source_def known_kinds_def literal_secret_keys_def known_fields_def
  env_fields_def basic_fields_def netrc_fields_of_def one_password_fields_def Let_def

lemma less_words:
  "''hosts'' < (''name'' :: string)" "''name'' < (''type'' :: string)" "''hosts'' < (''type'' :: string)"
  "''type'' < (''variable'' :: string)" "''type'' < (''username'' :: string)"
  "''password_env'' < (''type'' :: string)" "''name'' < (''password_env'' :: string)"
  "''hosts'' < (''password_env'' :: string)" "''name'' < (''reference'' :: string)"
  "''hosts'' < (''reference'' :: string)" "''reference'' < (''type'' :: string)"
  "''password_env'' < (''username'' :: string)" "''name'' < (''variable'' :: string)"
  "''hosts'' < (''variable'' :: string)" "''name'' < (''username'' :: string)"
  "''hosts'' < (''username'' :: string)"
  by (simp_all add: less_char_def)

lemma known_raw:
  assumes "\<forall>raw. src \<noteq> Unrecognized raw"
  shows "remove_key ''hosts'' (remove_key ''name'' (foldl (\<lambda>t (k, v). map_insert k v t)
     (map_insert ''hosts'' h (map_insert ''name'' n [])) (source_table src)))
    = (case src of
        Env_source v \<Rightarrow> [(''type'', J_string ''env''), (''variable'', J_string v)]
      | Basic_source u p \<Rightarrow>
          [(''password_env'', J_string p), (''type'', J_string ''basic''), (''username'', J_string u)]
      | Netrc_source \<Rightarrow> [(''type'', J_string ''netrc'')]
      | OnePassword_source r \<Rightarrow> [(''reference'', J_string r), (''type'', J_string ''onepassword'')]
      | Unrecognized _ \<Rightarrow> [])"
proof (rule ordered_eq)
  show "ordered (remove_key ''hosts'' (remove_key ''name'' (foldl (\<lambda>t (k, v). map_insert k v t)
     (map_insert ''hosts'' h (map_insert ''name'' n [])) (source_table src))))"
    using ordered_base [of h n]
    by (cases src) (simp_all add: source_table_def del: map_insert.simps)
qed (use assms less_words in \<open>cases src; auto simp: ordered_def source_table_def\<close>)+

lemma decode_encode_credential:
  assumes "encode_credential c = Inr t" "source_wf (cc_source c)"
  shows "decode_credential E t = Inr c"
proof -
  let ?h = "J_array (map J_string (cc_hosts c))"
  let ?b = "map_insert ''hosts'' ?h (map_insert ''name'' (J_string (cc_name c)) [])"
  have c: "c = \<lparr>cc_name = cc_name c, cc_hosts = cc_hosts c, cc_source = cc_source c\<rparr>" by simp
  show ?thesis
  proof (cases "\<exists>raw. cc_source c = Unrecognized raw")
    case True
    with assms(2) obtain fs k where u: "cc_source c = Unrecognized (J_object fs)" "ordered fs"
      "map_of fs ''type'' = Some (J_string k)" "k \<notin> set known_kinds"
      "\<not> contains_toml_datetime (J_object fs)" by (auto simp: source_wf_def)
    with assms(1) have i: "insert_fields (cc_name c) fs ?b = Inr t"
      by (simp add: encode_credential_def Let_def)
    have rev: "map_of (rev fs) = map_of fs"
      using u(2) by (intro map_of_inject_set [THEN iffD2])
        (auto simp: ordered_def strict_sorted_iff rev_map [symmetric])
    note t = insert_fields_Inr [OF i ordered_base, unfolded rev]
    have n: "map_of fs ''name'' = None" "map_of fs ''hosts'' = None"
      using t by (auto simp: map_of_eq_None_iff)
    have raw: "remove_key ''hosts'' (remove_key ''name'' t) = fs"
      by (rule ordered_eq) (use t u(2) n in \<open>auto simp: fun_eq_iff map_add_def split: option.splits\<close>)
    have "decode_source E (cc_name c) fs = Inr (Unrecognized (J_object fs))"
      using u by (simp add: decode_source_def)
    then have "decode_credential E t = Inr \<lparr>cc_name = cc_name c, cc_hosts = cc_hosts c,
        cc_source = Unrecognized (J_object fs)\<rparr>"
      using t n raw by (intro decode_credential_steps) (simp_all add: map_add_def)
    with c u(1) show ?thesis by simp
  next
    case False
    let ?t = "foldl (\<lambda>t (k, v). map_insert k v t) ?b (source_table (cc_source c))"
    have t: "t = ?t" using assms(1) False
      by (cases "cc_source c") (simp_all add: encode_credential_def Let_def)
    have "decode_source E (cc_name c) (remove_key ''hosts'' (remove_key ''name'' ?t)) = Inr (cc_source c)"
      unfolding known_raw [OF False [simplified]]
      by (cases "cc_source c") (use False in \<open>simp_all add: decode_known remove_key_def\<close>)
    then have "decode_credential E ?t = Inr \<lparr>cc_name = cc_name c, cc_hosts = cc_hosts c,
        cc_source = cc_source c\<rparr>"
      by (intro decode_credential_steps; cases "cc_source c")
        (simp_all add: source_table_def del: map_insert.simps)
    with c t show ?thesis by simp
  qed
qed

section \<open>A selection\<close>

definition recognized :: "credential_config \<Rightarrow> bool" where
  "recognized e \<longleftrightarrow> (\<forall>raw. cc_source e \<noteq> Unrecognized raw)"

definition claims :: "credential_config \<Rightarrow> string \<Rightarrow> bool" where
  "claims e h \<longleftrightarrow> recognized e \<and> h \<in> set (map normal_host (cc_hosts e))"

definition normalized :: "credential_config \<Rightarrow> credential_config" where
  "normalized e = e\<lparr>cc_hosts := map normal_host (cc_hosts e)\<rparr>"

definition skipped_of :: "credential_config \<Rightarrow> skipped_credential" where
  "skipped_of e = \<lparr>sk_name = cc_name e, sk_kind = source_kind (cc_source e)\<rparr>"

lemma validate_entry_Inr:
  assumes "validate_entry names e = Inr u"
  shows "trim (cc_name e) \<noteq> [] \<and> cc_name e \<notin> names \<and> cc_hosts e \<noteq> []
    \<and> (\<forall>h \<in> set (cc_hosts e). is_bare_host h) \<and> source_complete (cc_source e) = Inr ()"
  using assms by (auto simp: validate_entry_def find_None_iff split: if_splits option.splits)

lemma validate_from_Inr:
  "validate_from names es = Inr u \<Longrightarrow> distinct (map cc_name es)
     \<and> (\<forall>e \<in> set es. cc_name e \<notin> names \<and> validate_entry {} e = Inr ())"
proof (induction names es rule: validate_from.induct)
  case (2 names e es)
  then have e: "validate_entry names e = Inr ()"
    and es: "validate_from (insert (cc_name e) names) es = Inr u"
    by (auto simp: bind_sum_Inr_iff)
  have "validate_entry {} e = Inr ()"
    using e validate_entry_Inr [OF e] by (simp add: validate_entry_def)
  with "2.IH" [OF es] e validate_entry_Inr [OF e] show ?case by auto
qed simp

lemma claim_hosts_Inr:
  "claim_hosts e hs m = Inr m' \<Longrightarrow>
     map_of m' = (\<lambda>h. if h \<in> set hs then Some e else map_of m h) \<and> (\<forall>h \<in> set hs. map_of m h = None)"
  by (induction hs arbitrary: m) (force split: option.splits if_splits)+

lemma select_entries_Inr:
  "select_entries es m = Inr (m', sk) \<Longrightarrow>
     (\<forall>h e'. map_of m' h = Some e' \<longleftrightarrow>
        map_of m h = Some e' \<or> (\<exists>e \<in> set es. claims e h \<and> e' = normalized e))
     \<and> sk = map skipped_of (filter (\<lambda>e. \<not> recognized e) es)"
proof (induction es arbitrary: m sk)
  case (Cons e es)
  show ?case
  proof (cases "recognized e")
    case False
    then obtain raw where r: "cc_source e = Unrecognized raw" by (auto simp: recognized_def)
    with Cons.prems obtain sk' where
      "select_entries es m = Inr (m', sk')" "sk = skipped_of e # sk'"
      by (auto simp: bind_sum_Inr_iff skipped_of_def)
    with Cons.IH False show ?thesis by (auto simp: claims_def)
  next
    case True
    let ?e = "normalized e"
    have "select_entries (e # es) m = bind_sum (claim_hosts ?e (cc_hosts ?e) m) (select_entries es)"
      using True by (cases "cc_source e") (simp_all add: recognized_def normalized_def Let_def)
    with Cons.prems have
      "bind_sum (claim_hosts ?e (cc_hosts ?e) m) (select_entries es) = Inr (m', sk)" by metis
    then obtain m1 where
      c: "claim_hosts ?e (cc_hosts ?e) m = Inr m1" and s: "select_entries es m1 = Inr (m', sk)"
      by (rule bind_sum_InrE)
    from claim_hosts_Inr [OF c] have
      m1: "map_of m1 h = Some e' \<longleftrightarrow> map_of m h = Some e' \<or> claims e h \<and> e' = ?e" for h e'
      using True by (auto simp: claims_def normalized_def split: if_splits)
    from Cons.IH [OF s] True m1 show ?thesis by auto
  qed
qed simp

lemma entry_credential_normalized [simp]: "entry_credential P (normalized e) h = entry_credential P e h"
  by (cases "cc_source e") (simp_all add: entry_credential_def normalized_def unset_def)

lemma cc_name_normalized [simp]: "cc_name (normalized e) = cc_name e"
  by (simp add: normalized_def)

lemma configured_provider_Inr:
  assumes "configured_provider P es = Inr (p, sk)"
  shows "\<And>e h. e \<in> set es \<Longrightarrow> claims e (ascii_lowercase h) \<Longrightarrow>
           credential_for p h = entry_credential P e h \<and> identity_for p h = Some (''config:'' @ cc_name e)"
    and "\<And>h. \<not> (\<exists>e \<in> set es. claims e (ascii_lowercase h)) \<Longrightarrow>
           credential_for p h = Inr None \<and> identity_for p h = None"
    and "\<And>e e' h. e \<in> set es \<Longrightarrow> e' \<in> set es \<Longrightarrow> claims e h \<Longrightarrow> claims e' h \<Longrightarrow> e = e'"
    and "sk = map skipped_of (filter (\<lambda>e. \<not> recognized e) es)"
proof -
  from assms obtain m where v: "validate_entries es = Inr ()" and s: "select_entries es [] = Inr (m, sk)"
    and p: "p = config_provider P m"
    unfolding configured_provider_def by (auto simp: bind_sum_Inr_iff)
  have m: "map_of m h = Some e' \<longleftrightarrow> (\<exists>e \<in> set es. claims e h \<and> e' = normalized e)" for h e'
    using select_entries_Inr [OF s] by simp
  show "sk = map skipped_of (filter (\<lambda>e. \<not> recognized e) es)" using select_entries_Inr [OF s] by simp
  show "credential_for p h = entry_credential P e h \<and> identity_for p h = Some (''config:'' @ cc_name e)"
    if "e \<in> set es" "claims e (ascii_lowercase h)" for e h
  proof -
    have "map_of m (ascii_lowercase h) = Some (normalized e)" using m that by blast
    then show ?thesis by (simp add: p config_provider_def)
  qed
  show "credential_for p h = Inr None \<and> identity_for p h = None"
    if "\<not> (\<exists>e \<in> set es. claims e (ascii_lowercase h))" for h
  proof -
    have "map_of m (ascii_lowercase h) = None" using m that by (cases "map_of m (ascii_lowercase h)") auto
    then show ?thesis by (simp add: p config_provider_def)
  qed
  show "e = e'" if "e \<in> set es" "e' \<in> set es" "claims e h" "claims e' h" for e e' h
  proof -
    have "normalized e = normalized e'" using m [of h] that by (metis option.inject)
    then have "cc_name e = cc_name e'" using cc_name_normalized by metis
    with that v validate_from_Inr [of "{}" es] show ?thesis
      by (auto simp: validate_entries_def distinct_map dest: inj_onD)
  qed
qed

text \<open>An entry of a known type never holds a literal secret.\<close>

lemma known_fields_None:
  assumes "map_of t k \<noteq> None" "k \<in> set literal_secret_keys"
  shows "\<exists>e. decode_source E n t = Inl e \<or> (\<exists>raw. decode_source E n t = Inr (Unrecognized raw))"
proof -
  have "find (\<lambda>k. map_of t k \<noteq> None) literal_secret_keys \<noteq> None"
    using assms by (auto simp: find_None_iff)
  then show ?thesis
    by (auto simp: decode_source_def Let_def split: option.splits json.splits if_splits)
qed

end
