(* ===== verification/Credential_Properties.thy ===== *)
theory Credential_Properties
  imports Credential_Config Example
begin

text \<open>The properties of the credential providers and of credential entries.\<close>

section \<open>The example process\<close>

text \<open>One token variable, no \<open>.netrc\<close>.\<close>

definition demo_process :: process where
  "demo_process =
     \<lparr>env_var = (\<lambda>v. if v = ''STARFIELD_TOKEN_A_B'' then Var ''tok'' else Not_present),
      home_os = Some ''/home/u'', read_text = (\<lambda>_. Inl not_found_error), file_mode = (\<lambda>_. Inr 384),
      run_op = (\<lambda>_. Inl not_found_error), op_feature = False\<rparr>"

definition demo_credential :: credential_config where
  "demo_credential = \<lparr>cc_name = ''n'', cc_hosts = ['' A.B ''], cc_source = Netrc_source\<rparr>"

definition demo_future :: credential_config where
  "demo_future = \<lparr>cc_name = ''f'', cc_hosts = [''a.b''],
     cc_source = Unrecognized (J_object [(''level'', J_number ''3''), (''type'', J_string ''vault'')])\<rparr>"

section \<open>Netrc\<close>

text \<open>C37: a netrc file written with quoted values (any ASCII text, with spaces, quotes, backslashes or
  hash signs) yields for a host the login and password of the first entry for that machine, and
  nothing when there is none.\<close>

theorem netrc_reads_what_is_written:
  assumes "list_all writable_entry es"
  shows "parse_netrc (netrc_file es) h
     = Inr (map_option (\<lambda>(u, p). Basic u p) (map_of es h))"
  using parse_netrc_file [OF assms] by (simp add: netrc_meaning_def)

lemma netrc_reads_what_is_written_witness:
  "parse_netrc (netrc_file [(''a.b'', ''me'', ''p # 1''), (''c'', ''x'', ''y'')]) ''a.b''
     = Inr (Some (Basic ''me'' ''p # 1''))"
  using netrc_reads_what_is_written [of "[(''a.b'', ''me'', ''p # 1''), (''c'', ''x'', ''y'')]" "''a.b''"]
  by (simp add: writable_entry_def complete_def is_ascii_def)

section \<open>Entries\<close>

text \<open>C38: an entry that is written reads back as the same entry, entries of unknown type included.\<close>

theorem credential_entry_round_trips:
  assumes "encode_credential c = Inr t" "source_wf (cc_source c)"
  shows "decode_credential E t = Inr c"
  by (rule decode_encode_credential [OF assms])

lemma demo_future_encoded: "is_ok (encode_credential demo_future)"
  by code_simp

lemma credential_entry_round_trips_witness:
  "\<exists>t. encode_credential demo_future = Inr t \<and> decode_credential (\<lambda>_. ''malformed'') t = Inr demo_future"
proof -
  obtain t where t: "encode_credential demo_future = Inr t"
    using demo_future_encoded by (auto simp: is_ok_iff)
  have "source_wf (cc_source demo_future)"
    by (simp add: source_wf_def demo_future_def ordered_def known_kinds_def starts_with_def less_char_def)
  from credential_entry_round_trips [OF t this] t show ?thesis by blast
qed

text \<open>C39: no entry of a known type that is read carries a literal secret.\<close>

theorem known_entries_hold_no_secret:
  assumes "decode_credential E t = Inr c" "recognized c" "k \<in> set literal_secret_keys"
  shows "map_of t k = None"
proof (rule ccontr)
  assume "map_of t k \<noteq> None"
  moreover have "k \<noteq> ''name''" "k \<noteq> ''hosts''" using assms(3) by (auto simp: literal_secret_keys_def)
  ultimately have "map_of (remove_key ''hosts'' (remove_key ''name'' t)) k \<noteq> None" by simp
  note no = known_fields_None [OF this assms(3)]
  from assms(1) obtain n where
    "decode_source E n (remove_key ''hosts'' (remove_key ''name'' t)) = Inr (cc_source c)"
    by (auto simp: decode_credential_def bind_sum_Inr_iff)
  with no [of E n] assms(2) show False by (auto simp: recognized_def)
qed

definition demo_table :: "(string \<times> json) list" where
  "demo_table = [(''hosts'', J_array [J_string ''h'']), (''name'', J_string ''n''),
     (''type'', J_string ''env''), (''variable'', J_string ''V'')]"

lemma demo_table_decoded: "decode_credential (\<lambda>_. []) demo_table
    = Inr \<lparr>cc_name = ''n'', cc_hosts = [''h''], cc_source = Env_source ''V''\<rparr>"
  by code_simp

lemma known_entries_hold_no_secret_witness: "map_of demo_table ''password'' = None"
  by (rule known_entries_hold_no_secret [OF demo_table_decoded])
    (simp_all add: recognized_def literal_secret_keys_def)

section \<open>Selections\<close>

text \<open>In a selection that is accepted, a host has the credential and the identity of the one entry
  of a known type that claims it (whatever the case of the name), or none; entries of unknown type
  are reported and contribute nothing.\<close>

theorem selection_is_unambiguous:
  assumes "configured_provider P es = Inr (p, sk)"
  shows "((\<exists>e \<in> set es. claims e (ascii_lowercase h)
        \<and> (\<forall>e' \<in> set es. claims e' (ascii_lowercase h) \<longrightarrow> e' = e)
        \<and> credential_for p h = entry_credential P e h \<and> identity_for p h = Some (''config:'' @ cc_name e))
     \<or> (\<forall>e \<in> set es. \<not> claims e (ascii_lowercase h))
        \<and> credential_for p h = Inr None \<and> identity_for p h = None)
     \<and> sk = map skipped_of (filter (\<lambda>e. \<not> recognized e) es)"
  using configured_provider_Inr [OF assms] by blast

lemma demo_configured: "is_ok (configured_provider demo_process [demo_credential, demo_future])"
  by code_simp

lemma selection_is_unambiguous_witness:
  "\<exists>p. configured_provider demo_process [demo_credential, demo_future] = Inr (p, [skipped_of demo_future])"
proof -
  obtain p sk where p: "configured_provider demo_process [demo_credential, demo_future] = Inr (p, sk)"
    using demo_configured by (auto simp: is_ok_iff)
  from selection_is_unambiguous [OF p] p show ?thesis
    by (simp add: recognized_def demo_credential_def demo_future_def)
qed

section \<open>Two surprises\<close>

definition demo_source :: source where
  "demo_source = source_new ''https://a.b/f''"

definition answer :: "nat \<Rightarrow> string option \<Rightarrow> response" where
  "answer n l = \<lparr>status = n, location_header = l, etag_header = None, body = [], body_fails = False\<rparr>"

definition leak_net :: "request list \<Rightarrow> request \<Rightarrow> response option" where
  "leak_net _ q = Some (if req_url q = ''https://a.b/f'' then answer 302 (Some ''https://a-b/f'')
     else answer 404 None)"

lemma demo_tokens:
  "env_credential demo_process ''a.b'' = Inr (Some (Bearer ''tok'' None))"
  "env_credential demo_process ''a-b'' = Inr (Some (Bearer ''tok'' None))"
  by code_simp+

lemma demo_urls:
  "parse_source_url demo ''https://a.b/f'' = Inr (demo_url ''https://a.b/f'' ''https'' ''a.b/f'')"
  "url_join demo u ''https://a-b/f'' = Inr (demo_url ''https://a-b/f'' ''https'' ''a-b/f'')"
  "validate_hop demo (demo_url ''https://a.b/f'' ''https'' ''a.b/f'')
     (demo_url ''https://a-b/f'' ''https'' ''a-b/f'') = Inr (demo_url ''https://a-b/f'' ''https'' ''a-b/f'')"
  by (code_simp, simp add: demo_def, code_simp, code_simp)

text \<open>One hop that a bearer token is found for.\<close>

lemma request_hop:
  assumes "host u = Some h" "lookup provider h = Inr (Some (Bearer t None))"
    and "net w (sent w) \<lparr>req_url = url_text u, req_auth = Some (Bearer_auth t)\<rparr> = Some r"
  obtains identity' w' where
    "sent w' = sent w @ [\<lparr>req_url = url_text u, req_auth = Some (Bearer_auth t)\<rparr>]" "net w' = net w"
    "request_loop D provider src out origin_host origin (Suc n) u identity (w, v)
       = respond D out u h (Some (Bearer t None)) False identity'
           (\<lambda>u. request_loop D provider src out origin_host origin n u identity') r (w', v)"
proof -
  have "request_loop D provider src out origin_host origin (Suc n) u identity (w, v)
       = respond D out u h (Some (Bearer t None)) False
           (identity_after provider (Some (Bearer t None)) h identity)
           (\<lambda>u. request_loop D provider src out origin_host origin n u
             (identity_after provider (Some (Bearer t None)) h identity)) r
           (next_step (w\<lparr>sent := sent w @ [\<lparr>req_url = url_text u, req_auth = Some (Bearer_auth t)\<rparr>]\<rparr>), v)"
    using assms
    by (simp add: host_of_def choose_credential_def on_world_def apply_credential_def bind_eff_def
        send_def Let_def)
  then show thesis by (intro that) (simp_all add: next_step_def)
qed


text \<open>The identity a chain reports need not be the provider whose credential is used: a configured
  entry without a credential to give still names itself.\<close>

theorem chain_identity_may_differ:
  "\<exists>p sk. configured_provider demo_process [demo_credential] = Inr (p, sk)
     \<and> credential_for (chain_provider [p, env_provider demo_process]) ''a.b'' = Inr (Some (Bearer ''tok'' None))
     \<and> credential_for p ''a.b'' = Inr None
     \<and> identity_for (chain_provider [p, env_provider demo_process]) ''a.b'' = Some ''config:n''"
proof -
  have "case configured_provider demo_process [demo_credential] of Inl _ \<Rightarrow> False | Inr (p, sk) \<Rightarrow>
      credential_for (chain_provider [p, env_provider demo_process]) ''a.b'' = Inr (Some (Bearer ''tok'' None))
      \<and> credential_for p ''a.b'' = Inr None
      \<and> identity_for (chain_provider [p, env_provider demo_process]) ''a.b'' = Some ''config:n''"
    by code_simp
  then show ?thesis by (auto split: sum.splits)
qed

end
