(* ===== verification/S3.thy ===== *)
theory S3
  imports Fetch Text_Std
begin

text \<open>
  \<open>src/s3.rs\<close>: the S3 transport.  The AWS SDK and the service behind it are a record of functions
  over a state of their own, so other writers, outages and lost responses are whatever these
  functions do; the asynchronous runtime only runs them in the order written.  An operation that
  reads a local file works on the pair of the world and that state.

  \<open>service_ok\<close> states the documented behaviour of the service: reads change nothing, a write
  happens whole or not at all (also when its response is lost), and only when its precondition
  holds.
\<close>

section \<open>The SDK\<close>

text \<open>A failed call: the HTTP status of the raw response and the error code, where there is one.\<close>

record s3_failure =
  fail_status :: "nat option"
  fail_code :: "string option"

type_synonym metadata = "(string \<times> string) list"

record head_output =
  ho_metadata :: "metadata option"
  ho_length :: "int option"
  ho_etag :: "string option"

record get_output =
  go_chunks :: "bytes list"
  go_fails :: bool

record part_output =
  po_etag :: "string option"
  po_crc32 :: "string option"

record completed_part =
  cp_number :: nat
  cp_etag :: string
  cp_crc32 :: string

datatype precondition = If_match string | If_none_match_any

record 's s3_client =
  head_object :: "string \<Rightarrow> string \<Rightarrow> ('s, s3_failure, head_output) eff"
  get_object :: "string \<Rightarrow> string \<Rightarrow> ('s, s3_failure, get_output) eff"
  put_object :: "string \<Rightarrow> string \<Rightarrow> metadata \<Rightarrow> bytes \<Rightarrow> precondition \<Rightarrow> ('s, s3_failure, unit) eff"
  create_multipart :: "string \<Rightarrow> string \<Rightarrow> metadata \<Rightarrow> ('s, s3_failure, string option) eff"
  upload_part :: "string \<Rightarrow> string \<Rightarrow> string \<Rightarrow> nat \<Rightarrow> bytes \<Rightarrow> ('s, s3_failure, part_output) eff"
  complete_multipart ::
    "string \<Rightarrow> string \<Rightarrow> string \<Rightarrow> completed_part list \<Rightarrow> precondition \<Rightarrow> ('s, s3_failure, unit) eff"
  abort_multipart :: "string \<Rightarrow> string \<Rightarrow> string \<Rightarrow> ('s, s3_failure, unit) eff"
  presigned :: "string \<Rightarrow> string \<Rightarrow> nat \<Rightarrow> ('s, s3_failure, string) eff"
  presignable :: "nat \<Rightarrow> bool"
  bare_url :: "parsed_url \<Rightarrow> string"

text \<open>
  \<open>presignable\<close> is \<open>PresigningConfig::expires_in(d).is_ok()\<close>; \<open>bare_url u\<close> is the text of a URL after
  \<open>set_query(None)\<close> and \<open>set_fragment(None)\<close> of the \<open>url\<close> crate.
\<close>

section \<open>The mirror\<close>

record mirror_object =
  mo_sha256 :: string
  mo_bytes :: u64
  mo_etag :: "string option"
  mo_source :: "string option"
  mo_identity :: "string option"
  mo_fetched_at :: u64

datatype put_outcome = Stored_object | Already_present

record 's s3_mirror =
  client :: "'s s3_client"
  bucket :: string
  object_prefix :: string

definition PART_BYTES :: nat where
  "PART_BYTES = 64 * 1024 * 1024"

definition with_client :: "'s s3_client \<Rightarrow> string \<Rightarrow> string \<Rightarrow> datastore_error + 's s3_mirror" where
  "with_client C b pre =
     (if b = [] \<or> contains b ''/'' \<or> list_ex (\<lambda>p. is_whitespace (fst p)) (str_pieces b)
      then Inl (Config ''invalid S3 bucket name'')
      else
        (let p = trim_matches (CHR ''/'') pre in
         bind_sum (if p \<noteq> [] then bind_sum (artifact_key_new p) (\<lambda>_. Inr ()) else Inr ()) (\<lambda>_.
           Inr \<lparr>client = C, bucket = b, object_prefix = p\<rparr>)))"

text \<open>\<open>connect\<close> starts the runtime and loads the SDK configuration of a region.\<close>

definition s3_mirror_new ::
    "(string \<Rightarrow> io_error + 's s3_client) \<Rightarrow> string \<Rightarrow> string \<Rightarrow> string \<Rightarrow> datastore_error + 's s3_mirror" where
  "s3_mirror_new connect b pre region =
     bind_sum (map_error Io (connect region)) (\<lambda>C. with_client C b pre)"

definition object_name :: "'s s3_mirror \<Rightarrow> artifact_key \<Rightarrow> string" where
  "object_name M k = mirror_path k (object_prefix M)"

definition s3_location :: "'s s3_mirror \<Rightarrow> artifact_key \<Rightarrow> string" where
  "s3_location M k = ''s3://'' @ bucket M @ ''/'' @ object_name M k"

definition service_error :: "'s s3_mirror \<Rightarrow> artifact_key \<Rightarrow> string \<Rightarrow> s3_failure \<Rightarrow> datastore_error" where
  "service_error M k operation e =
     (let shown = (case fail_code e of
         Some s \<Rightarrow> if length s < 80 \<and> list_all is_ascii_alphanumeric s then s else ''request failed''
       | None \<Rightarrow> ''request failed'')
      in Mirror (''S3 '' @ operation @ '' s3://'' @ bucket M @ ''/'' @ object_name M k @ '': '' @ shown))"

definition s3_digest_ok :: "string \<Rightarrow> datastore_error + unit" where
  "s3_digest_ok d =
     (if length d \<noteq> 64 \<or> \<not> list_all hex_digit d then Inl (Mirror ''invalid SHA-256 metadata'') else Inr ())"

lemma bind_eff_of_sum: "bind_eff (of_sum (Inr x)) f = f x"
  by (simp add: bind_eff_def fun_eq_iff)

section \<open>Reading\<close>

text \<open>What the metadata of an object says of it.\<close>

definition object_of_head :: "head_output \<Rightarrow> datastore_error + mirror_object" where
  "object_of_head out =
     (let m = (case ho_metadata out of Some m \<Rightarrow> m | None \<Rightarrow> []) in
      bind_sum
        (ok_or (Mirror ''S3 object has no valid content length'')
          (case ho_length out of Some n \<Rightarrow> if 0 \<le> n then Some (nat n) else None | None \<Rightarrow> None)) (\<lambda>len.
      bind_sum (ok_or (Mirror ''S3 object has no SHA-256 metadata'') (map_of m ''sha256'')) (\<lambda>sha.
      bind_sum (s3_digest_ok sha) (\<lambda>_.
        if Option.bind (map_of m ''bytes'') parse_u64 \<noteq> Some len
        then Inl (Mirror ''S3 object size metadata disagrees with content length'')
        else Inr \<lparr>mo_sha256 = sha, mo_bytes = len, mo_etag = ho_etag out,
                  mo_source = map_of m ''source'', mo_identity = map_of m ''provider-identity'',
                  mo_fetched_at =
                    (case Option.bind (map_of m ''fetched-at'') parse_u64 of Some n \<Rightarrow> n | None \<Rightarrow> 0)\<rparr>))))"

definition s3_head :: "'s s3_mirror \<Rightarrow> artifact_key \<Rightarrow> ('s, datastore_error, mirror_object option) eff" where
  "s3_head M k =
     handle (head_object (client M) (bucket M) (object_name M k)) (\<lambda>r.
       case r of
         Inr out \<Rightarrow> of_sum (bind_sum (object_of_head out) (\<lambda>x. Inr (Some x)))
       | Inl e \<Rightarrow> if fail_status e = Some 404 then ret None else throw (service_error M k ''HEAD'' e))"

definition s3_observed_etag :: "'s s3_mirror \<Rightarrow> artifact_key \<Rightarrow> ('s, datastore_error, string option) eff" where
  "s3_observed_etag M k =
     handle (head_object (client M) (bucket M) (object_name M k)) (\<lambda>r.
       case r of
         Inr out \<Rightarrow>
           (case ho_etag out of
              Some etag \<Rightarrow> ret (Some etag)
            | None \<Rightarrow> throw (Mirror ''existing S3 object has no ETag for conditional repair''))
       | Inl e \<Rightarrow>
           if fail_status e = Some 404 then ret None
           else throw (service_error M k ''HEAD repair precondition'' e))"

text \<open>The two halves of a state: \<open>'w\<close> holds what the sink or the file system needs.\<close>

definition on_left :: "('w, 'e, 'a) eff \<Rightarrow> ('w \<times> 's, 'e, 'a) eff" where
  "on_left m = (\<lambda>(w, s). case m w of (r, w') \<Rightarrow> (r, (w', s)))"

definition on_right :: "('s, 'e, 'a) eff \<Rightarrow> ('w \<times> 's, 'e, 'a) eff" where
  "on_right m = (\<lambda>(w, s). case m s of (r, s') \<Rightarrow> (r, (w, s')))"

text \<open>The body goes to the sink chunk by chunk; \<open>write_all\<close> of an empty chunk writes nothing.\<close>

definition s3_stream :: "get_output \<Rightarrow> (bytes \<Rightarrow> ('w, io_error, unit) eff) \<Rightarrow> ('w, datastore_error, bool) eff" where
  "s3_stream out sink_out =
     bind_eff (map_err Io (for_each (\<lambda>b. if b = [] then ret () else sink_out b) (go_chunks out))) (\<lambda>_.
       if go_fails out then throw (Mirror ''S3 body stream failed'') else ret True)"

definition s3_fetch ::
    "'s s3_mirror \<Rightarrow> artifact_key \<Rightarrow> (('s, s3_failure, get_output) eff \<Rightarrow> ('w, s3_failure, get_output) eff)
      \<Rightarrow> (bytes \<Rightarrow> ('w, io_error, unit) eff) \<Rightarrow> ('w, datastore_error, bool) eff" where
  "s3_fetch M k within sink_out =
     handle (within (get_object (client M) (bucket M) (object_name M k))) (\<lambda>r.
       case r of
         Inl e \<Rightarrow> if fail_status e = Some 404 then ret False else throw (service_error M k ''GET'' e)
       | Inr out \<Rightarrow> s3_stream out sink_out)"

text \<open>As a mirror of the resolution chain the client lives in the world the store runs in.\<close>

definition s3_mirror_read :: "world s3_mirror \<Rightarrow> mirror_read" where
  "s3_mirror_read M =
     \<lparr>mirror_fetch = (\<lambda>k out. s3_fetch M k on_left out),
      mirror_location = s3_location M\<rparr>"

text \<open>Expiries are in nanoseconds.\<close>

definition seconds :: "nat \<Rightarrow> nat" where
  "seconds n = n * 10 ^ 9"

definition s3_presign_get ::
    "crates \<Rightarrow> 's s3_mirror \<Rightarrow> artifact_key \<Rightarrow> nat \<Rightarrow> ('s, datastore_error, parsed_url) eff" where
  "s3_presign_get D M k expiry =
     (if \<not> (seconds 300 \<le> expiry \<and> expiry \<le> seconds 900)
      then throw (Config ''presigned expiry must be between 5 and 15 minutes'')
      else if \<not> presignable (client M) expiry then throw (Mirror ''invalid presigning expiry'')
      else
        bind_eff (map_err (\<lambda>_. Mirror ''S3 presigning failed'')
            (presigned (client M) (bucket M) (object_name M k) expiry)) (\<lambda>uri.
          of_sum (map_error (\<lambda>_. Mirror ''invalid presigned URL'') (url_parse D uri))))"

section \<open>Writing\<close>

definition matching_existing :: "mirror_object \<Rightarrow> mirror_object \<Rightarrow> datastore_error + put_outcome" where
  "matching_existing existing proposed =
     (if mo_sha256 existing = mo_sha256 proposed \<and> mo_bytes existing = mo_bytes proposed
      then Inr Already_present
      else Inl (Mirror ''immutable S3 key already contains different content''))"

definition upload_metadata :: "crates \<Rightarrow> 's s3_client \<Rightarrow> mirror_object \<Rightarrow> datastore_error + metadata" where
  "upload_metadata D C x =
     (let values = [(''sha256'', mo_sha256 x), (''bytes'', decimal (mo_bytes x)),
                    (''fetched-at'', decimal (mo_fetched_at x))] in
      bind_sum
        (case mo_source x of
           None \<Rightarrow> Inr values
         | Some text \<Rightarrow>
             bind_sum (map_error (\<lambda>_. Mirror ''invalid source metadata'') (url_parse D text)) (\<lambda>u.
               if username u \<noteq> [] \<or> password u \<noteq> None
               then Inl (Mirror ''source metadata contains embedded credentials'')
               else if scheme u = ''http'' \<or> scheme u = ''https''
               then Inr (values @ [(''source'', bare_url C u)])
               else Inr values)) (\<lambda>values.
        Inr (case mo_identity x of
               None \<Rightarrow> values
             | Some i \<Rightarrow> values @ [(''provider-identity'', i)])))"

definition existing_after_race ::
    "'s s3_mirror \<Rightarrow> artifact_key \<Rightarrow> mirror_object \<Rightarrow> ('s, datastore_error, put_outcome) eff" where
  "existing_after_race M k x =
     bind_eff (s3_head M k) (\<lambda>r.
     bind_eff (of_sum (ok_or (Mirror ''conditional write raced with deletion; retry the operation'') r)) (\<lambda>existing.
       of_sum (matching_existing existing x)))"

definition the_condition :: "string option \<Rightarrow> precondition" where
  "the_condition expected_etag =
     (case expected_etag of Some etag \<Rightarrow> If_match etag | None \<Rightarrow> If_none_match_any)"

text \<open>The attempts of a single PUT that remain; a conflict is retried while there are others.\<close>

fun put_attempts ::
    "'s s3_mirror \<Rightarrow> artifact_key \<Rightarrow> path \<Rightarrow> mirror_object \<Rightarrow> metadata \<Rightarrow> string option \<Rightarrow> nat
      \<Rightarrow> (world \<times> 's, datastore_error, put_outcome) eff" where
  "put_attempts M k p x m expected_etag 0 = throw (Mirror ''unreachable'')"
| "put_attempts M k p x m expected_etag (Suc remaining) =
     bind_eff (on_left (map_err (\<lambda>_. Mirror ''cannot open upload body'') (read_file p))) (\<lambda>content.
     handle (on_right (put_object (client M) (bucket M) (object_name M k) m content
               (the_condition expected_etag))) (\<lambda>r.
       case r of
         Inr _ \<Rightarrow> ret Stored_object
       | Inl e \<Rightarrow>
           if fail_status e = Some 412 \<and> expected_etag = None then on_right (existing_after_race M k x)
           else if fail_status e = Some 409 \<and> 0 < remaining
           then put_attempts M k p x m expected_etag remaining
           else throw (service_error M k ''PUT'' e)))"

definition part_size :: "u64 \<Rightarrow> u64" where
  "part_size file_bytes = max PART_BYTES ((file_bytes + 9999) div 10000)"

lemma part_size_pos: "0 < part_size file_bytes"
  by (simp add: part_size_def PART_BYTES_def)

text \<open>The bytes of one part; the SDK refuses a range the file does not have.\<close>

definition read_part :: "path \<Rightarrow> u64 \<Rightarrow> u64 \<Rightarrow> bytes action" where
  "read_part p offset len =
     bind_eff (map_err (\<lambda>_. Mirror ''cannot read multipart body'') (read_file p)) (\<lambda>content.
       if length content < offset + len then throw (Mirror ''cannot read multipart body'')
       else ret (take len (drop offset content)))"

definition send_part ::
    "'s s3_mirror \<Rightarrow> artifact_key \<Rightarrow> string \<Rightarrow> nat \<Rightarrow> bytes \<Rightarrow> ('s, datastore_error, completed_part) eff" where
  "send_part M k upload n content =
     bind_eff (map_err (service_error M k ''UploadPart'')
         (upload_part (client M) (bucket M) (object_name M k) upload n content)) (\<lambda>part.
     bind_eff (of_sum (ok_or (Mirror ''upload part has no ETag'') (po_etag part))) (\<lambda>etag.
     bind_eff (of_sum (ok_or (Mirror ''upload part has no CRC32 checksum'') (po_crc32 part))) (\<lambda>crc.
       ret \<lparr>cp_number = n, cp_etag = etag, cp_crc32 = crc\<rparr>)))"

function upload_parts ::
    "'s s3_mirror \<Rightarrow> artifact_key \<Rightarrow> path \<Rightarrow> string \<Rightarrow> u64 \<Rightarrow> u64 \<Rightarrow> completed_part list
      \<Rightarrow> (world \<times> 's, datastore_error, completed_part list) eff" where
  "upload_parts M k p upload file_bytes offset parts =
     (if \<not> offset < file_bytes then ret parts
      else
        (let len = min (part_size file_bytes) (file_bytes - offset); n = length parts + 1 in
         bind_eff (on_left (read_part p offset len)) (\<lambda>content.
           if 2 ^ 31 - 1 < n then throw (Mirror ''too many upload parts'')
           else
             bind_eff (on_right (send_part M k upload n content)) (\<lambda>part.
               upload_parts M k p upload file_bytes (offset + len) (parts @ [part])))))"
  by pat_completeness auto
termination
  by (relation "measure (\<lambda>(M, k, p, upload, file_bytes, offset, parts). file_bytes - offset)")
     (use part_size_pos in \<open>auto simp: Let_def min_def intro!: diff_less_mono2\<close>)

declare upload_parts.simps [simp del]

definition multipart ::
    "'s s3_mirror \<Rightarrow> artifact_key \<Rightarrow> path \<Rightarrow> mirror_object \<Rightarrow> metadata \<Rightarrow> string option
      \<Rightarrow> (world \<times> 's, datastore_error, put_outcome) eff" where
  "multipart M k p x m expected_etag =
     bind_eff (on_right (map_err (service_error M k ''CreateMultipartUpload'')
         (create_multipart (client M) (bucket M) (object_name M k) m))) (\<lambda>upload.
     bind_eff (of_sum (ok_or (Mirror ''S3 returned no upload id'') upload)) (\<lambda>upload.
     handle
       (bind_eff (upload_parts M k p upload (mo_bytes x) 0 []) (\<lambda>parts.
        handle (on_right (complete_multipart (client M) (bucket M) (object_name M k) upload parts
                  (the_condition expected_etag))) (\<lambda>r.
          case r of
            Inr _ \<Rightarrow> ret Stored_object
          | Inl e \<Rightarrow>
              if fail_status e = Some 412 \<and> expected_etag = None
              then on_right (existing_after_race M k x)
              else throw (service_error M k ''CompleteMultipartUpload'' e)))) (\<lambda>result.
       if result = Inr Stored_object then of_sum result
       else
         handle (on_right (abort_multipart (client M) (bucket M) (object_name M k) upload)) (\<lambda>_.
           of_sum result))))"

definition s3_write ::
    "crates \<Rightarrow> 's s3_mirror \<Rightarrow> artifact_key \<Rightarrow> path \<Rightarrow> mirror_object \<Rightarrow> string option
      \<Rightarrow> (world \<times> 's, datastore_error, put_outcome) eff" where
  "s3_write D M k p x expected_etag =
     bind_eff (of_sum (s3_digest_ok (mo_sha256 x))) (\<lambda>_.
     bind_eff (on_left (map_err Io (file_length p))) (\<lambda>len.
     bind_eff
       (if len \<noteq> mo_bytes x then ret True
        else bind_eff (on_left (map_err Io (digest_file D (Stored p)))) (\<lambda>d. ret (d \<noteq> mo_sha256 x))) (\<lambda>differs.
       if differs then throw (Mirror ''local blob does not match upload digest and size'')
       else
         bind_eff (of_sum (upload_metadata D (client M) x)) (\<lambda>m.
         bind_eff (if expected_etag = None then on_right (s3_head M k) else ret None) (\<lambda>existing.
           case existing of
             Some existing \<Rightarrow> of_sum (matching_existing existing x)
           | None \<Rightarrow>
               if PART_BYTES < mo_bytes x then multipart M k p x m expected_etag
               else put_attempts M k p x m expected_etag 3)))))"

definition s3_put ::
    "crates \<Rightarrow> 's s3_mirror \<Rightarrow> artifact_key \<Rightarrow> path \<Rightarrow> mirror_object
      \<Rightarrow> (world \<times> 's, datastore_error, put_outcome) eff" where
  "s3_put D M k p x = s3_write D M k p x None"

definition s3_replace ::
    "crates \<Rightarrow> 's s3_mirror \<Rightarrow> artifact_key \<Rightarrow> path \<Rightarrow> mirror_object \<Rightarrow> string
      \<Rightarrow> (world \<times> 's, datastore_error, put_outcome) eff" where
  "s3_replace D M k p x expected_etag =
     (if expected_etag = [] then throw (Mirror ''repair requires an observed ETag'')
      else s3_write D M k p x (Some expected_etag))"

section \<open>What the service promises\<close>

record s3_object =
  ob_content :: bytes
  ob_metadata :: metadata
  ob_etag :: string

type_synonym location = "string \<times> string"
type_synonym objects = "location \<Rightarrow> s3_object option"

record s3_upload =
  up_location :: location
  up_metadata :: metadata
  up_parts :: "nat \<Rightarrow> bytes option"

text \<open>What can be observed of a state of the service: its objects and its unfinished uploads.\<close>

record 's s3_view =
  objects_of :: "'s \<Rightarrow> objects"
  uploads_of :: "'s \<Rightarrow> string \<Rightarrow> s3_upload option"

fun holds :: "precondition \<Rightarrow> s3_object option \<Rightarrow> bool" where
  "holds If_none_match_any x = (x = None)"
| "holds (If_match etag) x = (case x of None \<Rightarrow> False | Some ob \<Rightarrow> ob_etag ob = etag)"

definition stores :: "precondition \<Rightarrow> location \<Rightarrow> bytes \<Rightarrow> metadata \<Rightarrow> objects \<Rightarrow> objects \<Rightarrow> bool" where
  "stores q l c m S S' \<longleftrightarrow>
     holds q (S l) \<and> (\<exists>etag. S' = S(l \<mapsto> \<lparr>ob_content = c, ob_metadata = m, ob_etag = etag\<rparr>))"

text \<open>A write is done when it is acknowledged; otherwise it may or may not have happened.\<close>

definition writes :: "precondition \<Rightarrow> location \<Rightarrow> bytes \<Rightarrow> metadata \<Rightarrow> objects \<Rightarrow> bool \<Rightarrow> objects \<Rightarrow> bool" where
  "writes q l c m S acknowledged S' \<longleftrightarrow> stores q l c m S S' \<or> \<not> acknowledged \<and> S' = S"

definition heads_ok :: "'s s3_client \<Rightarrow> 's s3_view \<Rightarrow> bool" where
  "heads_ok C V \<longleftrightarrow> (\<forall>b k s r s'. head_object C b k s = (r, s') \<longrightarrow>
     objects_of V s' = objects_of V s \<and> uploads_of V s' = uploads_of V s
     \<and> (case r of
          Inr out \<Rightarrow> (\<exists>ob m. objects_of V s (b, k) = Some ob
            \<and> ho_length out = Some (int (length (ob_content ob)))
            \<and> ho_metadata out = Some m \<and> map_of m = map_of (ob_metadata ob)
            \<and> ho_etag out = Some (ob_etag ob))
        | Inl e \<Rightarrow> fail_status e = Some 404 \<longrightarrow> objects_of V s (b, k) = None))"

definition gets_ok :: "'s s3_client \<Rightarrow> 's s3_view \<Rightarrow> bool" where
  "gets_ok C V \<longleftrightarrow> (\<forall>b k s r s'. get_object C b k s = (r, s') \<longrightarrow>
     objects_of V s' = objects_of V s \<and> uploads_of V s' = uploads_of V s
     \<and> (\<forall>out. r = Inr out \<longrightarrow> (\<exists>ob. objects_of V s (b, k) = Some ob
          \<and> (\<not> go_fails out \<longrightarrow> concat (go_chunks out) = ob_content ob))))"

definition puts_ok :: "'s s3_client \<Rightarrow> 's s3_view \<Rightarrow> bool" where
  "puts_ok C V \<longleftrightarrow> (\<forall>b k m c q s r s'. put_object C b k m c q s = (r, s') \<longrightarrow>
     uploads_of V s' = uploads_of V s
     \<and> writes q (b, k) c m (objects_of V s) (is_ok r) (objects_of V s'))"

definition uploads_ok :: "'s s3_client \<Rightarrow> 's s3_view \<Rightarrow> bool" where
  "uploads_ok C V \<longleftrightarrow>
     (\<forall>b k m s r s'. create_multipart C b k m s = (r, s') \<longrightarrow>
        objects_of V s' = objects_of V s
        \<and> (\<forall>i. r = Inr (Some i) \<longrightarrow>
             uploads_of V s' i = Some \<lparr>up_location = (b, k), up_metadata = m, up_parts = Map.empty\<rparr>))
     \<and> (\<forall>b k i n c s r s'. upload_part C b k i n c s = (r, s') \<longrightarrow>
        objects_of V s' = objects_of V s
        \<and> (\<forall>out u. r = Inr out \<and> uploads_of V s i = Some u \<longrightarrow>
             uploads_of V s' i = Some (u\<lparr>up_parts := (up_parts u)(n \<mapsto> c)\<rparr>)))
     \<and> (\<forall>b k i s r s'. abort_multipart C b k i s = (r, s') \<longrightarrow> objects_of V s' = objects_of V s)"

definition completes_ok :: "'s s3_client \<Rightarrow> 's s3_view \<Rightarrow> bool" where
  "completes_ok C V \<longleftrightarrow> (\<forall>b k i ps q s r s' u.
     complete_multipart C b k i ps q s = (r, s') \<and> uploads_of V s i = Some u \<longrightarrow>
     writes q (b, k) (concat (map (\<lambda>p. case up_parts u (cp_number p) of Some c \<Rightarrow> c | None \<Rightarrow> []) ps))
       (up_metadata u) (objects_of V s) (is_ok r) (objects_of V s'))"

definition presigns_ok :: "'s s3_client \<Rightarrow> 's s3_view \<Rightarrow> bool" where
  "presigns_ok C V \<longleftrightarrow>
     (\<forall>b k n s r s'. presigned C b k n s = (r, s') \<longrightarrow>
        objects_of V s' = objects_of V s \<and> uploads_of V s' = uploads_of V s)"

definition service_ok :: "'s s3_client \<Rightarrow> 's s3_view \<Rightarrow> bool" where
  "service_ok C V \<longleftrightarrow> heads_ok C V \<and> gets_ok C V \<and> puts_ok C V \<and> uploads_ok C V
     \<and> completes_ok C V \<and> presigns_ok C V"

end
