(* ===== verification/S3_Writes.thy ===== *)
theory S3_Writes
  imports S3 Layout
begin

text \<open>
  What the operations of the S3 transport do to the objects of a service that behaves as
  documented (\<open>service_ok\<close>).  \<open>reach\<close> is everything a write to one key may do, whatever is lost on
  the way; the central lemma \<open>s3_write_cases\<close> reads off the result of a write what was done.
\<close>

section \<open>Lifted operations\<close>

lemma on_leftE:
  assumes "on_left m (w, s) = (r, z)"
  obtains w' where "m w = (r, w')" "z = (w', s)"
  using assms by (auto simp: on_left_def split: prod.splits)

lemma on_rightE:
  assumes "on_right m (w, s) = (r, z)"
  obtains s' where "m s = (r, s')" "z = (w, s')"
  using assms by (auto simp: on_right_def split: prod.splits)

section \<open>Writing one key\<close>

definition reach :: "precondition \<Rightarrow> location \<Rightarrow> bytes \<Rightarrow> metadata \<Rightarrow> objects \<Rightarrow> objects \<Rightarrow> bool" where
  "reach q l c m S S' \<longleftrightarrow> S' = S \<or> stores q l c m S S'"

interpretation reach: frame "reach q l c m" for q l c m
proof
  show "reach q l c m S S" for S by (simp add: reach_def)
  fix S T U assume "reach q l c m S T" "reach q l c m T U"
  then show "reach q l c m S U" by (auto simp: reach_def stores_def)
qed

lemma reach_stores: "reach q l c m S T \<Longrightarrow> stores q l c m T U \<Longrightarrow> stores q l c m S U"
  by (auto simp: reach_def stores_def)

lemma writes_reach: "writes q l c m S b S' \<Longrightarrow> reach q l c m S S'"
  by (auto simp: writes_def reach_def)

lemma writes_done: "writes q l c m S True S' \<Longrightarrow> stores q l c m S S'"
  by (simp add: writes_def)

text \<open>A write under \<open>If-None-Match: *\<close> changes no object that is there.\<close>

lemma reach_none_match: "reach If_none_match_any l c m S S' \<Longrightarrow> S \<subseteq>\<^sub>m S'"
  by (auto simp: reach_def stores_def map_le_def)

lemma reach_elsewhere: "reach q l c m S S' \<Longrightarrow> l' \<noteq> l \<Longrightarrow> S' l' = S l'"
  by (auto simp: reach_def stores_def)

lemma reach_if_match:
  "reach (If_match etag) l c m S S' \<Longrightarrow> S' \<noteq> S \<Longrightarrow> \<exists>ob. S l = Some ob \<and> ob_etag ob = etag"
  by (auto simp: reach_def stores_def split: option.splits)

section \<open>Reading\<close>

lemma s3_digest_ok_Inr: "s3_digest_ok d = Inr u \<longleftrightarrow> is_digest d"
  by (auto simp: s3_digest_ok_def is_digest_def)

text \<open>An object whose metadata agrees with a digest and a size.\<close>

definition describes :: "mirror_object \<Rightarrow> s3_object \<Rightarrow> bool" where
  "describes x ob \<longleftrightarrow> map_of (ob_metadata ob) ''sha256'' = Some (mo_sha256 x)
     \<and> length (ob_content ob) = mo_bytes x"

lemma object_of_head_Inr:
  assumes "object_of_head out = Inr x" "ho_metadata out = Some m"
  shows "map_of m ''sha256'' = Some (mo_sha256 x) \<and> is_digest (mo_sha256 x)
     \<and> ho_length out = Some (int (mo_bytes x)) \<and> mo_etag x = ho_etag out
     \<and> mo_source x = map_of m ''source'' \<and> mo_identity x = map_of m ''provider-identity''"
  using assms unfolding object_of_head_def Let_def
  by (auto simp: sum_iff s3_digest_ok_Inr split: option.splits if_splits)

lemma s3_head_service:
  assumes ok: "service_ok (client M) V" and run: "s3_head M k s = (r, s')"
  shows "objects_of V s' = objects_of V s \<and> uploads_of V s' = uploads_of V s
     \<and> (\<forall>x. r = Inr (Some x) \<longrightarrow> is_digest (mo_sha256 x)
          \<and> (\<exists>ob. objects_of V s (bucket M, object_name M k) = Some ob \<and> describes x ob
                \<and> mo_etag x = Some (ob_etag ob)))
     \<and> (r = Inr None \<longrightarrow> objects_of V s (bucket M, object_name M k) = None)"
proof -
  obtain q where h: "head_object (client M) (bucket M) (object_name M k) s = (q, s')"
    and q: "(case q of
         Inr out \<Rightarrow> of_sum (bind_sum (object_of_head out) (\<lambda>x. Inr (Some x)))
       | Inl e \<Rightarrow> if fail_status e = Some 404 then ret None else throw (service_error M k ''HEAD'' e)) s'
       = (r, s')"
    using run unfolding s3_head_def by (auto elim!: handleE split: sum.splits if_splits)
  note law = ok [unfolded service_ok_def, THEN conjunct1, unfolded heads_ok_def, rule_format, OF h]
  show ?thesis
  proof (cases q)
    case (Inl e)
    with q law show ?thesis by (auto split: if_splits)
  next
    case (Inr out)
    with law obtain ob m where ob: "objects_of V s (bucket M, object_name M k) = Some ob"
      "ho_length out = Some (int (length (ob_content ob)))" "ho_metadata out = Some m"
      "map_of m = map_of (ob_metadata ob)" "ho_etag out = Some (ob_etag ob)" by auto
    from q Inr have r: "r = bind_sum (object_of_head out) (\<lambda>x. Inr (Some x))" by simp
    show ?thesis
    proof (cases "object_of_head out")
      case (Inl e)
      with r law show ?thesis by simp
    next
      case x: (Inr x)
      from object_of_head_Inr [OF x ob(3)] ob r law x show ?thesis
        by (auto simp: describes_def)
    qed
  qed
qed

lemma existing_after_race_service:
  assumes ok: "service_ok (client M) V" and run: "existing_after_race M k x s = (r, s')"
  shows "objects_of V s' = objects_of V s \<and> r \<noteq> Inr Stored_object
     \<and> (r = Inr Already_present \<longrightarrow>
          (\<exists>ob. objects_of V s (bucket M, object_name M k) = Some ob \<and> describes x ob))"
proof -
  from run obtain q s1 where h: "s3_head M k s = (q, s1)"
    by (cases "s3_head M k s") auto
  note law = s3_head_service [OF ok h]
  show ?thesis
    using run h law unfolding existing_after_race_def
    by (auto simp: bind_eff_def matching_existing_def describes_def ok_or_def
        split: sum.splits option.splits if_splits)
qed

section \<open>A single PUT\<close>

abbreviation at :: "'s s3_mirror \<Rightarrow> artifact_key \<Rightarrow> location" where
  "at M k \<equiv> (bucket M, object_name M k)"

definition outcome_of ::
    "precondition \<Rightarrow> location \<Rightarrow> bytes \<Rightarrow> metadata \<Rightarrow> mirror_object
      \<Rightarrow> datastore_error + put_outcome \<Rightarrow> objects \<Rightarrow> objects \<Rightarrow> bool" where
  "outcome_of q l c m x r S S' \<longleftrightarrow> reach q l c m S S'
     \<and> (r = Inr Stored_object \<longrightarrow> stores q l c m S S')
     \<and> (r = Inr Already_present \<longrightarrow> q = If_none_match_any \<and> (\<exists>ob. S' l = Some ob \<and> describes x ob))"

lemma outcome_of_error: "reach q l c m S S' \<Longrightarrow> outcome_of q l c m x (Inl e) S S'"
  by (simp add: outcome_of_def)

lemma outcome_of_reach: "reach q l c m S T \<Longrightarrow> outcome_of q l c m x r T U \<Longrightarrow> outcome_of q l c m x r S U"
  unfolding outcome_of_def by (blast intro: reach.trans_R reach_stores)

lemma raced:
  assumes "service_ok (client M) V" "existing_after_race M k x s = (r, s')"
  shows "outcome_of If_none_match_any (at M k) c m x r (objects_of V s) (objects_of V s')"
  using existing_after_race_service [OF assms] by (auto simp: outcome_of_def reach_def)

lemma keeps_file_at: "keeps (same file_at) m \<Longrightarrow> m w = (r, w') \<Longrightarrow> file_at w' = file_at w"
  by (rule sameD)

text \<open>What one attempt does with the answer of the service, given what the next attempts do.\<close>

lemma put_answer_outcome:
  assumes ok: "service_ok (client M) V"
    and law: "writes (the_condition e) (at M k) c m S (is_ok q) (objects_of V s)"
    and run: "(case q of
         Inr _ \<Rightarrow> ret Stored_object
       | Inl err \<Rightarrow>
           if fail_status err = Some 412 \<and> e = None then on_right (existing_after_race M k x)
           else if fail_status err = Some 409 \<and> 0 < n
           then put_attempts M k p x m e n
           else throw (service_error M k ''PUT'' err)) (w, s) = (r, (w', s'))"
    and IH: "put_attempts M k p x m e n (w, s) = (r, (w', s')) \<Longrightarrow> file_at w' = file_at w
        \<and> outcome_of (the_condition e) (at M k) c m x r (objects_of V s) (objects_of V s')"
  shows "file_at w' = file_at w
     \<and> outcome_of (the_condition e) (at M k) c m x r S (objects_of V s')"
proof -
  from law have R: "reach (the_condition e) (at M k) c m S (objects_of V s)" by (rule writes_reach)
  show ?thesis
  proof (cases q)
    case (Inr u)
    with run law R show ?thesis by (auto simp: outcome_of_def dest: writes_done)
  next
    case (Inl err)
    consider (raced) "fail_status err = Some 412" "e = None"
      | (again) "\<not> (fail_status err = Some 412 \<and> e = None)" "fail_status err = Some 409 \<and> 0 < n"
      | (stop) "\<not> (fail_status err = Some 412 \<and> e = None)" "\<not> (fail_status err = Some 409 \<and> 0 < n)"
      by blast
    then show ?thesis
    proof cases
      case raced
      with run Inl obtain s2 where "existing_after_race M k x s = (r, s2)" "w' = w" "s' = s2"
        by (auto elim: on_rightE)
      with S3_Writes.raced [OF ok] raced R show ?thesis
        by (metis outcome_of_reach the_condition_def option.simps(4))
    next
      case again
      with run Inl have "put_attempts M k p x m e n (w, s) = (r, (w', s'))" by auto
      from IH [OF this] R show ?thesis by (auto intro: outcome_of_reach)
    next
      case stop
      with run Inl have "r = Inl (service_error M k ''PUT'' err)" "w' = w" "s' = s" by auto
      with R show ?thesis by (simp add: outcome_of_error)
    qed
  qed
qed

lemma put_attempts_outcome:
  assumes ok: "service_ok (client M) V" and f: "file_at w p = Some c"
    and run: "put_attempts M k p x m e n (w, s) = (r, (w', s'))"
  shows "file_at w' = file_at w
     \<and> outcome_of (the_condition e) (at M k) c m x r (objects_of V s) (objects_of V s')"
  using f run
proof (induction n arbitrary: w s)
  case 0
  then show ?case by (auto simp: outcome_of_def reach_def)
next
  case (Suc n)
  obtain q w1 where rd: "read_file p w = (q, w1)" by (cases "read_file p w") auto
  have w1: "file_at w1 = file_at w" by (rule keeps_file_at [OF keeps_read_file rd]) (rule observers)
  show ?case
  proof (cases q)
    case (Inl err)
    with rd Suc.prems(2) w1 show ?thesis
      by (auto simp: bind_eff_def on_left_def map_err_def outcome_of_def reach_def)
  next
    case (Inr content)
    with read_file_InrD [of p w content w1] rd Suc.prems(1) have content: "content = c" by simp
    obtain q2 s1 where put: "put_object (client M) (bucket M) (object_name M k) m c (the_condition e) s = (q2, s1)"
      by (cases "put_object (client M) (bucket M) (object_name M k) m c (the_condition e) s") auto
    have law: "writes (the_condition e) (at M k) c m (objects_of V s) (is_ok q2) (objects_of V s1)"
      using ok put unfolding service_ok_def puts_ok_def by blast
    have "(case q2 of
         Inr _ \<Rightarrow> ret Stored_object
       | Inl err \<Rightarrow>
           if fail_status err = Some 412 \<and> e = None then on_right (existing_after_race M k x)
           else if fail_status err = Some 409 \<and> 0 < n
           then put_attempts M k p x m e n
           else throw (service_error M k ''PUT'' err)) (w1, s1) = (r, (w', s'))"
      using Suc.prems(2) rd Inr content put
      by (simp add: bind_eff_def on_left_def on_right_def map_err_def handle_def)
    from put_answer_outcome [OF ok law this Suc.IH] w1 Suc.prems(1) show ?thesis by simp
  qed
qed

section \<open>Uploads in parts\<close>

definition part_content :: "s3_upload \<Rightarrow> completed_part \<Rightarrow> bytes" where
  "part_content u q = (case up_parts u (cp_number q) of Some c \<Rightarrow> c | None \<Rightarrow> [])"

text \<open>How many parts a remainder takes.\<close>

definition parts_needed :: "u64 \<Rightarrow> u64 \<Rightarrow> nat" where
  "parts_needed sz rest = (rest + (sz - 1)) div sz"

lemma parts_needed_0: "0 < sz \<Longrightarrow> parts_needed sz 0 = 0"
  by (simp add: parts_needed_def)

lemma parts_needed_step:
  assumes "0 < sz" "0 < rest"
  shows "parts_needed sz rest = Suc (parts_needed sz (rest - min sz rest))"
proof (cases "sz \<le> rest")
  case True
  then have "rest + (sz - 1) = sz + (rest - sz + (sz - 1))" by simp
  then have "(rest + (sz - 1)) div sz = Suc ((rest - sz + (sz - 1)) div sz)"
    using assms(1) by (metis div_add_self1 not_gr_zero Suc_eq_plus1)
  with True show ?thesis by (simp add: parts_needed_def)
next
  case False
  then have "rest + (sz - 1) = sz + (rest - 1)" "rest - 1 < sz" using assms by simp_all
  then have "(rest + (sz - 1)) div sz = 1"
    using assms(1) by (metis div_add_self1 div_less not_gr_zero add_0)
  with False assms(1) show ?thesis by (simp add: parts_needed_def)
qed

lemma ten_thousand_parts: "parts_needed (part_size n) n \<le> 10000"
proof -
  have "n + 9999 = 10000 * ((n + 9999) div 10000) + (n + 9999) mod 10000" by simp
  moreover have "(n + 9999) mod 10000 < 10000" by simp
  ultimately have "n \<le> 10000 * ((n + 9999) div 10000)" by linarith
  also have "\<dots> \<le> 10000 * part_size n" by (simp add: part_size_def)
  finally have "n + (part_size n - 1) < 10001 * part_size n" using part_size_pos [of n] by simp
  then show ?thesis
    unfolding parts_needed_def using part_size_pos [of n] by (simp add: less_mult_imp_div_less less_Suc_eq_le [symmetric])
qed

lemma read_part_Inr:
  assumes "read_part p off len w = (r, w')"
  shows "file_at w' = file_at w
     \<and> (\<forall>x c. r = Inr x \<and> file_at w p = Some c \<longrightarrow> x = take len (drop off c) \<and> off + len \<le> length c)"
proof (cases "read_file p w")
  case (Pair q w1)
  have w1: "file_at w1 = file_at w"
    by (rule keeps_file_at [OF keeps_read_file Pair]) (rule observers)
  show ?thesis
  proof (cases q)
    case (Inl e)
    with Pair assms w1 show ?thesis by (auto simp: read_part_def bind_eff_def map_err_def)
  next
    case (Inr content)
    with read_file_InrD Pair have "file_at w p = Some content" by auto
    with assms Pair Inr w1 show ?thesis
      by (auto simp: read_part_def bind_eff_def map_err_def split: if_splits)
  qed
qed

lemma send_part_service:
  assumes ok: "service_ok (client M) V" and run: "send_part M k i n content s = (r, s')"
  shows "objects_of V s' = objects_of V s
     \<and> (\<forall>part u. r = Inr part \<and> uploads_of V s i = Some u \<longrightarrow>
          uploads_of V s' i = Some (u\<lparr>up_parts := (up_parts u)(n \<mapsto> content)\<rparr>) \<and> cp_number part = n)"
proof -
  obtain q s1 where h: "upload_part (client M) (bucket M) (object_name M k) i n content s = (q, s1)"
    by (cases "upload_part (client M) (bucket M) (object_name M k) i n content s") auto
  have law: "objects_of V s1 = objects_of V s
      \<and> (\<forall>out u. q = Inr out \<and> uploads_of V s i = Some u \<longrightarrow>
           uploads_of V s1 i = Some (u\<lparr>up_parts := (up_parts u)(n \<mapsto> content)\<rparr>))"
    using ok h unfolding service_ok_def uploads_ok_def by blast
  have "s' = s1 \<and> (\<forall>part. r = Inr part \<longrightarrow> cp_number part = n \<and> (\<exists>out. q = Inr out))"
    using run h unfolding send_part_def
    by (auto simp: bind_eff_def map_err_def ok_or_def split: sum.splits option.splits)
  with law show ?thesis by auto
qed

text \<open>The parts sent from \<open>offset\<close> on are the rest of the file, numbered in order.\<close>

definition sent_parts ::
    "'s s3_view \<Rightarrow> string \<Rightarrow> s3_upload \<Rightarrow> completed_part list \<Rightarrow> completed_part list \<Rightarrow> bytes \<Rightarrow> 's \<Rightarrow> bool" where
  "sent_parts V i u parts ps remainder s' \<longleftrightarrow> (\<exists>new u'. ps = parts @ new
     \<and> uploads_of V s' i = Some u' \<and> up_metadata u' = up_metadata u
     \<and> (\<forall>n \<le> length parts. up_parts u' n = up_parts u n)
     \<and> map cp_number new = [Suc (length parts)..<Suc (length ps)]
     \<and> concat (map (part_content u') new) = remainder)"

text \<open>A part that was sent before the parts that follow it.\<close>

lemma sent_parts_Cons:
  assumes ps: "sent_parts V i (u\<lparr>up_parts := (up_parts u)(Suc (length parts) \<mapsto> x)\<rparr>) (parts @ [part]) ps
      remainder s'"
    and n: "cp_number part = Suc (length parts)"
  shows "sent_parts V i u parts ps (x @ remainder) s'"
proof -
  from ps obtain new u' where new: "ps = parts @ [part] @ new" "uploads_of V s' i = Some u'"
    "up_metadata u' = up_metadata u"
    "\<forall>m \<le> Suc (length parts). up_parts u' m = ((up_parts u)(Suc (length parts) \<mapsto> x)) m"
    "map cp_number new = [Suc (Suc (length parts))..<Suc (length ps)]"
    "concat (map (part_content u') new) = remainder"
    by (auto simp: sent_parts_def)
  have "concat (map (part_content u') (part # new)) = x @ remainder"
    using new(4,6) n by (simp add: part_content_def)
  moreover have "map cp_number (part # new) = [Suc (length parts)..<Suc (length ps)]"
    using new(1,5) n by (simp add: upt_conv_Cons del: upt_Suc)
  moreover have "\<forall>m \<le> length parts. up_parts u' m = up_parts u m" using new(4) by simp
  ultimately show ?thesis
    unfolding sent_parts_def using new(1-3)
    by (intro exI [of _ "part # new"] exI [of _ u']) simp
qed

lemma upload_parts_service:
  assumes ok: "service_ok (client M) V"
  shows "upload_parts M k p i file_bytes off parts (w, s) = (r, (w', s')) \<Longrightarrow>
    file_at w p = Some c \<Longrightarrow> length c = file_bytes \<Longrightarrow> uploads_of V s i = Some u \<Longrightarrow>
     file_at w' = file_at w \<and> objects_of V s' = objects_of V s
     \<and> (\<forall>ps. r = Inr ps \<longrightarrow> sent_parts V i u parts ps (drop off c) s'
           \<and> length ps = length parts + parts_needed (part_size file_bytes) (file_bytes - off))"
proof (induction "file_bytes - off" arbitrary: off parts w s u rule: less_induct)
  case less
  show ?case
  proof (cases "off < file_bytes")
    case False
    with less.prems show ?thesis
      by (auto simp: upload_parts.simps [of M k p i file_bytes off] sent_parts_def parts_needed_0 part_size_pos)
  next
    case True
    define len where "len = min (part_size file_bytes) (file_bytes - off)"
    define n where "n = length parts + 1"
    have len: "0 < len" "off + len \<le> file_bytes" using True part_size_pos by (auto simp: len_def)
    have run: "bind_eff (on_left (read_part p off len)) (\<lambda>content.
           if 2 ^ 31 - 1 < n then throw (Mirror ''too many upload parts'')
           else bind_eff (on_right (send_part M k i n content)) (\<lambda>part.
               upload_parts M k p i file_bytes (off + len) (parts @ [part]))) (w, s) = (r, (w', s'))"
      using less.prems(1) True unfolding upload_parts.simps [of M k p i file_bytes off] len_def n_def
      by (simp only: Let_def True simp_thms if_False)
    obtain q w1 where read: "read_part p off len w = (q, w1)" by (cases "read_part p off len w") auto
    note rd = read_part_Inr [OF read]
    show ?thesis
    proof (cases "\<exists>x. q = Inr x \<and> n \<le> 2 ^ 31 - 1")
      case False
      with run read rd show ?thesis
        by (cases q) (auto simp: bind_eff_def on_left_def)
    next
      case go: True
      then obtain x where x: "q = Inr x" by blast
      with rd less.prems have content: "x = take len (drop off c)" by auto
      obtain q2 s1 where sent: "send_part M k i n x s = (q2, s1)" by (cases "send_part M k i n x s") auto
      note sv = send_part_service [OF ok sent]
      show ?thesis
      proof (cases q2)
        case (Inl e)
        with run read x go sent sv rd show ?thesis
          by (auto simp: bind_eff_def on_left_def on_right_def)
      next
        case (Inr part)
        define u1 where "u1 = u\<lparr>up_parts := (up_parts u)(n \<mapsto> x)\<rparr>"
        from sv Inr less.prems have u1: "uploads_of V s1 i = Some u1" "cp_number part = n"
          by (auto simp: u1_def)
        have rest: "upload_parts M k p i file_bytes (off + len) (parts @ [part]) (w1, s1) = (r, (w', s'))"
          using run read x go sent Inr by (simp add: bind_eff_def on_left_def on_right_def)
        have IH: "file_at w' = file_at w1 \<and> objects_of V s' = objects_of V s1
          \<and> (\<forall>ps. r = Inr ps \<longrightarrow> sent_parts V i u1 (parts @ [part]) ps (drop (off + len) c) s'
               \<and> length ps = length (parts @ [part])
                    + parts_needed (part_size file_bytes) (file_bytes - (off + len)))"
          by (rule less.hyps [OF _ rest _ _ u1(1)]) (use len less.prems rd in auto)
        have count: "parts_needed (part_size file_bytes) (file_bytes - off)
            = Suc (parts_needed (part_size file_bytes) (file_bytes - (off + len)))"
          using parts_needed_step [of "part_size file_bytes" "file_bytes - off"] True part_size_pos
          by (simp add: len_def)
        have whole: "x @ drop (off + len) c = drop off c"
          unfolding content by (metis append_take_drop_id drop_drop add.commute)
        show ?thesis
        proof (intro conjI allI impI)
          show "file_at w' = file_at w" "objects_of V s' = objects_of V s" using IH rd sv by simp_all
          fix ps assume "r = Inr ps"
          with IH have ps: "sent_parts V i u1 (parts @ [part]) ps (drop (off + len) c) s'"
            "length ps = length (parts @ [part])
                    + parts_needed (part_size file_bytes) (file_bytes - (off + len))" by auto
          show "length ps = length parts + parts_needed (part_size file_bytes) (file_bytes - off)"
            using ps(2) count by simp
          show "sent_parts V i u parts ps (drop off c) s'"
            using sent_parts_Cons [of V i u parts x part ps "drop (off + len) c" s'] ps(1) u1(2) whole
            by (simp add: u1_def n_def)
        qed
      qed
    qed
  qed
qed

lemma sent_parts_content:
  assumes "sent_parts V i u [] ps remainder s"
  obtains u' where "uploads_of V s i = Some u'" "up_metadata u' = up_metadata u"
    "map cp_number ps = [1..<Suc (length ps)]" "concat (map (part_content u') ps) = remainder"
  using assms by (auto simp: sent_parts_def)

lemma complete_outcome:
  assumes ok: "service_ok (client M) V"
    and up: "uploads_of V s i = Some u" "up_metadata u = m" "concat (map (part_content u) ps) = c"
    and run: "handle (on_right (complete_multipart (client M) (bucket M) (object_name M k) i ps
                  (the_condition e))) (\<lambda>r.
          case r of
            Inr _ \<Rightarrow> ret Stored_object
          | Inl err \<Rightarrow>
              if fail_status err = Some 412 \<and> e = None
              then on_right (existing_after_race M k x)
              else throw (service_error M k ''CompleteMultipartUpload'' err)) (w, s) = (r, (w', s'))"
  shows "w' = w \<and> outcome_of (the_condition e) (at M k) c m x r (objects_of V s) (objects_of V s')"
proof -
  obtain q s1 where q: "complete_multipart (client M) (bucket M) (object_name M k) i ps (the_condition e) s = (q, s1)"
    by (cases "complete_multipart (client M) (bucket M) (object_name M k) i ps (the_condition e) s") auto
  have law: "writes (the_condition e) (at M k) c m (objects_of V s) (is_ok q) (objects_of V s1)"
    using ok q up unfolding service_ok_def completes_ok_def part_content_def [abs_def] by blast
  then have R: "reach (the_condition e) (at M k) c m (objects_of V s) (objects_of V s1)"
    by (rule writes_reach)
  show ?thesis
  proof (cases q)
    case (Inr v)
    with run q law R show ?thesis by (auto simp: handle_def on_right_def outcome_of_def dest: writes_done)
  next
    case (Inl err)
    show ?thesis
    proof (cases "fail_status err = Some 412 \<and> e = None")
      case True
      with run q Inl have "existing_after_race M k x s1 = (r, s')" "w' = w"
        by (auto simp: handle_def on_right_def split: prod.splits)
      with raced [OF ok] True R show ?thesis
        by (metis outcome_of_reach the_condition_def option.simps(4))
    next
      case False
      with run q Inl have "r = Inl (service_error M k ''CompleteMultipartUpload'' err)" "w' = w" "s' = s1"
        by (auto simp: handle_def on_right_def)
      with R show ?thesis by (simp add: outcome_of_error)
    qed
  qed
qed

lemma abort_same:
  assumes "service_ok (client M) V"
    and "(if result = Inr Stored_object then of_sum result
       else handle (on_right (abort_multipart (client M) (bucket M) (object_name M k) i)) (\<lambda>_.
           of_sum result)) (w, s) = (r, (w', s'))"
  shows "r = result \<and> w' = w \<and> objects_of V s' = objects_of V s"
proof (cases "result = Inr Stored_object")
  case False
  obtain q s1 where q: "abort_multipart (client M) (bucket M) (object_name M k) i s = (q, s1)"
    by (cases "abort_multipart (client M) (bucket M) (object_name M k) i s") auto
  moreover have "objects_of V s1 = objects_of V s"
    using assms(1) q unfolding service_ok_def uploads_ok_def by blast
  ultimately show ?thesis using assms(2) False by (auto simp: handle_def on_right_def)
qed (use assms(2) in auto)

lemma multipart_outcome:
  assumes ok: "service_ok (client M) V" and f: "file_at w p = Some c" "length c = mo_bytes x"
    and run: "multipart M k p x m e (w, s) = (r, (w', s'))"
  shows "file_at w' = file_at w
     \<and> outcome_of (the_condition e) (at M k) c m x r (objects_of V s) (objects_of V s')"
proof -
  obtain q s1 where create: "create_multipart (client M) (bucket M) (object_name M k) m s = (q, s1)"
    by (cases "create_multipart (client M) (bucket M) (object_name M k) m s") auto
  have law: "objects_of V s1 = objects_of V s \<and> (\<forall>i. q = Inr (Some i) \<longrightarrow>
       uploads_of V s1 i = Some \<lparr>up_location = at M k, up_metadata = m, up_parts = Map.empty\<rparr>)"
    using ok [unfolded service_ok_def uploads_ok_def, THEN conjunct2, THEN conjunct2, THEN conjunct2,
        THEN conjunct1, THEN conjunct1, rule_format, OF create] by simp
  show ?thesis
  proof (cases "\<exists>i. q = Inr (Some i)")
    case False
    with run create have "objects_of V s' = objects_of V s1 \<and> w' = w \<and> (\<exists>err. r = Inl err)"
      unfolding multipart_def
      by (auto simp: bind_eff_def on_right_def map_err_def ok_or_def split: sum.splits option.splits)
    with law show ?thesis by (auto simp: outcome_of_def reach_def)
  next
    case True
    then obtain i where i: "q = Inr (Some i)" by blast
    define u where "u = \<lparr>up_location = at M k, up_metadata = m, up_parts = Map.empty :: nat \<Rightarrow> bytes option\<rparr>"
    define finish where "finish = (\<lambda>parts. handle (on_right (complete_multipart (client M) (bucket M)
        (object_name M k) i parts (the_condition e))) (\<lambda>r.
          case r of
            Inr _ \<Rightarrow> ret Stored_object
          | Inl err \<Rightarrow>
              if fail_status err = Some 412 \<and> e = None
              then on_right (existing_after_race M k x)
              else (throw (service_error M k ''CompleteMultipartUpload'' err) ::
                (world \<times> 'a, datastore_error, put_outcome) eff)))"
    from law i have u: "uploads_of V s1 i = Some u" by (simp add: u_def)
    have created: "on_right (map_err (service_error M k ''CreateMultipartUpload'')
        (create_multipart (client M) (bucket M) (object_name M k) m)) (w, s) = (Inr (Some i), (w, s1))"
      by (simp add: on_right_def map_err_def create i)
    obtain result w2 s2 where body: "bind_eff (upload_parts M k p i (mo_bytes x) 0 []) finish (w, s1) = (result, (w2, s2))"
      by (cases "bind_eff (upload_parts M k p i (mo_bytes x) 0 []) finish (w, s1)") auto
    have last: "(if result = Inr Stored_object then of_sum result
       else handle (on_right (abort_multipart (client M) (bucket M) (object_name M k) i)) (\<lambda>_.
           of_sum result)) (w2, s2) = (r, (w', s'))"
      using run unfolding multipart_def bind_eff_Inr [where m = "on_right (map_err
        (service_error M k ''CreateMultipartUpload'')
        (create_multipart (client M) (bucket M) (object_name M k) m))", OF created] ok_or_simps bind_eff_of_sum
        finish_def [symmetric] handle_run [where m = "bind_eff (upload_parts M k p i (mo_bytes x) 0 []) finish", OF body] .
    note abort = abort_same [OF ok last]
    obtain z w3 s3 where parts: "upload_parts M k p i (mo_bytes x) 0 [] (w, s1) = (z, (w3, s3))"
      by (cases "upload_parts M k p i (mo_bytes x) 0 [] (w, s1)") auto
    note up = upload_parts_service [OF ok parts f u]
    show ?thesis
    proof (cases z)
      case (Inl err)
      with body parts have "result = Inl err" "w2 = w3" "s2 = s3" by (auto simp: bind_eff_def)
      with abort up law show ?thesis by (auto simp: outcome_of_def reach_def)
    next
      case (Inr ps)
      with up have "sent_parts V i u [] ps c s3" by simp
      then obtain u' where u': "uploads_of V s3 i = Some u'" "up_metadata u' = m"
        "concat (map (part_content u') ps) = c" by (rule sent_parts_content) (simp add: u_def)
      have "finish ps (w3, s3) = (result, (w2, s2))" using body parts Inr by (simp add: bind_eff_def)
      from complete_outcome [OF ok u' this [unfolded finish_def]] abort up law
      show ?thesis by simp
    qed
  qed
qed

section \<open>A whole write\<close>

lemma upload_metadata_Inr:
  assumes "upload_metadata D C x = Inr m"
  shows "map_of m ''sha256'' = Some (mo_sha256 x) \<and> map_of m ''bytes'' = Some (decimal (mo_bytes x))
     \<and> map_of m ''fetched-at'' = Some (decimal (mo_fetched_at x))
     \<and> map_of m ''provider-identity'' = mo_identity x
     \<and> map_of m ''source'' = Option.bind (mo_source x) (\<lambda>text. case url_parse D text of
          Inl _ \<Rightarrow> None
        | Inr u \<Rightarrow> if scheme u = ''http'' \<or> scheme u = ''https'' then Some (bare_url C u) else None)
     \<and> (\<forall>text u. mo_source x = Some text \<longrightarrow> url_parse D text = Inr u \<longrightarrow> username u = [] \<and> password u = None)"
  using assms unfolding upload_metadata_def Let_def
  by (cases "mo_identity x"; cases "mo_source x")
    (auto simp: sum_iff split: if_splits sum.splits)

text \<open>What is sent once the local file has been checked.\<close>

lemma checked_write_outcome:
  assumes ok: "service_ok (client M) V" and c: "file_at w p = Some c" "length c = mo_bytes x"
    and run: "bind_eff (if e = None then on_right (s3_head M k) else ret None) (\<lambda>existing.
           case existing of
             Some existing \<Rightarrow> of_sum (matching_existing existing x)
           | None \<Rightarrow>
               if PART_BYTES < mo_bytes x then multipart M k p x m e
               else put_attempts M k p x m e 3) (w, s) = (r, (w', s'))"
  shows "file_at w' = file_at w
     \<and> (objects_of V s' = objects_of V s \<and> (\<exists>err. r = Inl err)
        \<or> outcome_of (the_condition e) (at M k) c m x r (objects_of V s) (objects_of V s'))"
proof -
  have sent: "file_at w' = file_at w \<and>
      outcome_of (the_condition e) (at M k) c m x r (objects_of V s1) (objects_of V s')"
    if "(if PART_BYTES < mo_bytes x then multipart M k p x m e else put_attempts M k p x m e 3) (w, s1)
       = (r, (w', s'))" for s1
    using that multipart_outcome [OF ok c, of k m e s1 r w' s']
      put_attempts_outcome [OF ok c(1), of k x m e 3 s1 r w' s'] by (auto split: if_splits)
  show ?thesis
  proof (cases "e = None")
    case False
    with run have "(if PART_BYTES < mo_bytes x then multipart M k p x m e
        else put_attempts M k p x m e 3) (w, s) = (r, (w', s'))" by simp
    from sent [OF this] show ?thesis by blast
  next
    case True
    obtain q s1 where hd: "s3_head M k s = (q, s1)" by (cases "s3_head M k s") auto
    note law = s3_head_service [OF ok hd]
    consider (err) err where "q = Inl err" | (free) "q = Inr None" | (there) y where "q = Inr (Some y)"
      by (cases q) auto
    then show ?thesis
    proof cases
      case err
      with run True hd law show ?thesis by (auto simp: bind_eff_def on_right_def)
    next
      case free
      with run True hd have "(if PART_BYTES < mo_bytes x then multipart M k p x m e
          else put_attempts M k p x m e 3) (w, s1) = (r, (w', s'))"
        by (simp add: bind_eff_def on_right_def)
      from sent [OF this] law show ?thesis by auto
    next
      case there
      with run True hd have r: "r = matching_existing y x" "w' = w" "s' = s1"
        by (auto simp: bind_eff_def on_right_def)
      from law there obtain ob where "objects_of V s (at M k) = Some ob" "describes y ob" by auto
      with r law True show ?thesis
        by (auto simp: matching_existing_def outcome_of_def reach_def describes_def the_condition_def
            split: if_splits)
    qed
  qed
qed

lemma s3_write_cases:
  assumes ok: "service_ok (client M) V" and run: "s3_write D M k p x e (w, s) = (r, (w', s'))"
  shows "file_at w' = file_at w
     \<and> (objects_of V s' = objects_of V s \<and> (\<exists>err. r = Inl err)
        \<or> (\<exists>c m. file_at w p = Some c \<and> sha256 D c = mo_sha256 x \<and> length c = mo_bytes x
             \<and> is_digest (mo_sha256 x) \<and> upload_metadata D (client M) x = Inr m
             \<and> outcome_of (the_condition e) (at M k) c m x r (objects_of V s) (objects_of V s')))"
proof -
  note run' = run [unfolded s3_write_def]
  show ?thesis
  proof (cases "\<exists>n w1 d w2 m. is_digest (mo_sha256 x) \<and> file_length p w = (Inr n, w1) \<and> n = mo_bytes x
      \<and> digest_file D (Stored p) w1 = (Inr d, w2) \<and> d = mo_sha256 x \<and> upload_metadata D (client M) x = Inr m")
    case False
    obtain q w1 where len: "file_length p w = (q, w1)" by (cases "file_length p w") auto
    obtain d w2 where dig: "digest_file D (Stored p) w1 = (d, w2)" by (cases "digest_file D (Stored p) w1") auto
    have "file_at w1 = file_at w" by (rule keeps_file_at [OF keeps_file_length len]) (rule observers)
    moreover have "file_at w2 = file_at w1" by (rule keeps_file_at [OF keeps_digest_file dig]) (rule observers)
    ultimately show ?thesis
      using run' False len dig
      by (cases "s3_digest_ok (mo_sha256 x)"; cases q; cases d; cases "upload_metadata D (client M) x")
        (auto simp: bind_eff_def on_left_def map_err_def s3_digest_ok_Inr split: if_splits)
  next
    case True
    then obtain w1 w2 m where h: "is_digest (mo_sha256 x)" "file_length p w = (Inr (mo_bytes x), w1)"
      "digest_file D (Stored p) w1 = (Inr (mo_sha256 x), w2)" "upload_metadata D (client M) x = Inr m"
      by blast
    have w1: "file_at w1 = file_at w" by (rule keeps_file_at [OF keeps_file_length h(2)]) (rule observers)
    have w2: "file_at w2 = file_at w1" by (rule keeps_file_at [OF keeps_digest_file h(3)]) (rule observers)
    from digest_file_InrD [OF h(3)] w1 obtain c where c: "file_at w p = Some c" "sha256 D c = mo_sha256 x"
      by auto
    with file_length_InrD [OF h(2)] have n: "length c = mo_bytes x" by simp
    have "bind_eff (if e = None then on_right (s3_head M k) else ret None) (\<lambda>existing.
           case existing of
             Some existing \<Rightarrow> of_sum (matching_existing existing x)
           | None \<Rightarrow>
               if PART_BYTES < mo_bytes x then multipart M k p x m e
               else put_attempts M k p x m e 3) (w2, s) = (r, (w', s'))"
      using run' h by (simp add: bind_eff_def on_left_def map_err_def s3_digest_ok_Inr [THEN iffD2] s3_digest_ok_def
          is_digest_def)
    from checked_write_outcome [OF ok _ n this] c n h w1 w2 show ?thesis by auto
  qed
qed

end
