(* ===== verification/S3_Properties.thy ===== *)
theory S3_Properties
  imports S3_Writes Example
begin

text \<open>
  The properties of the S3 transport, applied to a service in memory that behaves as documented.
\<close>

section \<open>A service in memory\<close>

record memory =
  mem_objects :: "(location \<times> s3_object) list"
  mem_uploads :: "(string \<times> s3_upload) list"
  mem_count :: nat

definition memory_empty :: memory where
  "memory_empty = \<lparr>mem_objects = [], mem_uploads = [], mem_count = 0\<rparr>"

definition refused :: "nat \<Rightarrow> s3_failure" where
  "refused n = \<lparr>fail_status = Some n, fail_code = None\<rparr>"

definition memory_store :: "location \<Rightarrow> bytes \<Rightarrow> metadata \<Rightarrow> precondition \<Rightarrow> (memory, s3_failure, unit) eff" where
  "memory_store l c m q s =
     (if holds q (map_of (mem_objects s) l)
      then (Inr (), s\<lparr>mem_objects := (l, \<lparr>ob_content = c, ob_metadata = m, ob_etag = decimal (mem_count s)\<rparr>)
                        # mem_objects s, mem_count := Suc (mem_count s)\<rparr>)
      else (Inl (refused 412), s))"

definition memory_client :: "memory s3_client" where
  "memory_client =
     \<lparr>head_object = (\<lambda>b k s. (case map_of (mem_objects s) (b, k) of
          None \<Rightarrow> Inl (refused 404)
        | Some ob \<Rightarrow> Inr \<lparr>ho_metadata = Some (ob_metadata ob), ho_length = Some (int (length (ob_content ob))),
                         ho_etag = Some (ob_etag ob)\<rparr>, s)),
      get_object = (\<lambda>b k s. (case map_of (mem_objects s) (b, k) of
          None \<Rightarrow> Inl (refused 404)
        | Some ob \<Rightarrow> Inr \<lparr>go_chunks = [ob_content ob], go_fails = False\<rparr>, s)),
      put_object = (\<lambda>b k m c q. memory_store (b, k) c m q),
      create_multipart = (\<lambda>b k m s.
        let i = decimal (mem_count s) in
        (Inr (Some i), s\<lparr>mem_count := Suc (mem_count s), mem_uploads :=
           (i, \<lparr>up_location = (b, k), up_metadata = m, up_parts = Map.empty\<rparr>) # mem_uploads s\<rparr>)),
      upload_part = (\<lambda>b k i n c s. (case map_of (mem_uploads s) i of
          None \<Rightarrow> (Inl (refused 404), s)
        | Some u \<Rightarrow> (Inr \<lparr>po_etag = Some (decimal n), po_crc32 = Some (decimal n)\<rparr>,
            s\<lparr>mem_uploads := (i, u\<lparr>up_parts := (up_parts u)(n \<mapsto> c)\<rparr>) # mem_uploads s\<rparr>))),
      complete_multipart = (\<lambda>b k i ps q s. (case map_of (mem_uploads s) i of
          None \<Rightarrow> (Inl (refused 404), s)
        | Some u \<Rightarrow> memory_store (b, k) (concat (map (part_content u) ps)) (up_metadata u) q s)),
      abort_multipart = (\<lambda>b k i s. (Inr (), s\<lparr>mem_uploads := filter (\<lambda>(j, _). j \<noteq> i) (mem_uploads s)\<rparr>)),
      presigned = (\<lambda>b k n s. (Inr (''https://'' @ b @ ''/'' @ k), s)),
      presignable = (\<lambda>n. n \<le> seconds 604800),
      bare_url = (\<lambda>u. takeWhile (\<lambda>c. c \<noteq> CHR ''?'' \<and> c \<noteq> CHR ''#'') (url_text u))\<rparr>"

definition memory_view :: "memory s3_view" where
  "memory_view = \<lparr>objects_of = (\<lambda>s. map_of (mem_objects s)), uploads_of = (\<lambda>s. map_of (mem_uploads s))\<rparr>"

lemma memory_store_writes:
  assumes "memory_store l c m q s = (r, s')"
  shows "writes q l c m (map_of (mem_objects s)) (is_ok r) (map_of (mem_objects s'))
     \<and> map_of (mem_uploads s') = map_of (mem_uploads s)"
  using assms by (auto simp: memory_store_def writes_def stores_def split: if_splits)

lemma memory_ok: "service_ok memory_client memory_view"
proof -
  have "heads_ok memory_client memory_view"
    by (auto simp: heads_ok_def memory_client_def memory_view_def refused_def split: option.splits)
  moreover have "gets_ok memory_client memory_view"
    by (auto simp: gets_ok_def memory_client_def memory_view_def split: option.splits)
  moreover have "puts_ok memory_client memory_view"
    by (auto simp: puts_ok_def memory_client_def memory_view_def dest: memory_store_writes)
  moreover have "uploads_ok memory_client memory_view"
    by (auto simp: uploads_ok_def memory_client_def memory_view_def Let_def split: option.splits)
  moreover have "completes_ok memory_client memory_view"
    by (auto simp: completes_ok_def memory_client_def memory_view_def part_content_def [abs_def]
        dest: memory_store_writes)
  moreover have "presigns_ok memory_client memory_view"
    by (auto simp: presigns_ok_def memory_client_def memory_view_def)
  ultimately show ?thesis by (simp add: service_ok_def)
qed

definition memory_mirror :: "memory s3_mirror" where
  "memory_mirror = \<lparr>client = memory_client, bucket = ''b'', object_prefix = ''p''\<rparr>"

text \<open>A world with one blob, and the metadata of its upload.\<close>

definition blob_world :: world where
  "blob_world = demo_world\<lparr>files := [([''f''], File [1, 2, 3])]\<rparr>"

definition blob_meta :: mirror_object where
  "blob_meta = \<lparr>mo_sha256 = demo_sha [1, 2, 3], mo_bytes = 3, mo_etag = None, mo_source = Some ''http://h/a'',
     mo_identity = Some ''env:h'', mo_fetched_at = 7\<rparr>"

definition other_memory :: memory where
  "other_memory = memory_empty\<lparr>mem_objects := [((''b'', ''p/k''), \<lparr>ob_content = [9], ob_metadata = [],
     ob_etag = ''e''\<rparr>)], mem_count := 1\<rparr>"

definition put_run :: "artifact_key \<Rightarrow> memory \<Rightarrow> (datastore_error + put_outcome) \<times> memory" where
  "put_run k s = (case s3_put demo memory_mirror k [''f''] blob_meta (blob_world, s) of (r, (w, s')) \<Rightarrow> (r, s'))"

section \<open>Properties\<close>


lemma put_run_stored: "fst (put_run (ArtifactKey ''j'') other_memory) = Inr Stored_object"
  by code_simp


text \<open>C15: when \<open>put\<close> succeeds, the object under the key has the digest and the size asked for in its
  metadata; when it reports a new object, the key was free and the object is the local file, whose
  digest and size were those asked for.\<close>

theorem s3_put_stores_the_blob:
  assumes "service_ok (client M) V" "s3_put D M k p x (w, s) = (Inr out, (w', s'))"
  shows "\<exists>ob. objects_of V s' (bucket M, object_name M k) = Some ob
     \<and> map_of (ob_metadata ob) ''sha256'' = Some (mo_sha256 x) \<and> length (ob_content ob) = mo_bytes x
     \<and> (out = Stored_object \<longrightarrow> objects_of V s (bucket M, object_name M k) = None
          \<and> file_at w p = Some (ob_content ob) \<and> sha256 D (ob_content ob) = mo_sha256 x)"
proof -
  from s3_write_cases [OF assms(1) assms(2) [unfolded s3_put_def]] obtain c m where
    c: "file_at w p = Some c" "sha256 D c = mo_sha256 x" "length c = mo_bytes x"
      "upload_metadata D (client M) x = Inr m"
    and o: "outcome_of If_none_match_any (at M k) c m x (Inr out) (objects_of V s) (objects_of V s')"
    by (auto simp: the_condition_def)
  from upload_metadata_Inr [OF c(4)] have "map_of m ''sha256'' = Some (mo_sha256 x)" by simp
  with c o show ?thesis
    by (cases out) (auto simp: outcome_of_def stores_def describes_def)
qed

lemma put_run_done: "fst (put_run (ArtifactKey ''k'') memory_empty) = Inr Stored_object"
  by code_simp

lemma put_run_steps:
  assumes "fst (put_run k s) = Inr out"
  obtains w' where "s3_put demo memory_mirror k [''f''] blob_meta (blob_world, s)
      = (Inr out, (w', snd (put_run k s)))"
  using assms by (auto simp: put_run_def split: prod.splits)

lemma memory_mirror_ok: "service_ok (client memory_mirror) memory_view"
  by (simp add: memory_mirror_def memory_ok)

lemma s3_put_stores_the_blob_witness:
  "\<exists>ob. map_of (mem_objects (snd (put_run (ArtifactKey ''k'') memory_empty))) (''b'', ''p/k'') = Some ob
     \<and> file_at blob_world [''f''] = Some (ob_content ob)"
proof -
  obtain w' where run: "s3_put demo memory_mirror (ArtifactKey ''k'') [''f''] blob_meta (blob_world, memory_empty)
      = (Inr Stored_object, (w', snd (put_run (ArtifactKey ''k'') memory_empty)))"
    by (rule put_run_steps [OF put_run_done])
  have "(bucket memory_mirror, object_name memory_mirror (ArtifactKey ''k'')) = (''b'', ''p/k'')"
    by code_simp
  with s3_put_stores_the_blob [OF memory_mirror_ok run] show ?thesis
    by (auto simp: memory_view_def)
qed

text \<open>C16: a repair changes at most the object under its key, and only when that object carried the
  ETag that was observed.\<close>

theorem s3_replace_changes_only_what_was_observed:
  assumes "service_ok (client M) V" "s3_replace D M k p x etag (w, s) = (r, (w', s'))"
  shows "(\<forall>l. l \<noteq> (bucket M, object_name M k) \<longrightarrow> objects_of V s' l = objects_of V s l)
     \<and> (objects_of V s' \<noteq> objects_of V s \<longrightarrow>
          (\<exists>ob. objects_of V s (bucket M, object_name M k) = Some ob \<and> ob_etag ob = etag \<and> etag \<noteq> []))"
proof (cases "etag = []")
  case True
  with assms(2) show ?thesis by (auto simp: s3_replace_def)
next
  case False
  with assms(2) have "s3_write D M k p x (Some etag) (w, s) = (r, (w', s'))" by (simp add: s3_replace_def)
  from s3_write_cases [OF assms(1) this] False show ?thesis
    by (auto simp: outcome_of_def the_condition_def dest: reach_elsewhere reach_if_match)
qed

lemma s3_replace_changes_only_what_was_observed_witness:
  "\<exists>ob. map_of (mem_objects other_memory) (''b'', ''p/k'') = Some ob \<and> ob_etag ob = ''e''"
proof -
  obtain r w' s' where run: "s3_replace demo memory_mirror (ArtifactKey ''k'') [''f''] blob_meta ''e''
      (blob_world, other_memory) = (r, (w', s'))"
    by (cases "s3_replace demo memory_mirror (ArtifactKey ''k'') [''f''] blob_meta ''e'' (blob_world, other_memory)") auto
  have "case s3_replace demo memory_mirror (ArtifactKey ''k'') [''f''] blob_meta ''e'' (blob_world, other_memory) of
      (r, (w', s')) \<Rightarrow> length (mem_objects s') \<noteq> length (mem_objects other_memory)
        \<and> map_option ob_content (map_of (mem_objects s') (''b'', ''p/k''))
          \<noteq> map_option ob_content (map_of (mem_objects other_memory) (''b'', ''p/k''))"
    by code_simp
  with run have "objects_of memory_view s' \<noteq> objects_of memory_view other_memory"
    by (auto simp: memory_view_def)
  moreover have "(bucket memory_mirror, object_name memory_mirror (ArtifactKey ''k'')) = (''b'', ''p/k'')"
    by code_simp
  ultimately show ?thesis
    using s3_replace_changes_only_what_was_observed [OF memory_mirror_ok run] by (auto simp: memory_view_def)
qed

text \<open>C17: what \<open>put\<close> has stored is what \<open>head\<close> reports: digest, size, time, identity, and the source
  URL without query and fragment.\<close>

theorem s3_head_reports_what_was_put:
  assumes "service_ok (client M) V"
    and "s3_put D M k p x (w, s) = (Inr Stored_object, (w', s'))" "s3_head M k s' = (Inr o', s'')"
    and "mo_bytes x \<le> u64_max" "mo_fetched_at x \<le> u64_max"
  shows "\<exists>y. o' = Some y \<and> mo_sha256 y = mo_sha256 x \<and> mo_bytes y = mo_bytes x
     \<and> mo_fetched_at y = mo_fetched_at x \<and> mo_identity y = mo_identity x
     \<and> mo_source y = Option.bind (mo_source x) (\<lambda>text. case url_parse D text of
          Inl _ \<Rightarrow> None
        | Inr u \<Rightarrow> if scheme u = ''http'' \<or> scheme u = ''https'' then Some (bare_url (client M) u) else None)"
proof -
  from s3_write_cases [OF assms(1) assms(2) [unfolded s3_put_def]] obtain c m ob where
    c: "length c = mo_bytes x" "upload_metadata D (client M) x = Inr m"
    and ob: "objects_of V s' (at M k) = Some ob" "ob_content ob = c" "ob_metadata ob = m"
    by (auto simp: the_condition_def outcome_of_def stores_def)
  note meta = upload_metadata_Inr [OF c(2)]
  obtain q where h: "head_object (client M) (bucket M) (object_name M k) s' = (q, s'')"
    and q: "(case q of
         Inr out \<Rightarrow> of_sum (bind_sum (object_of_head out) (\<lambda>x. Inr (Some x)))
       | Inl e \<Rightarrow> if fail_status e = Some 404 then ret None else throw (service_error M k ''HEAD'' e)) s''
       = (Inr o', s'')"
    using assms(3) unfolding s3_head_def by (auto elim!: handleE split: sum.splits if_splits)
  note law = assms(1) [unfolded service_ok_def, THEN conjunct1, unfolded heads_ok_def, rule_format, OF h]
  from q law ob obtain out where out: "q = Inr out" by (cases q) (auto split: if_splits)
  with law ob obtain m' where m': "ho_length out = Some (int (length c))" "ho_metadata out = Some m'"
    "map_of m' = map_of m" by auto
  from q out obtain y where y: "object_of_head out = Inr y" "o' = Some y"
    by (auto simp: bind_sum_Inr_iff)
  have "mo_fetched_at y = mo_fetched_at x \<and> mo_bytes y = mo_bytes x"
    using y(1) m' meta assms(4,5) c(1) unfolding object_of_head_def Let_def
    by (auto simp: sum_iff parse_u64_decimal split: option.splits if_splits)
  with object_of_head_Inr [OF y(1) m'(2)] m'(3) meta y(2) show ?thesis by auto
qed

lemma s3_head_reports_what_was_put_witness:
  "\<exists>y. fst (s3_head memory_mirror (ArtifactKey ''k'') (snd (put_run (ArtifactKey ''k'') memory_empty)))
     = Inr (Some y) \<and> mo_identity y = Some ''env:h'' \<and> mo_fetched_at y = 7"
proof -
  obtain w' where run: "s3_put demo memory_mirror (ArtifactKey ''k'') [''f''] blob_meta (blob_world, memory_empty)
      = (Inr Stored_object, (w', snd (put_run (ArtifactKey ''k'') memory_empty)))"
    by (rule put_run_steps [OF put_run_done])
  have "is_ok (fst (s3_head memory_mirror (ArtifactKey ''k'') (snd (put_run (ArtifactKey ''k'') memory_empty))))"
    by code_simp
  then obtain o1 s1 where head: "s3_head memory_mirror (ArtifactKey ''k'')
      (snd (put_run (ArtifactKey ''k'') memory_empty)) = (Inr o1, s1)"
    by (cases "s3_head memory_mirror (ArtifactKey ''k'') (snd (put_run (ArtifactKey ''k'') memory_empty))")
      (auto simp: is_ok_iff)
  from s3_head_reports_what_was_put [OF memory_mirror_ok run head] show ?thesis
    by (auto simp: head blob_meta_def u64_max_def)
qed

text \<open>C18: the parts of a large upload are numbered from 1, are at most 10000, the limit of the service,
  and put together are the file.\<close>

theorem s3_parts_are_the_file:
  assumes "service_ok (client M) V" "uploads_of V s i = Some u" "file_at w p = Some c"
    and "upload_parts M k p i (length c) 0 [] (w, s) = (Inr ps, (w', s'))"
  shows "length ps \<le> 10000 \<and> map cp_number ps = [1..<Suc (length ps)]
     \<and> (\<exists>u'. uploads_of V s' i = Some u' \<and> concat (map (part_content u') ps) = c)"
proof -
  note up = upload_parts_service [OF assms(1,4,3) refl assms(2)]
  then have n: "length ps = parts_needed (part_size (length c)) (length c)" by simp
  from up have "sent_parts V i u [] ps c s'" by simp
  then show ?thesis
    using n ten_thousand_parts [of "length c"] by (auto elim!: sent_parts_content)
qed

definition begun_memory :: memory where
  "begun_memory = memory_empty\<lparr>mem_uploads := [(''0'', \<lparr>up_location = (''b'', ''p/k''), up_metadata = [],
     up_parts = Map.empty\<rparr>)], mem_count := 1\<rparr>"

lemma s3_parts_are_the_file_witness:
  "\<exists>ps u' (s' :: memory). map cp_number ps = [1..<Suc (length ps)] \<and> concat (map (part_content u') ps) = [1, 2, 3]
     \<and> map_of (mem_uploads s') ''0'' = Some u'"
proof -
  have f: "file_at blob_world [''f''] = Some [1, 2, 3]"
    by (simp add: file_at_def node_at_def blob_world_def)
  have "is_ok (fst (upload_parts memory_mirror (ArtifactKey ''k'') [''f''] ''0'' 3 0 [] (blob_world, begun_memory)))"
    by (simp add: upload_parts.simps) code_simp
  then have "is_ok (fst (upload_parts memory_mirror (ArtifactKey ''k'') [''f''] ''0'' (length [1, 2, 3 :: byte])
      0 [] (blob_world, begun_memory)))" by (simp add: numeral_3_eq_3)
  then obtain ps w' s' where run: "upload_parts memory_mirror (ArtifactKey ''k'') [''f''] ''0''
      (length [1, 2, 3 :: byte]) 0 [] (blob_world, begun_memory) = (Inr ps, (w', s'))"
    by (cases "upload_parts memory_mirror (ArtifactKey ''k'') [''f''] ''0'' (length [1, 2, 3 :: byte]) 0 []
      (blob_world, begun_memory)") (auto simp: is_ok_iff)
  obtain u where "uploads_of memory_view begun_memory ''0'' = Some u"
    by (simp add: memory_view_def begun_memory_def)
  from s3_parts_are_the_file [OF memory_mirror_ok this f run] show ?thesis
    unfolding memory_view_def by (simp del: upt_Suc) blast
qed

end
