(* ===== verification/Config.thy ===== *)
theory Config
  imports Credential_Config S3 Store
begin

text \<open>
  \<open>src/config.rs\<close>, the builder of \<open>src/store/mod.rs\<close> and the choice of a mirror in
  \<open>src/mirror/mod.rs\<close>: where the settings of a store come from.  What is read outside the program (the
  process, the file system around the cache, the \<open>toml\<close> crate with the derived codec of the
  configuration structs, the HTTP and S3 clients) is a record; paths are their text.  Warnings
  that are printed are returned beside the result of the functions that print them.
\<close>

section \<open>The configuration file\<close>

datatype ip_addr = Ipv4 "byte list" | Ipv6 "16 word list"

record socket_addr =
  ip :: ip_addr
  tcp_port :: nat

record cache_policy =
  evict_on_fetch :: bool
  retained_max :: u64
  fills_max :: u64
  artifact_max :: u64
  inflight_max :: u64
  min_free :: u64

record service_config =
  sv_cache :: "cache_policy option"
  sv_manifest :: "string option"
  sv_bucket :: "string option"
  sv_region :: "string option"
  sv_bind :: "socket_addr option"
  sv_credentials :: "string list option"

text \<open>\<open>cfg_services\<close> is a \<open>BTreeMap\<close>: its entries in the order of their names.\<close>

record datastore_config =
  cfg_cache_dir :: "string option"
  cfg_mirror :: "string option"
  cfg_mirror_region :: "string option"
  cfg_allow_upstream :: "bool option"
  cfg_offline :: "bool option"
  cfg_cache_max :: "u64 option"
  cfg_credentials :: "credential_config list"
  cfg_services :: "(string \<times> service_config) list"

definition service_config_default :: service_config where
  "service_config_default = \<lparr>sv_cache = None, sv_manifest = None, sv_bucket = None, sv_region = None,
     sv_bind = None, sv_credentials = None\<rparr>"

definition config_default :: datastore_config where
  "config_default = \<lparr>cfg_cache_dir = None, cfg_mirror = None, cfg_mirror_region = None,
     cfg_allow_upstream = None, cfg_offline = None, cfg_cache_max = None, cfg_credentials = [],
     cfg_services = []\<rparr>"

text \<open>
  \<open>toml_read\<close> is \<open>toml::from_str\<close> at the configuration type, an error being the start of its span,
  and \<open>toml_write\<close> is \<open>to_string_pretty\<close>; \<open>http_support\<close> and \<open>s3_support\<close> say which features were
  built in; \<open>http_client\<close> whether a client can be built; \<open>s3_connect\<close> is the SDK's configuration
  of a region.
\<close>

record surroundings =
  sur_process :: process
  path_exists :: "string \<Rightarrow> bool"
  canonicalize :: "string \<Rightarrow> io_error + string"
  toml_read :: "string \<Rightarrow> nat option + datastore_config"
  toml_write :: "datastore_config \<Rightarrow> string option"
  http_support :: bool
  s3_support :: bool
  http_client :: bool
  s3_connect :: "string \<Rightarrow> io_error + world s3_client"

definition policy_validate :: "cache_policy \<Rightarrow> datastore_error + unit" where
  "policy_validate p =
     (if fills_max p = 0 \<or> artifact_max p = 0 \<or> inflight_max p < artifact_max p
         \<or> checked_add (inflight_max p) (min_free p) = None
         \<or> checked_add (inflight_max p) (retained_max p) = None
      then Inl (Config ''invalid service cache limits'') else Inr ())"

text \<open>The loop over the credentials yields the set of their names.\<close>

fun validate_names :: "string set \<Rightarrow> credential_config list \<Rightarrow> datastore_error + string set" where
  "validate_names names [] = Inr names"
| "validate_names names (e # es) =
     (if cc_name e \<in> names then Inl (Config (''duplicate credential '' @ cc_name e))
      else bind_sum (validate_entries [e]) (\<lambda>_. validate_names (insert (cc_name e) names) es))"

definition validate_service ::
    "datastore_config \<Rightarrow> string set \<Rightarrow> string \<times> service_config \<Rightarrow> datastore_error + unit" where
  "validate_service cfg names = (\<lambda>(name, service).
     bind_sum
       (case sv_cache service of
          None \<Rightarrow> Inr ()
        | Some policy \<Rightarrow>
            bind_sum (policy_validate policy) (\<lambda>_.
              if evict_on_fetch policy \<and> cfg_cache_dir cfg = None
              then Inl (Config ''automatic service eviction requires an explicit cache_dir'')
              else Inr ())) (\<lambda>_.
     if trim name = [] then Inl (Config ''service name is empty'')
     else
       (case sv_credentials service of
          None \<Rightarrow> Inr ()
        | Some selected \<Rightarrow>
            (case List.find (\<lambda>c. c \<notin> names) selected of
               None \<Rightarrow> Inr ()
             | Some c \<Rightarrow> Inl (Config (''service '' @ name @ '' names unknown credential '' @ c))))))"

definition validate_config :: "datastore_config \<Rightarrow> datastore_error + unit" where
  "validate_config cfg =
     bind_sum (validate_names {} (cfg_credentials cfg)) (\<lambda>names.
     bind_sum (traverse (validate_service cfg names) (cfg_services cfg)) (\<lambda>_. Inr ()))"

text \<open>The line of a byte offset.\<close>

definition line_of :: "string \<Rightarrow> nat \<Rightarrow> nat" where
  "line_of text start = length (filter (\<lambda>c. c = CHR 0x0A) (take (min start (length text)) text)) + 1"

definition config_from_toml :: "surroundings \<Rightarrow> string \<Rightarrow> datastore_error + datastore_config" where
  "config_from_toml X text =
     bind_sum
       (map_error (\<lambda>start. Config (''invalid configuration''
            @ (case start of Some n \<Rightarrow> '' at line '' @ decimal (line_of text n) | None \<Rightarrow> [])
            @ ''; check field names and credential types'')) (toml_read X text)) (\<lambda>cfg.
     bind_sum (validate_config cfg) (\<lambda>_. Inr cfg))"

definition config_to_toml :: "surroundings \<Rightarrow> datastore_config \<Rightarrow> datastore_error + string" where
  "config_to_toml X cfg = ok_or (Config ''configuration cannot be represented as TOML'') (toml_write X cfg)"

text \<open>\<open>Path::parent\<close> of a canonical path, which is absolute and does not end with a slash.\<close>

definition parent_path :: "string \<Rightarrow> string" where
  "parent_path p =
     (let d = rev (drop 1 (dropWhile (\<lambda>c. c \<noteq> CHR ''/'') (rev p))) in if d = [] then ''/'' else d)"

definition rebase :: "string \<Rightarrow> string \<Rightarrow> string" where
  "rebase parent p = (if starts_with p ''/'' then p else path_join parent p)"

definition config_from_path :: "surroundings \<Rightarrow> string \<Rightarrow> datastore_error + datastore_config" where
  "config_from_path X p =
     bind_sum (map_error (\<lambda>e. Config (''cannot read configuration '' @ p @ '': '' @ io_message e
            @ ''; supply --config or mount the file at this path'')) (read_text (sur_process X) p)) (\<lambda>text.
     bind_sum (config_from_toml X text) (\<lambda>cfg.
     bind_sum (map_error Io (canonicalize X p)) (\<lambda>base.
       let parent = parent_path base in
       Inr (cfg\<lparr>cfg_cache_dir := map_option (rebase parent) (cfg_cache_dir cfg),
                cfg_services := map (\<lambda>(n, s). (n, s\<lparr>sv_manifest := map_option (rebase parent) (sv_manifest s)\<rparr>))
                  (cfg_services cfg)\<rparr>))))"

section \<open>The environment\<close>

definition ENV_CACHE_DIR :: string where "ENV_CACHE_DIR = ''STARFIELD_CACHE_DIR''"
definition ENV_MIRROR :: string where "ENV_MIRROR = ''STARFIELD_MIRROR''"
definition ENV_MIRROR_REGION :: string where "ENV_MIRROR_REGION = ''STARFIELD_MIRROR_REGION''"
definition ENV_ALLOW_UPSTREAM :: string where "ENV_ALLOW_UPSTREAM = ''STARFIELD_ALLOW_UPSTREAM''"
definition ENV_OFFLINE :: string where "ENV_OFFLINE = ''STARFIELD_OFFLINE''"
definition ENV_CACHE_MAX :: string where "ENV_CACHE_MAX = ''STARFIELD_CACHE_MAX''"
definition ENV_CONFIG_FILE :: string where "ENV_CONFIG_FILE = ''STARFIELD_DATASTORE_CONFIG''"
definition ENV_OP_ITEM :: string where "ENV_OP_ITEM = ''STARFIELD_OP_ITEM''"

text \<open>A variable that is set, is UTF-8 and is not blank.\<close>

definition env_text :: "process \<Rightarrow> string \<Rightarrow> string option" where
  "env_text P name = (case env_var P name of Var v \<Rightarrow> if trim v = [] then None else Some v | _ \<Rightarrow> None)"

definition home_path :: "process \<Rightarrow> string option" where
  "home_path P = env_text P ''HOME''"

definition true_words :: "string list" where
  "true_words = [''1'', ''true'', ''yes'', ''on'']"

definition false_words :: "string list" where
  "false_words = [''0'', ''false'', ''no'', ''off'']"

definition parse_bool :: "string \<Rightarrow> string \<Rightarrow> datastore_error + bool" where
  "parse_bool name raw =
     (let other = ascii_lowercase (trim raw) in
      if other \<in> set true_words then Inr True
      else if other \<in> set false_words then Inr False
      else Inl (Config (name @ '' must be 1/0, true/false, yes/no or on/off, got '' @ debug_str other)))"

definition env_bool :: "process \<Rightarrow> string \<Rightarrow> datastore_error + bool option" where
  "env_bool P name =
     (case env_text P name of
        None \<Rightarrow> Inr None
      | Some raw \<Rightarrow> bind_sum (parse_bool name raw) (\<lambda>b. Inr (Some b)))"

definition or_else :: "'a option \<Rightarrow> 'a option \<Rightarrow> 'a option" where
  "or_else a b = (case a of Some x \<Rightarrow> Some x | None \<Rightarrow> b)"

definition config_path :: "process \<Rightarrow> string option" where
  "config_path P =
     (case env_text P ENV_CONFIG_FILE of
        Some explicit \<Rightarrow> Some explicit
      | None \<Rightarrow>
          map_option (\<lambda>base. path_join (path_join base ''starfield'') ''datastore.toml'')
            (or_else (env_text P ''XDG_CONFIG_HOME'') (map_option (\<lambda>h. path_join h ''.config'') (home_path P))))"

definition default_cache_root :: "process \<Rightarrow> datastore_error + string" where
  "default_cache_root P =
     bind_sum (ok_or (Config (''cannot locate a cache directory: set '' @ ENV_CACHE_DIR @ '' or HOME''))
       (or_else (env_text P ''XDG_CACHE_HOME'') (map_option (\<lambda>h. path_join h ''.cache'') (home_path P))))
       (\<lambda>base. Inr (path_join base ''starfield''))"

definition config_from_env :: "surroundings \<Rightarrow> datastore_error + datastore_config" where
  "config_from_env X =
     (case config_path (sur_process X) of
        None \<Rightarrow> Inr config_default
      | Some p \<Rightarrow> if \<not> path_exists X p then Inr config_default else config_from_path X p)"

section \<open>Mirrors\<close>

datatype mirror_spec = Http_mirror string bool | S3_mirror string string string bool

definition parse_mirror :: "process \<Rightarrow> string \<Rightarrow> string option \<Rightarrow> datastore_error + mirror_spec" where
  "parse_mirror P spec region =
     (case strip_prefix ''s3://'' spec of
        Some r \<Rightarrow>
          (let (b, pre) = (case split_once (CHR ''/'') r of Some bp \<Rightarrow> bp | None \<Rightarrow> (r, [])) in
           if b = [] then Inl (Config (''mirror '' @ debug_str spec @ '' has no bucket''))
           else
             bind_sum (ok_or (Config (''S3 mirror '' @ spec @ '' needs a region: set ''
                 @ ENV_MIRROR_REGION @ '' or AWS_REGION''))
               (or_else region (or_else (env_text P ''AWS_REGION'') (env_text P ''AWS_DEFAULT_REGION'')))) (\<lambda>region.
               Inr (S3_mirror b (trim_matches (CHR ''/'') pre) region False)))
      | None \<Rightarrow>
          if starts_with spec ''http://'' \<or> starts_with spec ''https://''
          then Inr (Http_mirror (trim_end_matches (CHR ''/'') spec) False)
          else Inl (Config (''mirror '' @ debug_str spec @ '' must be an http(s):// URL or s3://bucket/prefix'')))"

definition open_mirror :: "crates \<Rightarrow> surroundings \<Rightarrow> mirror_spec \<Rightarrow> datastore_error + mirror_read" where
  "open_mirror D X m =
     (case m of
        Http_mirror base_url _ \<Rightarrow>
          if http_support X
          then bind_sum (http_mirror_new D base_url) (\<lambda>r. if http_client X then Inr r else Inl Http)
          else Inl (Mirror ''this build has no HTTP mirror support (feature `mirror-http`)'')
      | S3_mirror b pre region _ \<Rightarrow>
          if s3_support X
          then bind_sum (s3_mirror_new (s3_connect X) b pre region) (\<lambda>M. Inr (s3_mirror_read M))
          else Inl (Mirror ''this build has no S3 mirror support (feature `mirror-s3`)''))"

section \<open>The builder\<close>

type_synonym progress_fn = "u64 \<Rightarrow> u64 option \<Rightarrow> unit"

record builder =
  b_cache_root :: "string option"
  b_mirror :: "mirror_spec option"
  b_credentials :: "provider option"
  b_allow_upstream :: "bool option"
  b_offline :: "bool option"
  b_timeout :: "nat option"
  b_progress :: "bool option"
  b_on_progress :: "progress_fn option"
  b_max_bytes :: "u64 option"

definition builder_default :: builder where
  "builder_default = \<lparr>b_cache_root = None, b_mirror = None, b_credentials = None, b_allow_upstream = None,
     b_offline = None, b_timeout = None, b_progress = None, b_on_progress = None, b_max_bytes = None\<rparr>"

definition with_cache_root :: "string \<Rightarrow> builder \<Rightarrow> builder" where
  "with_cache_root path b = b\<lparr>b_cache_root := Some path\<rparr>"

definition with_mirror :: "mirror_spec \<Rightarrow> builder \<Rightarrow> builder" where
  "with_mirror m b = b\<lparr>b_mirror := Some m\<rparr>"

definition without_mirror :: "builder \<Rightarrow> builder" where
  "without_mirror b = b\<lparr>b_mirror := None\<rparr>"

definition with_credentials :: "provider \<Rightarrow> builder \<Rightarrow> builder" where
  "with_credentials p b = b\<lparr>b_credentials := Some p\<rparr>"

definition with_allow_upstream :: "bool \<Rightarrow> builder \<Rightarrow> builder" where
  "with_allow_upstream allow b = b\<lparr>b_allow_upstream := Some allow\<rparr>"

definition with_offline :: "bool \<Rightarrow> builder \<Rightarrow> builder" where
  "with_offline off b = b\<lparr>b_offline := Some off\<rparr>"

definition with_timeout :: "nat \<Rightarrow> builder \<Rightarrow> builder" where
  "with_timeout t b = b\<lparr>b_timeout := Some t\<rparr>"

definition with_progress :: "bool \<Rightarrow> builder \<Rightarrow> builder" where
  "with_progress on b = b\<lparr>b_progress := Some on\<rparr>"

definition with_on_progress :: "progress_fn \<Rightarrow> builder \<Rightarrow> builder" where
  "with_on_progress f b = b\<lparr>b_on_progress := Some f\<rparr>"

definition with_max_bytes :: "u64 \<Rightarrow> builder \<Rightarrow> builder" where
  "with_max_bytes n b = b\<lparr>b_max_bytes := Some n\<rparr>"

text \<open>The provider of a selection, and the warnings printed.\<close>

definition provider_with_warnings ::
    "process \<Rightarrow> credential_config list \<Rightarrow> datastore_error + provider \<times> string list" where
  "provider_with_warnings P es =
     bind_sum (configured_provider P es) (\<lambda>(p, skipped).
       Inr (p, map (\<lambda>s. ''warning: '' @ show_skipped s) skipped))"

definition default_credentials :: "process \<Rightarrow> provider" where
  "default_credentials P =
     chain_provider ([env_provider P, netrc_provider P]
       @ (if op_feature P
          then (case env_text P ENV_OP_ITEM of Some item \<Rightarrow> [one_password_provider P item] | None \<Rightarrow> [])
          else []))"

text \<open>One setting after the other: the builder's, then the environment's, then the file's.\<close>

definition resolve_mirror ::
    "process \<Rightarrow> builder \<Rightarrow> datastore_config \<Rightarrow> datastore_error + mirror_spec option" where
  "resolve_mirror P b file =
     (case b_mirror b of
        Some m \<Rightarrow> Inr (Some m)
      | None \<Rightarrow>
          (let region = or_else (env_text P ENV_MIRROR_REGION) (cfg_mirror_region file) in
           case or_else (env_text P ENV_MIRROR) (cfg_mirror file) of
             Some spec \<Rightarrow> bind_sum (parse_mirror P spec region) (\<lambda>m. Inr (Some m))
           | None \<Rightarrow> Inr None))"

definition resolve_flag ::
    "process \<Rightarrow> string \<Rightarrow> bool option \<Rightarrow> bool option \<Rightarrow> datastore_error + bool option" where
  "resolve_flag P name explicit file =
     (case explicit of
        Some v \<Rightarrow> Inr (Some v)
      | None \<Rightarrow> bind_sum (env_bool P name) (\<lambda>v. Inr (or_else v file)))"

definition resolve_credentials ::
    "process \<Rightarrow> builder \<Rightarrow> datastore_config \<Rightarrow> datastore_error + provider \<times> string list" where
  "resolve_credentials P b file =
     (case b_credentials b of
        Some p \<Rightarrow> Inr (p, [])
      | None \<Rightarrow>
          bind_sum (provider_with_warnings P (cfg_credentials file)) (\<lambda>(p, warnings).
            Inr (chain_provider [p, default_credentials P], warnings)))"

definition resolve_max_bytes ::
    "process \<Rightarrow> builder \<Rightarrow> datastore_config \<Rightarrow> datastore_error + u64 option" where
  "resolve_max_bytes P b file =
     (case b_max_bytes b of
        Some n \<Rightarrow> Inr (Some n)
      | None \<Rightarrow>
          (case env_text P ENV_CACHE_MAX of
             Some raw \<Rightarrow>
               bind_sum (ok_or (Config (ENV_CACHE_MAX @ '' must be a byte count, got '' @ debug_str raw))
                 (parse_u64 raw)) (\<lambda>n. Inr (Some n))
           | None \<Rightarrow> Inr (cfg_cache_max file)))"

definition apply_file ::
    "surroundings \<Rightarrow> builder \<Rightarrow> datastore_config \<Rightarrow> datastore_error + builder \<times> string list" where
  "apply_file X b file =
     (let P = sur_process X;
          root = (case b_cache_root b of
              Some r \<Rightarrow> Some r | None \<Rightarrow> or_else (env_text P ENV_CACHE_DIR) (cfg_cache_dir file)) in
      bind_sum (resolve_mirror P b file) (\<lambda>m.
      bind_sum (resolve_flag P ENV_ALLOW_UPSTREAM (b_allow_upstream b) (cfg_allow_upstream file)) (\<lambda>allow.
      bind_sum (resolve_flag P ENV_OFFLINE (b_offline b) (cfg_offline file)) (\<lambda>off.
      bind_sum (resolve_credentials P b file) (\<lambda>(p, warnings).
      bind_sum (resolve_max_bytes P b file) (\<lambda>n.
        Inr (b\<lparr>b_cache_root := root, b_mirror := m, b_allow_upstream := allow, b_offline := off,
               b_credentials := Some p, b_max_bytes := n\<rparr>, warnings)))))))"

definition builder_from_env :: "surroundings \<Rightarrow> datastore_error + builder \<times> string list" where
  "builder_from_env X = bind_sum (config_from_env X) (apply_file X builder_default)"

definition config_builder :: "surroundings \<Rightarrow> datastore_config \<Rightarrow> datastore_error + builder \<times> string list" where
  "config_builder X cfg = bind_sum (validate_config cfg) (\<lambda>_. apply_file X builder_default cfg)"

definition selected_credential ::
    "datastore_config \<Rightarrow> string \<Rightarrow> datastore_error + credential_config" where
  "selected_credential cfg name =
     ok_or (Config (''unknown credential '' @ name))
       (List.find (\<lambda>e. cc_name e = name) (cfg_credentials cfg))"

definition builder_for_service ::
    "surroundings \<Rightarrow> datastore_config \<Rightarrow> string \<Rightarrow> datastore_error + builder \<times> string list" where
  "builder_for_service X cfg name =
     bind_sum (ok_or (Config (''unknown service '' @ name)) (map_of (cfg_services cfg) name)) (\<lambda>service.
     bind_sum (validate_config cfg) (\<lambda>_.
       case sv_credentials service of
         None \<Rightarrow> apply_file X builder_default cfg
       | Some names \<Rightarrow>
           bind_sum (traverse (selected_credential cfg) names) (\<lambda>entries.
           bind_sum (provider_with_warnings (sur_process X) entries) (\<lambda>(p, warnings).
           bind_sum (apply_file X (with_credentials p builder_default) cfg) (\<lambda>(b, more_warnings).
             Inr (b, warnings @ more_warnings))))))"

datatype progress_mode = Bars | Progress_off | Progress_callback progress_fn

definition DEFAULT_TIMEOUT :: nat where
  "DEFAULT_TIMEOUT = 30"

definition progress_of :: "builder \<Rightarrow> progress_mode" where
  "progress_of b =
     (case (b_on_progress b, b_progress b) of
        (Some callback, _) \<Rightarrow> Progress_callback callback
      | (None, Some False) \<Rightarrow> Progress_off
      | (None, _) \<Rightarrow> Bars)"

text \<open>The store with the root it lives under; the world is the tree below that root.\<close>

definition build :: "crates \<Rightarrow> surroundings \<Rightarrow> builder \<Rightarrow> (string \<times> datastore) action" where
  "build D X b =
     bind_eff (of_sum (case b_cache_root b of
         Some r \<Rightarrow> Inr r | None \<Rightarrow> default_cache_root (sur_process X))) (\<lambda>root.
     bind_eff ensure (\<lambda>_.
     bind_eff (of_sum (if http_client X then Inr () else Inl Http)) (\<lambda>_.
     bind_eff (of_sum (case b_mirror b of
         None \<Rightarrow> Inr None | Some m \<Rightarrow> bind_sum (open_mirror D X m) (\<lambda>r. Inr (Some r)))) (\<lambda>m.
       ret (root, \<lparr>ds_mirror = m, ds_provider = b_credentials b,
         allow_upstream = (case b_allow_upstream b of Some v \<Rightarrow> v | None \<Rightarrow> False),
         offline = (case b_offline b of Some v \<Rightarrow> v | None \<Rightarrow> False),
         ds_max_bytes = b_max_bytes b\<rparr>)))))"

definition datastore_from_env :: "crates \<Rightarrow> surroundings \<Rightarrow> (string \<times> datastore) action" where
  "datastore_from_env D X =
     bind_eff (of_sum (builder_from_env X)) (\<lambda>(b, _). build D X b)"

end
