(* ===== verification/Config_Properties.thy ===== *)
theory Config_Properties
  imports Config Resolution Credential_Properties
begin

text \<open>
  The properties of the configuration: which setting wins, what a validated file guarantees, and
  what has to be set before a store goes upstream.
\<close>

section \<open>The example\<close>

definition demo_policy :: cache_policy where
  "demo_policy = \<lparr>evict_on_fetch = True, retained_max = 100, fills_max = 2, artifact_max = 10,
     inflight_max = 20, min_free = 5\<rparr>"

definition demo_config :: datastore_config where
  "demo_config = config_default\<lparr>cfg_cache_dir := Some ''cache'', cfg_allow_upstream := Some True,
     cfg_offline := Some True, cfg_credentials := [demo_credential, demo_future],
     cfg_services := [(''s'', service_config_default\<lparr>sv_cache := Some demo_policy,
       sv_credentials := Some [''n'']\<rparr>)]\<rparr>"

definition demo_surroundings :: surroundings where
  "demo_surroundings =
     \<lparr>sur_process = demo_process\<lparr>env_var := (\<lambda>v. if v = ENV_OFFLINE then Var '' No '' else
        if v = ''HOME'' then Var ''/home/u'' else Not_present),
        read_text := (\<lambda>p. if p = ''/home/u/.config/starfield/datastore.toml'' then Inr ''the file''
          else Inl not_found_error)\<rparr>,
      path_exists = (\<lambda>_. True), canonicalize = (\<lambda>p. Inr p), toml_read = (\<lambda>_. Inr demo_config),
      toml_write = (\<lambda>_. None), http_support = True, s3_support = True, http_client = True,
      s3_connect = (\<lambda>_. Inl not_found_error)\<rparr>"

section \<open>Validated files\<close>

lemma validate_names_Inr:
  "validate_names ns es = Inr ns' \<Longrightarrow> ns' = ns \<union> set (map cc_name es) \<and> distinct (map cc_name es)
     \<and> (\<forall>e \<in> set es. cc_name e \<notin> ns \<and> validate_entries [e] = Inr ())"
proof (induction ns es rule: validate_names.induct)
  case (2 ns e es)
  from 2(2) have e: "cc_name e \<notin> ns" "validate_entries [e] = Inr ()"
    "validate_names (insert (cc_name e) ns) es = Inr ns'"
    by (auto simp: sum_iff split: if_splits)
  from 2(1) [OF e(1) e(3)] e show ?case by auto
qed auto

lemma traverse_each: "traverse f xs = Inr ys \<Longrightarrow> x \<in> set xs \<Longrightarrow> \<exists>y. f x = Inr y"
  by (induction xs arbitrary: ys) (auto split: sum.splits)

lemma validate_config_Inr:
  assumes "validate_config cfg = Inr ()"
  shows "distinct (map cc_name (cfg_credentials cfg))"
    and "(n, s) \<in> set (cfg_services cfg) \<Longrightarrow> sv_credentials s = Some names \<Longrightarrow>
      set names \<subseteq> set (map cc_name (cfg_credentials cfg))"
    and "(n, s) \<in> set (cfg_services cfg) \<Longrightarrow> sv_cache s = Some policy \<Longrightarrow>
      policy_validate policy = Inr () \<and> (evict_on_fetch policy \<longrightarrow> cfg_cache_dir cfg \<noteq> None)"
proof -
  from assms obtain ns us where v: "validate_names {} (cfg_credentials cfg) = Inr ns"
    and s: "traverse (validate_service cfg ns) (cfg_services cfg) = Inr us"
    by (auto simp: validate_config_def bind_sum_Inr_iff)
  note names = validate_names_Inr [OF v]
  then show "distinct (map cc_name (cfg_credentials cfg))" by simp
  have each: "validate_service cfg ns (n, s) = Inr ()" if "(n, s) \<in> set (cfg_services cfg)" for n s
  proof -
    from traverse_each [OF s that] show ?thesis by auto
  qed
  show "set names \<subseteq> set (map cc_name (cfg_credentials cfg))"
    if "(n, s) \<in> set (cfg_services cfg)" "sv_credentials s = Some names"
    using each [OF that(1)] that(2) names
    by (auto simp: validate_service_def sum_iff find_None_iff split: option.splits if_splits)
  show "policy_validate policy = Inr () \<and> (evict_on_fetch policy \<longrightarrow> cfg_cache_dir cfg \<noteq> None)"
    if "(n, s) \<in> set (cfg_services cfg)" "sv_cache s = Some policy"
    using each [OF that(1)] that(2)
    by (auto simp: validate_service_def bind_sum_Inr_iff split: if_splits)
qed

lemma selected_credential_Inr:
  "selected_credential cfg n = Inr e \<Longrightarrow> e \<in> set (cfg_credentials cfg) \<and> cc_name e = n"
  by (auto simp: selected_credential_def find_Some_iff)

text \<open>C36: in a file that was accepted, every service that selects credentials selects entries of the
  file, one for each name, and a service that evicts has a cache of its own and limits within which
  its reservations cannot overflow.\<close>

theorem accepted_services_resolve:
  assumes "config_from_toml X text = Inr cfg" "map_of (cfg_services cfg) n = Some s"
  shows "(\<forall>names. sv_credentials s = Some names \<longrightarrow>
       (\<exists>es. traverse (selected_credential cfg) names = Inr es \<and> map cc_name es = names
          \<and> set es \<subseteq> set (cfg_credentials cfg)))
     \<and> (\<forall>p. sv_cache s = Some p \<longrightarrow> artifact_max p \<le> inflight_max p \<and> 0 < fills_max p
          \<and> inflight_max p + min_free p \<le> u64_max \<and> inflight_max p + retained_max p \<le> u64_max
          \<and> (evict_on_fetch p \<longrightarrow> cfg_cache_dir cfg \<noteq> None))"
proof -
  from assms(1) have v: "validate_config cfg = Inr ()"
    by (auto simp: config_from_toml_def bind_sum_Inr_iff)
  from assms(2) have s: "(n, s) \<in> set (cfg_services cfg)" by (rule map_of_SomeD)
  have "\<exists>es. traverse (selected_credential cfg) names = Inr es \<and> map cc_name es = names
      \<and> set es \<subseteq> set (cfg_credentials cfg)"
    if "set names \<subseteq> set (map cc_name (cfg_credentials cfg))" for names
    using that
  proof (induction names)
    case (Cons c cs)
    then obtain es where es: "traverse (selected_credential cfg) cs = Inr es" "map cc_name es = cs"
      "set es \<subseteq> set (cfg_credentials cfg)" by auto
    from Cons.prems have "List.find (\<lambda>e. cc_name e = c) (cfg_credentials cfg) \<noteq> None"
      by (auto simp: find_None_iff)
    then obtain e where "selected_credential cfg c = Inr e" by (auto simp: selected_credential_def)
    with es selected_credential_Inr [OF this] show ?case by (auto intro!: exI [of _ "e # es"])
  qed simp
  with validate_config_Inr(2) [OF v s] validate_config_Inr(3) [OF v s] show ?thesis
    by (auto simp: policy_validate_def checked_add_None checked_add_Some split: if_splits)
qed

lemma demo_accepted: "config_from_toml demo_surroundings ''the file'' = Inr demo_config"
proof -
  have "is_ok (config_from_toml demo_surroundings ''the file'')" by code_simp
  then show ?thesis
    by (auto simp: is_ok_iff config_from_toml_def bind_sum_Inr_iff demo_surroundings_def)
qed

lemma accepted_services_resolve_witness:
  "\<exists>es. traverse (selected_credential demo_config) [''n''] = Inr es \<and> map cc_name es = [''n'']"
proof -
  have "map_of (cfg_services demo_config) ''s'' = Some (service_config_default\<lparr>sv_cache := Some demo_policy,
       sv_credentials := Some [''n'']\<rparr>)" by (simp add: demo_config_def)
  from accepted_services_resolve [OF demo_accepted this] show ?thesis by auto
qed

section \<open>Services\<close>

lemma apply_file_Inr:
  assumes "apply_file X b file = Inr (b', ws)"
  shows "b_cache_root b' = or_else (b_cache_root b)
        (or_else (env_text (sur_process X) ENV_CACHE_DIR) (cfg_cache_dir file))"
    and "resolve_mirror (sur_process X) b file = Inr (b_mirror b')"
    and "resolve_flag (sur_process X) ENV_ALLOW_UPSTREAM (b_allow_upstream b) (cfg_allow_upstream file)
        = Inr (b_allow_upstream b')"
    and "resolve_flag (sur_process X) ENV_OFFLINE (b_offline b) (cfg_offline file) = Inr (b_offline b')"
    and "\<exists>p. b_credentials b' = Some p \<and> resolve_credentials (sur_process X) b file = Inr (p, ws)"
    and "resolve_max_bytes (sur_process X) b file = Inr (b_max_bytes b')"
    and "b_timeout b' = b_timeout b" "b_progress b' = b_progress b" "b_on_progress b' = b_on_progress b"
  using assms unfolding apply_file_def Let_def
  by (auto simp: bind_sum_Inr_iff or_else_def split: option.splits)


lemma demo_service_builder: "is_ok (builder_for_service demo_surroundings demo_config ''s'')"
  by code_simp


section \<open>Precedence\<close>

definition env_flag :: "process \<Rightarrow> string \<Rightarrow> bool option" where
  "env_flag P name = Option.bind (env_text P name) (\<lambda>raw. case parse_bool name raw of Inr v \<Rightarrow> Some v | Inl _ \<Rightarrow> None)"

lemma resolve_flag_Inr:
  assumes "resolve_flag P name explicit file = Inr v"
  shows "v = or_else explicit (or_else (env_flag P name) file)"
  using assms unfolding resolve_flag_def env_flag_def env_bool_def or_else_def
  by (cases explicit; cases "env_text P name"; cases "parse_bool name (the (env_text P name))") auto

lemma resolve_max_bytes_Inr:
  assumes "resolve_max_bytes P b file = Inr v"
  shows "v = or_else (b_max_bytes b)
    (or_else (Option.bind (env_text P ENV_CACHE_MAX) parse_u64) (cfg_cache_max file))"
  using assms unfolding resolve_max_bytes_def or_else_def
  by (cases "b_max_bytes b"; cases "env_text P ENV_CACHE_MAX";
      cases "parse_u64 (the (env_text P ENV_CACHE_MAX))") auto

lemma resolve_mirror_Inr:
  assumes "resolve_mirror P b file = Inr v" "b_mirror b = None"
  shows "case or_else (env_text P ENV_MIRROR) (cfg_mirror file) of
      None \<Rightarrow> v = None
    | Some spec \<Rightarrow> \<exists>m. v = Some m
        \<and> parse_mirror P spec (or_else (env_text P ENV_MIRROR_REGION) (cfg_mirror_region file)) = Inr m"
  using assms by (auto simp: resolve_mirror_def Let_def bind_sum_Inr_iff split: option.splits)


lemma demo_applied: "is_ok (apply_file demo_surroundings (with_max_bytes 9 builder_default) demo_config)"
  by code_simp

lemma demo_env_flags:
  "env_flag (sur_process demo_surroundings) ENV_ALLOW_UPSTREAM = None"
  "env_flag (sur_process demo_surroundings) ENV_OFFLINE = Some False"
  by code_simp+


section \<open>Going upstream\<close>

lemma from_local_layer:
  "from_local D a lim w = (Inr (Some (p, o')), w') \<Longrightarrow> out_layer o' = LocalDisk"
  unfolding from_local_def
  by (auto elim!: bind_eff_InrE simp: outcome_def split: option.splits if_splits)

lemma get_upstream:
  assumes "get_with_budget D ds a lim w = (Inr (p, o'), w')" "out_layer o' = Upstream"
  shows "allow_upstream ds \<and> \<not> offline ds"
proof -
  obtain w1 w2 where c: "from_local D a lim w1 = (Inr (Some (p, o')), w2)
       \<or> \<not> offline ds \<and> (\<exists>w3. from_local D a lim w1 = (Inr None, w3)
          \<and> (from_mirror D ds a lim w3 = (Inr (Inr (p, o')), w2)
            \<or> allow_upstream ds \<and> (\<exists>reason w4. from_mirror D ds a lim w3 = (Inr (Inl reason), w4)
                \<and> try_sources D ds a lim [] 0 (sources a) w4 = (Inr (p, o'), w2))))"
    by (rule get_with_budget_Inr [OF assms(1)])
  moreover have "from_mirror D ds a lim w3 \<noteq> (Inr (Inr (p, o')), w2)" for w3
    using from_mirror_Inr [of D ds a lim w3 p o' w2] assms(2) by (auto simp: outcome_def)
  ultimately show ?thesis using from_local_layer assms(2) by fastforce
qed


text \<open>A provider that never has a credential is as good as none.\<close>

lemma choose_credential_silent:
  "(\<And>h. credential_for p h = Inr None) \<Longrightarrow>
   choose_credential (Some p) src b h oh oc = choose_credential None src b h oh oc"
  by (simp add: choose_credential_def lookup_def)

lemma request_loop_silent:
  assumes "\<And>h. credential_for p h = Inr None"
  shows "request_loop D (Some p) src out oh None n u None = request_loop D None src out oh None n u None"
proof (induction n arbitrary: u)
  case (Suc n)
  have "choose_credential None src b h oh None = Inr (None, if b \<and> trust_redirects src then oh else h)" for b h
    by (simp add: choose_credential_def lookup_def)
  with Suc show ?case
    by (simp add: choose_credential_silent [OF assms] identity_after_def Let_def bind_eff_of_sum)
qed simp

lemma request_silent:
  assumes "\<And>h. credential_for p h = Inr None"
  shows "Fetch.request D (Some p) src = Fetch.request D None src"
  by (simp add: fun_eq_iff [of "Fetch.request D (Some p) src"] request_def lookup_def assms request_loop_silent [OF assms] bind_eff_of_sum)

lemma get_silent:
  assumes "\<And>h. credential_for p h = Inr None"
  shows "get_with_outcome D (ds\<lparr>ds_provider := Some p\<rparr>) a = get_with_outcome D (ds\<lparr>ds_provider := None\<rparr>) a"
proof -
  have upd: "allow_upstream (ds\<lparr>ds_provider := q\<rparr>) = allow_upstream ds"
    "offline (ds\<lparr>ds_provider := q\<rparr>) = offline ds" "ds_mirror (ds\<lparr>ds_provider := q\<rparr>) = ds_mirror ds" for q
    by simp_all
  have "fetch_from_upstream D (ds\<lparr>ds_provider := Some p\<rparr>) = fetch_from_upstream D (ds\<lparr>ds_provider := None\<rparr>)"
    by (simp add: fetch_from_upstream_def fun_eq_iff request_silent [OF assms])
  moreover have "try_sources D (ds\<lparr>ds_provider := Some p\<rparr>) a lim at i ss
      = try_sources D (ds\<lparr>ds_provider := None\<rparr>) a lim at i ss" for lim at i ss
    using calculation by (induction ss arbitrary: at i) (simp_all cong: if_cong)
  moreover have "get_with_budget D (ds\<lparr>ds_provider := Some p\<rparr>) a lim
      = get_with_budget D (ds\<lparr>ds_provider := None\<rparr>) a lim" for lim
    unfolding get_with_budget_def from_mirror_def calculation(2) upd by (rule refl)
  ultimately show ?thesis by (simp add: get_with_outcome_def)
qed

definition upstream_artifact :: artifact where
  "upstream_artifact = with_check (MinBytes 2) (artifact_new (ArtifactKey ''k'') [source_new ''https://s/k''])"

definition demo_upstream_store :: datastore where
  "demo_upstream_store = \<lparr>ds_mirror = None, ds_provider = None, allow_upstream = True, offline = False,
     ds_max_bytes = None\<rparr>"

lemma upstream_run:
  "case fst (get_with_outcome demo demo_upstream_store upstream_artifact (snd (ensure demo_world))) of
     Inl _ \<Rightarrow> False | Inr (p, o') \<Rightarrow> out_layer o' = Upstream"
  by code_simp

lemma demo_from_env:
  "is_ok (builder_from_env demo_surroundings)" "is_ok (fst (ensure demo_world))"
  by code_simp+

lemma demo_netrc: "netrc_lookup (sur_process demo_surroundings) h = Inr None"
  by (simp add: netrc_lookup_def demo_surroundings_def demo_process_def path_join_def starts_with_def
      not_found_error_def)

lemma demo_config_from_env:
  "config_from_env demo_surroundings
     = Inr (demo_config\<lparr>cfg_cache_dir := Some ''/home/u/.config/starfield/cache''\<rparr>)"
proof -
  have p: "config_path (sur_process demo_surroundings) = Some ''/home/u/.config/starfield/datastore.toml''"
    "rebase (parent_path ''/home/u/.config/starfield/datastore.toml'') ''cache'' = ''/home/u/.config/starfield/cache''"
    by code_simp+
  have "config_from_path demo_surroundings ''/home/u/.config/starfield/datastore.toml''
      = Inr (demo_config\<lparr>cfg_cache_dir := Some ''/home/u/.config/starfield/cache''\<rparr>)"
    using demo_accepted p(2)
    by (simp add: config_from_path_def demo_surroundings_def demo_config_def config_default_def
        service_config_default_def)
  with p(1) show ?thesis by (simp add: config_from_env_def) (simp add: demo_surroundings_def)
qed

lemma demo_provider:
  assumes "resolve_credentials (sur_process demo_surroundings) builder_default
      (demo_config\<lparr>cfg_cache_dir := r\<rparr>) = Inr (p, ws)"
  shows "credential_for p h = Inr None"
proof -
  let ?P = "sur_process demo_surroundings"
  from assms obtain q sk where q: "configured_provider ?P [demo_credential, demo_future] = Inr (q, sk)"
    "p = chain_provider [q, default_credentials ?P]"
    by (auto simp: resolve_credentials_def builder_default_def provider_with_warnings_def bind_sum_Inr_iff
        demo_config_def)
  have "credential_for q h = Inr None"
  proof (cases "\<exists>e \<in> set [demo_credential, demo_future]. claims e (ascii_lowercase h)")
    case True
    then have "claims demo_credential (ascii_lowercase h)"
      by (auto simp: claims_def recognized_def demo_future_def)
    from configured_provider_Inr(1) [OF q(1) _ this] show ?thesis
      by (simp add: entry_credential_def demo_credential_def demo_netrc)
  next
    case False
    with configured_provider_Inr(2) [OF q(1)] show ?thesis by auto
  qed
  moreover have "env_credential ?P h = Inr None"
    by (simp add: env_credential_def demo_surroundings_def demo_process_def env_variable_def ENV_OFFLINE_def)
  moreover have "\<not> op_feature ?P" by (simp add: demo_surroundings_def demo_process_def)
  ultimately show ?thesis
    by (simp add: q(2) chain_provider_def default_credentials_def env_provider_def netrc_provider_def demo_netrc)
qed

text \<open>The builder the example's surroundings yield.\<close>

lemma demo_builder:
  obtains b ws p where "builder_from_env demo_surroundings = Inr (b, ws)"
    "apply_file demo_surroundings builder_default
       (demo_config\<lparr>cfg_cache_dir := Some ''/home/u/.config/starfield/cache''\<rparr>) = Inr (b, ws)"
    "b_credentials b = Some p" "\<And>h. credential_for p h = Inr None"
    "b_mirror b = None" "b_cache_root b = Some ''/home/u/.config/starfield/cache''"
    "b_allow_upstream b = Some True" "b_offline b = Some False" "b_max_bytes b = None"
proof -
  let ?X = demo_surroundings and ?cfg = "demo_config\<lparr>cfg_cache_dir := Some ''/home/u/.config/starfield/cache''\<rparr>"
  obtain b ws where b: "builder_from_env ?X = Inr (b, ws)"
    using demo_from_env by (auto simp: is_ok_iff)
  then have a: "apply_file ?X builder_default ?cfg = Inr (b, ws)"
    by (simp add: builder_from_env_def demo_config_from_env)
  note set = apply_file_Inr [OF a]
  have unset: "env_text (sur_process ?X) ENV_MIRROR = None" "env_text (sur_process ?X) ENV_CACHE_DIR = None"
    "env_text (sur_process ?X) ENV_CACHE_MAX = None"
    "env_flag (sur_process ?X) ENV_ALLOW_UPSTREAM = None" "env_flag (sur_process ?X) ENV_OFFLINE = Some False"
    by code_simp+
  obtain p where p: "b_credentials b = Some p" "\<And>h. credential_for p h = Inr None"
    using set(5) demo_provider by blast
  have "b_mirror b = None" "b_cache_root b = Some ''/home/u/.config/starfield/cache''"
    "b_allow_upstream b = Some True" "b_offline b = Some False" "b_max_bytes b = None"
    using set(1,2) set(3,4) [THEN resolve_flag_Inr] resolve_max_bytes_Inr [OF set(6)] unset
    by (simp_all add: builder_default_def or_else_def resolve_mirror_def demo_config_def config_default_def)
  with b a p show thesis by (rule that)
qed

text \<open>A store with a provider that has no credential behaves as one without a provider.\<close>

lemma upstream_get_silent:
  assumes "\<And>h. credential_for p h = Inr None"
  shows "get_with_outcome demo (demo_upstream_store\<lparr>ds_provider := Some p\<rparr>) = get_with_outcome demo demo_upstream_store"
  using get_silent [OF assms, where ds = demo_upstream_store] by (simp add: fun_eq_iff demo_upstream_store_def)


end
