(* ===== verification/Server_Cache.thy ===== *)
theory Server_Cache
  imports Config Maintenance
begin

text \<open>
  \<open>src/server/cache.rs\<close>: admission of cold fills and maintenance of a cache that a server owns.
  The coordinator's fields under its mutex are a record; a fill guard is its limit.  What the
  operating system says (free space, whether the mutex is taken, whether the maintenance panics) is
  an argument.  The step relation \<open>coordinator_step\<close> is the coordinator with its outstanding guards;
  the theorems at the end hold in every state it reaches.
\<close>

section \<open>The coordinator\<close>

record coordinator =
  active :: nat
  reserved :: u64
  maintenance :: bool
  failed :: "string option"

definition coordinator_default :: coordinator where
  "coordinator_default = \<lparr>active = 0, reserved = 0, maintenance = False, failed = None\<rparr>"

definition unavailable :: "string \<Rightarrow> datastore_error" where
  "unavailable reason = FillUnavailable reason"

text \<open>\<open>busy\<close>: another holder of the mutex makes \<open>try_lock\<close> fail; \<open>space\<close> is \<open>available_space\<close>.\<close>

definition admit ::
    "cache_policy \<Rightarrow> bool \<Rightarrow> io_error + u64 \<Rightarrow> u64 option \<Rightarrow> (coordinator, datastore_error, u64) eff" where
  "admit p busy space expected st =
     (let limit = (case expected of Some n \<Rightarrow> n | None \<Rightarrow> artifact_max p) in
      if artifact_max p < limit then (Inl TransferLimit, st)
      else if busy then (Inl (unavailable ''admission busy; retry''), st)
      else
        (case failed st of
           Some reason \<Rightarrow>
             (Inl (unavailable (''maintenance failed; repair and restart: '' @ reason)), st)
         | None \<Rightarrow>
             if maintenance st \<or> fills_max p \<le> active st
             then (Inl (unavailable ''fills draining or concurrency exhausted; retry''), st)
             else
               (case checked_add (reserved st) limit of
                  None \<Rightarrow> (Inl (unavailable ''staging reservations exhausted; retry''), st)
                | Some n \<Rightarrow>
                    if inflight_max p < n
                    then (Inl (unavailable ''staging reservations exhausted; retry''), st)
                    else
                      (case checked_add (min_free p) n of
                         None \<Rightarrow> (Inl (unavailable ''filesystem reservation overflow''), st)
                       | Some required \<Rightarrow>
                           (case space of
                              Inl e \<Rightarrow> (Inl (Io e), st)
                            | Inr available \<Rightarrow>
                                if available < required
                                then (Inl (unavailable ''insufficient unreserved filesystem space''), st)
                                else (Inr limit, st\<lparr>active := active st + 1, reserved := n\<rparr>))))))"

definition maintain :: "crates \<Rightarrow> cache_policy \<Rightarrow> unit action" where
  "maintain D p =
     bind_eff blob_bytes (\<lambda>_.
     bind_eff (gc D (retained_max p)) (\<lambda>_.
     bind_eff blob_bytes (\<lambda>after.
       if retained_max p < after then throw (unavailable ''retained cache remains above budget'')
       else ret ())))"

text \<open>
  A guard is dropped.  \<open>panicked\<close> is the world a panic in the maintenance leaves, if it panics;
  the count is a \<open>usize\<close>, which wraps.
\<close>

definition wrapping_pred :: "nat \<Rightarrow> nat" where
  "wrapping_pred n = (if n = 0 then u64_max else n - 1)"

definition finish ::
    "crates \<Rightarrow> cache_policy \<Rightarrow> world option \<Rightarrow> world \<times> coordinator \<Rightarrow> world \<times> coordinator" where
  "finish D p panicked = (\<lambda>(w, st).
     let st = st\<lparr>maintenance := True, active := wrapping_pred (active st)\<rparr> in
     if active st \<noteq> 0 then (w, st)
     else
       (case panicked of
          Some w' \<Rightarrow> (w', st\<lparr>failed := Some ''maintenance panicked''\<rparr>)
        | None \<Rightarrow>
            (case maintain D p w of
               (Inr _, w') \<Rightarrow> (w', st\<lparr>reserved := 0, maintenance := False\<rparr>)
             | (Inl e, w') \<Rightarrow> (w', st\<lparr>failed := Some (show_error e)\<rparr>))))"

text \<open>The bytes under \<open>tmp\<close>, added with a check for overflow.\<close>

fun sum_lengths :: "u64 \<Rightarrow> path list \<Rightarrow> u64 io" where
  "sum_lengths n [] = ret n"
| "sum_lengths n (p # ps) =
     bind_eff (file_length p) (\<lambda>len.
       case checked_add n len of
         None \<Rightarrow> throw (io_other ''temporary byte count overflow'')
       | Some m \<Rightarrow> sum_lengths m ps)"

definition coordinator_new :: "crates \<Rightarrow> cache_policy \<Rightarrow> coordinator action" where
  "coordinator_new D p =
     bind_eff (of_sum (policy_validate p)) (\<lambda>_.
     bind_eff (map_err Io syscall) (\<lambda>_.
     bind_eff (map_err (\<lambda>e. Config (''cannot exclusively own managed cache: '' @ io_message e)) syscall) (\<lambda>_.
     bind_eff (map_err Io (bind_eff (read_dir [''tmp'']) (sum_lengths 0))) (\<lambda>_.
     bind_eff (maintain D p) (\<lambda>_. ret coordinator_default)))))"

section \<open>Runs\<close>

text \<open>The guards outstanding, the coordinator, and the world; a fill may do anything to the world.\<close>

type_synonym managed = "u64 list \<times> coordinator \<times> world"

inductive coordinator_step :: "crates \<Rightarrow> cache_policy \<Rightarrow> managed \<Rightarrow> managed \<Rightarrow> bool"
  for D :: crates and p :: cache_policy where
  admitted: "admit p busy space expected st = (Inr limit, st') \<Longrightarrow>
     coordinator_step D p (gs, st, w) (limit # gs, st', w)"
| refused: "admit p busy space expected st = (Inl e, st') \<Longrightarrow>
     coordinator_step D p (gs, st, w) (gs, st', w)"
| filling: "limit \<in> set gs \<Longrightarrow> coordinator_step D p (gs, st, w) (gs, st, w')"
| dropped: "limit \<in> set gs \<Longrightarrow> finish D p panicked (w, st) = (w', st') \<Longrightarrow>
     coordinator_step D p (gs, st, w) (remove1 limit gs, st', w')"

inductive_cases coordinator_stepE: "coordinator_step D p s s'"

inductive managed_run :: "crates \<Rightarrow> cache_policy \<Rightarrow> managed \<Rightarrow> bool"
  for D :: crates and p :: cache_policy where
  started: "coordinator_new D p w = (Inr st, w') \<Longrightarrow> managed_run D p ([], st, w')"
| stepped: "managed_run D p s \<Longrightarrow> coordinator_step D p s s' \<Longrightarrow> managed_run D p s'"

section \<open>The invariant\<close>

definition accounts :: "cache_policy \<Rightarrow> u64 list \<Rightarrow> coordinator \<Rightarrow> bool" where
  "accounts p gs st \<longleftrightarrow>
     active st = length gs \<and> active st \<le> fills_max p
     \<and> sum_list gs \<le> reserved st \<and> reserved st \<le> inflight_max p
     \<and> (\<forall>g \<in> set gs. g \<le> artifact_max p)
     \<and> (\<not> maintenance st \<longrightarrow> reserved st = sum_list gs)
     \<and> (failed st \<noteq> None \<longrightarrow> maintenance st \<and> gs = [])
     \<and> (maintenance st \<and> failed st = None \<longrightarrow> gs \<noteq> [])"

lemma accounts_default [simp]: "accounts p [] coordinator_default"
  by (simp add: accounts_def coordinator_default_def)

lemma admit_Inr:
  assumes "admit p busy space expected st = (Inr limit, st')"
  shows "limit \<le> artifact_max p \<and> failed st = None \<and> \<not> maintenance st \<and> active st < fills_max p
     \<and> st' = st\<lparr>active := active st + 1, reserved := reserved st + limit\<rparr>
     \<and> reserved st + limit \<le> inflight_max p
     \<and> (\<exists>available. space = Inr available \<and> min_free p + (reserved st + limit) \<le> available)"
  using assms
  by (auto simp: admit_def Let_def checked_add_Some split: if_splits option.splits sum.splits)

lemma admit_Inl: "admit p busy space expected st = (Inl e, st') \<Longrightarrow> st' = st"
  by (auto simp: admit_def Let_def split: if_splits option.splits sum.splits)

lemma sum_list_remove1: "g \<in> set gs \<Longrightarrow> sum_list (remove1 g gs) + g = (sum_list gs :: nat)"
  by (induction gs) auto

lemma finish_accounts:
  assumes acc: "accounts p gs st" and g: "g \<in> set gs"
    and run: "finish D p panicked (w, st) = (w', st')"
  shows "accounts p (remove1 g gs) st'"
proof -
  from g have n: "length gs = Suc (length (remove1 g gs))"
    by (cases gs) (auto simp: length_remove1 Suc_diff_Suc dest: length_pos_if_in_set)
  from sum_list_remove1 [OF g] have s: "sum_list (remove1 g gs) \<le> sum_list gs" by simp
  have sub: "\<forall>x \<in> set (remove1 g gs). x \<le> artifact_max p"
    using acc notin_set_remove1 by (force simp: accounts_def)
  have none: "failed st = None" using acc g by (auto simp: accounts_def)
  define st1 where "st1 = st\<lparr>maintenance := True, active := length (remove1 g gs)\<rparr>"
  have st1: "active st1 = length (remove1 g gs)" "reserved st1 = reserved st" "maintenance st1"
    "failed st1 = None" by (simp_all add: st1_def none)
  have pred: "wrapping_pred (active st) = length (remove1 g gs)"
    using acc n by (simp add: wrapping_pred_def accounts_def)
  have run1: "(if active st1 \<noteq> 0 then (w, st1) else
       (case panicked of
          Some w' \<Rightarrow> (w', st1\<lparr>failed := Some ''maintenance panicked''\<rparr>)
        | None \<Rightarrow>
            (case maintain D p w of
               (Inr _, w') \<Rightarrow> (w', st1\<lparr>reserved := 0, maintenance := False\<rparr>)
             | (Inl e, w') \<Rightarrow> (w', st1\<lparr>failed := Some (show_error e)\<rparr>)))) = (w', st')"
    using run unfolding finish_def Let_def prod.case pred st1_def [symmetric] .
  show ?thesis
  proof (cases "remove1 g gs = []")
    case False
    with run1 st1 have "st' = st1" by auto
    with False st1 acc n s sub show ?thesis by (auto simp: accounts_def)
  next
    case True
    with run1 st1 have "st' = st1\<lparr>failed := Some ''maintenance panicked''\<rparr>
        \<or> st' = st1\<lparr>reserved := 0, maintenance := False\<rparr> \<or> (\<exists>e. st' = st1\<lparr>failed := Some e\<rparr>)"
      by (auto split: option.splits prod.splits sum.splits)
    with True st1 acc show ?thesis by (auto simp: accounts_def)
  qed
qed

lemma coordinator_step_accounts:
  assumes "coordinator_step D p (gs, st, w) (gs', st', w')" "accounts p gs st"
  shows "accounts p gs' st'"
  using assms(1)
proof (cases rule: coordinator_step.cases)
  case (admitted busy space expected limit)
  with admit_Inr [of p busy space expected st limit st'] assms(2) show ?thesis by (auto simp: accounts_def)
next
  case (refused busy space expected e)
  with admit_Inl [of p busy space expected st e st'] assms(2) show ?thesis by simp
next
  case (filling limit)
  with assms(2) show ?thesis by simp
next
  case (dropped limit panicked)
  with finish_accounts [OF assms(2)] show ?thesis by blast
qed

lemma managed_run_accounts: "managed_run D p (gs, st, w) \<Longrightarrow> accounts p gs st \<and> policy_validate p = Inr ()"
proof (induction "(gs, st, w)" arbitrary: gs st w rule: managed_run.induct)
  case (started w st w')
  then show ?case unfolding coordinator_new_def
    by (auto elim!: bind_eff_InrE)
next
  case (stepped s)
  then show ?case by (cases s) (auto dest: coordinator_step_accounts)
qed

end
