(* ===== verification/Server_Cache_Properties.thy ===== *)
theory Server_Cache_Properties
  imports Server_Cache Config_Properties Store_Properties "HOL-Library.Multiset"
begin

text \<open>
  The properties of the coordinator of a server-owned cache: what admission accounts for, that it
  never gets stuck, and what a successful maintenance has established.
\<close>

section \<open>Measuring the blobs\<close>

lemma distinct_concat_map:
  assumes "distinct xs" "\<And>x. x \<in> set xs \<Longrightarrow> distinct (map f (g x))"
    and "\<And>x y a b. x \<in> set xs \<Longrightarrow> y \<in> set xs \<Longrightarrow> a \<in> set (g x) \<Longrightarrow> b \<in> set (g y) \<Longrightarrow> f a = f b \<Longrightarrow> x = y"
  shows "distinct (map f (concat (map g xs)))"
  using assms
proof (induction xs)
  case (Cons x xs)
  have "distinct (map f (concat (map g xs)))" using Cons.prems by (intro Cons.IH) auto
  moreover have "f ` set (g x) \<inter> f ` set (concat (map g xs)) = {}"
  proof (rule ccontr)
    assume "\<not> ?thesis"
    then obtain a y b where "a \<in> set (g x)" "y \<in> set xs" "b \<in> set (g y)" "f a = f b" by auto
    with Cons.prems(3) [of x y a b] Cons.prems(1) show False by auto
  qed
  ultimately show ?case using Cons.prems(2) by simp
qed simp

lemma distinct_children: "wf_tree w \<Longrightarrow> distinct (children w p)"
  by (simp add: children_def wf_tree_def)

lemma blob_rows_path:
  assumes "s \<in> set (children w [''blobs''])" "(d, n) \<in> set (shard_rows w s)"
  shows "\<exists>x c. s = [''blobs'', x] \<and> file_at w [''blobs'', x, d] = Some c \<and> n = length c"
proof -
  from assms(1) obtain x where s: "s = [''blobs'', x]"
    by (cases s rule: rev_cases) (auto simp: children_def)
  from assms(2) obtain p where p: "p \<in> set (children w s)" "(d, n) \<in> set (blob_row w p)"
    by (auto simp: shard_rows_def split: if_splits)
  then have "p = [''blobs'', x, d]"
    by (cases p rule: rev_cases) (auto simp: children_def s blob_row_mem)
  with p(2) s show ?thesis by (auto simp: blob_row_mem)
qed

lemma distinct_blob_rows:
  assumes "wf_tree w" "tidy w"
  shows "distinct (map fst (blob_rows w))"
proof -
  have rows: "distinct (map fst (shard_rows w s))" for s
  proof (cases "node_at w s = Some Dir")
    case True
    have "distinct (map fst (concat (map (blob_row w) (children w s))))"
    proof (rule distinct_concat_map [OF distinct_children [OF assms(1)]])
      show "distinct (map fst (blob_row w p))" for p by (simp add: blob_row_def split: option.split)
      fix p q a b
      assume "p \<in> set (children w s)" "q \<in> set (children w s)" "a \<in> set (blob_row w p)"
        "b \<in> set (blob_row w q)" "fst a = fst b"
      then show "p = q"
        by (cases a; cases b; cases p rule: rev_cases; cases q rule: rev_cases)
          (auto simp: children_def blob_row_mem)
    qed
    with True show ?thesis by (simp add: shard_rows_def)
  qed (simp add: shard_rows_def)
  have shard: "x = take 2 d" if "file_at w [''blobs'', x, d] = Some c" for x d c
    using assms(2) that by (auto simp: tidy_def index_path_def blob_path_def)
  have "distinct (map fst (concat (map (shard_rows w) (children w [''blobs'']))))"
  proof (rule distinct_concat_map [OF distinct_children [OF assms(1)] rows])
    fix s t a b
    assume h: "s \<in> set (children w [''blobs''])" "t \<in> set (children w [''blobs''])"
      "a \<in> set (shard_rows w s)" "b \<in> set (shard_rows w t)" "fst a = fst b"
    from blob_rows_path [OF h(1), of "fst a" "snd a"] h(3) obtain x c where
      "s = [''blobs'', x]" "file_at w [''blobs'', x, fst a] = Some c" by auto
    moreover from blob_rows_path [OF h(2), of "fst b" "snd b"] h(4) obtain y c' where
      "t = [''blobs'', y]" "file_at w [''blobs'', y, fst b] = Some c'" by auto
    ultimately show "s = t" using shard [of x "fst a"] shard [of y "fst b"] h(5) by simp
  qed
  then show ?thesis by (simp add: blob_rows_def)
qed

lemma stored_bytes_rows:
  assumes "wf_tree w" "tidy w"
  shows "sum_list (map snd (blob_rows w)) = stored_bytes w"
proof -
  note d = distinct_blob_rows [OF assms]
  have dom: "fst ` set (blob_rows w) = present w"
  proof (intro set_eqI)
    fix x
    have "x \<in> fst ` set (blob_rows w) \<longleftrightarrow> (\<exists>n. (x, n) \<in> set (blob_rows w))" by force
    then show "x \<in> fst ` set (blob_rows w) \<longleftrightarrow> x \<in> present w"
      using tidy_blob_digest [OF assms(2)] by (auto simp: tidy_blob_rows [OF assms] present_def)
  qed
  have "the (map_of (blob_rows w) x) = length (the (blob_of w x))" if "x \<in> present w" for x
  proof -
    from that obtain c where "blob_of w x = Some c" "is_digest x"
      using tidy_blob_digest [OF assms(2)] by (auto simp: present_def)
    then have "(x, length c) \<in> set (blob_rows w)" by (simp add: tidy_blob_rows [OF assms])
    with d have "map_of (blob_rows w) x = Some (length c)" by simp
    with \<open>blob_of w x = Some c\<close> show ?thesis by simp
  qed
  then show ?thesis unfolding sum_list_map_of [OF d] dom stored_bytes_def by (rule sum.cong [OF refl])
qed

lemma sum_list_sort: "sum_list (map f (sort xs)) = (sum_list (map f xs) :: nat)"
  by (metis mset_map mset_sort sum_mset_sum_list)

lemma checked_sum_Inr: "checked_sum n ms = Inr m \<Longrightarrow> m = n + sum_list ms"
  by (induction n ms rule: checked_sum.induct) (auto simp: checked_add_Some split: option.splits)

lemma blob_bytes_steps:
  assumes "blob_bytes w = (Inr n, w')"
  obtains w1 w2 bs where "tree_env w1 = tree_env w" "tree_env w' = tree_env w"
    "blobs w1 = (Inr bs, w2)" "checked_sum 0 (map snd bs) = Inr n"
proof -
  from assms obtain w1 w2 where t: "tree_env w1 = tree_env w" "tree_env w' = tree_env w2"
    and b: "bind_eff blobs (\<lambda>bs. of_sum (checked_sum 0 (map snd bs))) w1 = (Inr n, w2)"
    unfolding blob_bytes_def store_lock_def by (rule with_lock_views)
  from b obtain bs where bs: "blobs w1 = (Inr bs, w2)" "checked_sum 0 (map snd bs) = Inr n"
    by (auto elim!: bind_eff_InrE)
  have "same tree_env w1 w2" by (rule keepsD [OF keeps_blobs bs(1)]) (rule observers)
  with t bs show ?thesis by (intro that) (simp_all add: same_def)
qed

lemma blob_bytes_Inr:
  assumes "blob_bytes w = (Inr n, w')" "clear w" "tidy w"
  shows "n = stored_bytes w"
proof -
  obtain w1 w2 bs where t: "tree_env w1 = tree_env w"
    and bs: "blobs w1 = (Inr bs, w2)" "checked_sum 0 (map snd bs) = Inr n"
    by (rule blob_bytes_steps [OF assms(1)])
  have same: "same tree_env w w1" using t(1) by (simp add: same_def)
  have "sighted w1" using tree_env_same(3) [OF same] assms(2) by (simp add: clear_def)
  from blobs_rows [OF bs(1) this] have "bs = sort (blob_rows w1)" .
  moreover have "blob_rows w1 = blob_rows w"
  proof -
    have "shard_rows w1 = shard_rows w" using tree_env_rows(2) [OF same] by (rule ext)
    then show ?thesis using tree_env_same(1) [OF same] by (simp add: blob_rows_def children_def node_at_def)
  qed
  ultimately have "n = sum_list (map snd (blob_rows w))"
    using checked_sum_Inr [OF bs(2)] by (simp add: sum_list_sort)
  with stored_bytes_rows assms(2,3) show ?thesis by (simp add: clear_def)
qed

section \<open>Maintenance\<close>

lemma maintain_Inr:
  assumes "maintain D p w = (Inr u, w')"
  obtains n ks w1 w2 where "tree_env w1 = tree_env w" "gc D (retained_max p) w1 = (Inr ks, w2)"
    "tree_env w' = tree_env w2"
proof -
  from assms obtain n w1 ks w2 m w3 where h: "blob_bytes w = (Inr n, w1)"
    "gc D (retained_max p) w1 = (Inr ks, w2)" "blob_bytes w2 = (Inr m, w3)" "w' = w3"
    unfolding maintain_def by (auto elim!: bind_eff_InrE split: if_splits)
  obtain x y z where "tree_env w1 = tree_env w" by (rule blob_bytes_steps [OF h(1)])
  moreover obtain x y z where "tree_env w3 = tree_env w2" by (rule blob_bytes_steps [OF h(3)])
  ultimately show ?thesis using h(2,4) by (intro that) simp_all
qed


section \<open>Admission\<close>

text \<open>C32: at every moment the coordinator counts exactly the fills outstanding, no more than configured;
  what it has reserved covers them and stays within the limit on bytes in flight; and the sums it
  forms with the free space and the retained budget do not overflow.\<close>

theorem reservations_are_accounted:
  assumes "managed_run D p (gs, st, w)"
  shows "active st = length gs \<and> length gs \<le> fills_max p
     \<and> sum_list gs \<le> reserved st \<and> reserved st \<le> inflight_max p
     \<and> (\<forall>g \<in> set gs. g \<le> artifact_max p)
     \<and> min_free p + reserved st \<le> u64_max \<and> retained_max p + reserved st \<le> u64_max"
proof -
  from managed_run_accounts [OF assms] have "accounts p gs st" "policy_validate p = Inr ()" by auto
  then show ?thesis
    by (auto simp: accounts_def policy_validate_def checked_add_None split: if_splits)
qed

text \<open>C33: a fill is admitted only while no maintenance is due, and only when the file system has room
  for the reserve, for every fill outstanding and for the new one; the check of the room itself
  cannot overflow.\<close>

theorem admission_leaves_room:
  assumes "managed_run D p (gs, st, w)" "admit p busy space expected st = (r, st')"
  shows "(\<forall>limit. r = Inr limit \<longrightarrow> \<not> maintenance st \<and> failed st = None
       \<and> (\<exists>available. space = Inr available \<and> min_free p + sum_list (limit # gs) \<le> available)
       \<and> (\<forall>n. expected = Some n \<longrightarrow> limit = n) \<and> limit \<le> artifact_max p)
     \<and> r \<noteq> Inl (unavailable ''filesystem reservation overflow'')"
proof -
  from managed_run_accounts [OF assms(1)] have acc: "accounts p gs st" and pol: "policy_validate p = Inr ()"
    by auto
  have "reserved st = sum_list gs" if "\<not> maintenance st" using acc that by (simp add: accounts_def)
  moreover have "limit = n" if "admit p busy space (Some n) st = (Inr limit, st')" for n limit
    using that by (auto simp: admit_def Let_def split: if_splits option.splits sum.splits)
  moreover have "r \<noteq> Inl (unavailable ''filesystem reservation overflow'')"
  proof
    assume "r = Inl (unavailable ''filesystem reservation overflow'')"
    with assms(2) obtain n where "n \<le> inflight_max p" "checked_add (min_free p) n = None"
      by (auto simp: admit_def Let_def unavailable_def not_less split: if_splits option.splits sum.splits)
    with pol show False
      by (auto simp: policy_validate_def checked_add_None split: if_splits)
  qed
  ultimately show ?thesis using admit_Inr [of p busy space expected st _ st'] assms(2) by fastforce
qed

lemma finish_step:
  assumes "accounts p (g # gs) st" "maintain D p w = (Inr (), w')"
  shows "finish D p None (w, st) = (if gs = [] then (w', coordinator_default)
     else (w, st\<lparr>maintenance := True, active := length gs\<rparr>))"
proof -
  have "wrapping_pred (active st) = length gs" "failed st = None"
    using assms(1) by (auto simp: accounts_def wrapping_pred_def)
  with assms(2) show ?thesis
    by (cases st) (auto simp: finish_def coordinator_default_def)
qed

lemma finish_all:
  assumes "maintain D p w = (Inr (), w')"
  shows "accounts p gs st \<Longrightarrow> gs \<noteq> [] \<Longrightarrow> (finish D p None ^^ length gs) (w, st) = (w', coordinator_default)"
proof (induction gs arbitrary: st)
  case (Cons g gs)
  note step = finish_step [OF Cons.prems(1) assms]
  show ?case
  proof (cases "gs = []")
    case True
    with step show ?thesis by simp
  next
    case False
    have "finish D p None (w, st) = (w, st\<lparr>maintenance := True, active := length gs\<rparr>)"
      using step False by simp
    from finish_accounts [OF Cons.prems(1) _ this] have "accounts p gs (st\<lparr>maintenance := True, active := length gs\<rparr>)"
      by (metis list.set_intros(1) remove1.simps(2))
    from Cons.IH [OF this False] step False show ?thesis
      by (simp add: funpow_Suc_right del: funpow.simps)
  qed
qed simp

text \<open>C34: the coordinator does not get stuck: unless a maintenance has failed, it refuses because of
  maintenance only while fills are outstanding, and once they are dropped and the maintenance
  succeeds it is as new and admits every artifact the policy allows, given the space.\<close>

theorem coordinator_recovers:
  assumes "managed_run D p (gs, st, w)" "failed st = None"
  shows "(maintenance st \<longrightarrow> gs \<noteq> [])
     \<and> (\<forall>w'. gs \<noteq> [] \<and> maintain D p w = (Inr (), w') \<longrightarrow>
          (finish D p None ^^ length gs) (w, st) = (w', coordinator_default))
     \<and> (\<forall>expected. (\<forall>n. expected = Some n \<longrightarrow> n \<le> artifact_max p) \<longrightarrow>
          is_ok (fst (admit p False (Inr u64_max) expected coordinator_default)))"
proof -
  from managed_run_accounts [OF assms(1)] have acc: "accounts p gs st" and pol: "policy_validate p = Inr ()"
    by auto
  have "maintenance st \<longrightarrow> gs \<noteq> []" using acc assms(2) by (auto simp: accounts_def)
  moreover have "is_ok (fst (admit p False (Inr u64_max) expected coordinator_default))"
    if "\<forall>n. expected = Some n \<longrightarrow> n \<le> artifact_max p" for expected
    using pol that
    by (auto simp: admit_def coordinator_default_def Let_def policy_validate_def checked_add_def
        split: if_splits option.splits)
  ultimately show ?thesis using finish_all [OF _ acc] by blast
qed

section \<open>The example\<close>

lemma demo_coordinator: "is_ok (fst (coordinator_new demo demo_policy demo_world))"
  by code_simp

lemma demo_managed: "managed_run demo demo_policy ([], coordinator_default, snd (coordinator_new demo demo_policy demo_world))"
proof -
  obtain st where st: "fst (coordinator_new demo demo_policy demo_world) = Inr st"
    using demo_coordinator by (auto simp: is_ok_iff)
  then have "st = coordinator_default"
    by (cases "coordinator_new demo demo_policy demo_world")
      (auto simp: coordinator_new_def elim!: bind_eff_InrE)
  with st show ?thesis
    by (cases "coordinator_new demo demo_policy demo_world") (auto intro: started)
qed

definition demo_busy :: coordinator where
  "demo_busy = \<lparr>active = 1, reserved = 10, maintenance = False, failed = None\<rparr>"

lemma demo_admitted: "admit demo_policy False (Inr 100) None coordinator_default = (Inr 10, demo_busy)"
  by code_simp

lemma demo_managed_busy:
  "managed_run demo demo_policy ([10], demo_busy, snd (coordinator_new demo demo_policy demo_world))"
  by (rule stepped [OF demo_managed admitted [OF demo_admitted]])

lemma reservations_are_accounted_witness: "10 + reserved demo_busy \<le> inflight_max demo_policy"
  using reservations_are_accounted [OF demo_managed_busy] by (simp add: demo_busy_def demo_policy_def)

lemma admission_leaves_room_witness: "min_free demo_policy + sum_list [10, 10] \<le> (100 :: nat)"
proof -
  have "admit demo_policy False (Inr 100) None demo_busy
      = (Inr 10, demo_busy\<lparr>active := 2, reserved := 20\<rparr>)" by code_simp
  from admission_leaves_room [OF demo_managed_busy this] show ?thesis by simp
qed

lemma coordinator_recovers_witness:
  "is_ok (fst (admit demo_policy False (Inr u64_max) (Some 7) coordinator_default))"
proof -
  have "failed demo_busy = None" by (simp add: demo_busy_def)
  from coordinator_recovers [OF demo_managed_busy this] show ?thesis by (auto simp: demo_policy_def)
qed

lemma demo_tidy: "tidy demo_world"
  by (simp add: tidy_def demo_no_files)

lemma demo_maintained: "is_ok (fst (maintain demo demo_policy demo_world))"
  by code_simp


end
