(* ===== verification/Server.thy ===== *)
theory Server
  imports Server_Cache S3_Writes Manifest
begin

text \<open>
  \<open>src/server.rs\<close>: the artifact service.  Every request is a state machine over the phases the
  handler goes through: waiting for a permit, the HEAD check on a worker, admission of a miss, the
  fill on a worker, the answer.  \<open>server_step\<close> interleaves any number of requests; a worker section
  is one step, as the store and the service serialise what happens inside.  The HTTP framework, the
  runtime and the signal handling are left out; a response is what the handler returns.
\<close>

section \<open>The service\<close>

record 's service =
  srv_manifest :: manifest
  srv_store :: datastore
  srv_mirror :: "'s s3_mirror"
  srv_policy :: "cache_policy option"

text \<open>A semaphore's permits.\<close>

definition WORKERS :: nat where
  "WORKERS = 8"

definition presign :: "crates \<Rightarrow> 's s3_mirror \<Rightarrow> artifact_key \<Rightarrow> ('s, datastore_error, parsed_url) eff" where
  "presign D M k = s3_presign_get D M k (seconds 300)"

definition service_head :: "'s service \<Rightarrow> artifact \<Rightarrow> ('s, datastore_error, mirror_object option) eff" where
  "service_head S a =
     (if trim (license (art_provenance a)) = []
      then throw (Manifest_error (as_str (key a) @ '' needs a license before redistribution''))
      else s3_head (srv_mirror S) (key a))"

definition object_of_entry :: "index_entry \<Rightarrow> mirror_object" where
  "object_of_entry e =
     \<lparr>mo_sha256 = digest e, mo_bytes = entry_bytes e, mo_etag = None, mo_source = entry_source e,
      mo_identity = entry_identity e, mo_fetched_at = fetched_at e\<rparr>"

definition resolve_miss ::
    "crates \<Rightarrow> 's service \<Rightarrow> artifact \<Rightarrow> u64 option \<Rightarrow> (world \<times> 's, datastore_error, mirror_object) eff" where
  "resolve_miss D S a limit =
     bind_eff (on_right (s3_head (srv_mirror S) (key a))) (\<lambda>found.
       case found of
         Some meta \<Rightarrow> ret meta
       | None \<Rightarrow>
           bind_eff (on_left (case limit of
               Some n \<Rightarrow> get_limited D (srv_store S) a n | None \<Rightarrow> get D (srv_store S) a)) (\<lambda>p.
           bind_eff (on_left (entry D (key a))) (\<lambda>e.
           bind_eff (of_sum (ok_or (Mirror ''local entry disappeared before upload'') e)) (\<lambda>e.
             let meta = object_of_entry e in
             bind_eff (s3_put D (srv_mirror S) (key a) p meta) (\<lambda>_. ret meta)))))"

fun check_pins :: "content_check \<Rightarrow> mirror_object \<Rightarrow> bool" where
  "check_pins (Sha256 pin) meta = (pin = mo_sha256 meta)"
| "check_pins (All_of checks) meta = list_all (\<lambda>c. check_pins c meta) checks"
| "check_pins (MinBytes n) meta = (n \<le> mo_bytes meta)"
| "check_pins _ meta = True"

definition check_metadata :: "artifact \<Rightarrow> mirror_object \<Rightarrow> datastore_error + unit" where
  "check_metadata a meta =
     (if (case expected_bytes a of Some n \<Rightarrow> n \<noteq> mo_bytes meta | None \<Rightarrow> False)
         \<or> \<not> check_pins (art_check a) meta
      then Inl (ContentRejected (key a) (failure ''mirror metadata pin''
        ''S3 digest or size disagrees with manifest; run verify --at with explicit repair''))
      else Inr ())"

definition redirect ::
    "crates \<Rightarrow> 's service \<Rightarrow> artifact \<Rightarrow> mirror_object
      \<Rightarrow> ('s, datastore_error, parsed_url \<times> mirror_object) eff" where
  "redirect D S a meta =
     bind_eff (of_sum (check_metadata a meta)) (\<lambda>_.
     bind_eff (presign D (srv_mirror S) (key a)) (\<lambda>u. ret (u, meta)))"

section \<open>Responses\<close>

record http_response =
  hr_status :: nat
  hr_headers :: "(string \<times> string) list"
  hr_body :: string

definition text_response :: "nat \<Rightarrow> string \<Rightarrow> http_response" where
  "text_response n text = \<lparr>hr_status = n, hr_headers = [], hr_body = text\<rparr>"

definition unknown_artifact :: http_response where
  "unknown_artifact = text_response 404 ''unknown artifact''"

text \<open>
  \<open>valid_header\<close> is \<open>HeaderValue::from_str(s).is_ok()\<close> of the HTTP library; the result of a section is
  \<open>Inl ()\<close> when its worker has panicked.
\<close>

definition found_response :: "(string \<Rightarrow> bool) \<Rightarrow> parsed_url \<Rightarrow> mirror_object \<Rightarrow> http_response" where
  "found_response valid_header u meta =
     (if \<not> valid_header (url_text u) then text_response 502 []
      else
        \<lparr>hr_status = 302,
         hr_headers = [(''location'', url_text u), (''cache-control'', ''no-store'')]
           @ (if valid_header (mo_sha256 meta) then [(''x-artifact-sha256'', mo_sha256 meta)] else [])
           @ (if valid_header (decimal (mo_bytes meta))
              then [(''x-artifact-bytes'', decimal (mo_bytes meta))] else []),
         hr_body = []\<rparr>)"

fun is_fill_unavailable :: "datastore_error \<Rightarrow> bool" where
  "is_fill_unavailable (FillUnavailable _) = True"
| "is_fill_unavailable _ = False"

definition error_response :: "datastore_error \<Rightarrow> http_response" where
  "error_response e =
     (if is_fill_unavailable e
      then \<lparr>hr_status = 503, hr_headers = [(''retry-after'', ''1'')], hr_body = show_error e\<rparr>
      else text_response (if is_content_rejected e then 422 else 502) (show_error e))"

definition respond_with ::
    "(string \<Rightarrow> bool) \<Rightarrow> unit + datastore_error + parsed_url \<times> mirror_object \<Rightarrow> http_response" where
  "respond_with valid_header result =
     (case result of
        Inl _ \<Rightarrow> text_response 500 ''artifact worker failed''
      | Inr (Inl e) \<Rightarrow> error_response e
      | Inr (Inr (u, meta)) \<Rightarrow> found_response valid_header u meta)"

definition healthz :: http_response where
  "healthz = text_response 200 ''ok''"

section \<open>The handler\<close>

datatype phase =
    Queued artifact
  | Checking artifact
  | Missed artifact
  | Filling artifact "u64 option"
  | Answered http_response

text \<open>A request for \<open>/artifact/{*key}\<close> arrives.\<close>

definition route :: "'s service \<Rightarrow> string \<Rightarrow> phase" where
  "route S raw =
     (case artifact_key_new raw of
        Inl _ \<Rightarrow> Answered unknown_artifact
      | Inr k \<Rightarrow>
          (case manifest_get (srv_manifest S) k of
             None \<Rightarrow> Answered unknown_artifact
           | Some a \<Rightarrow> Queued a))"

text \<open>The section that holds a work permit, and what it leads to.\<close>

definition head_section ::
    "crates \<Rightarrow> 's service \<Rightarrow> artifact \<Rightarrow> ('s, datastore_error, (parsed_url \<times> mirror_object) option) eff" where
  "head_section D S a =
     bind_eff (service_head S a) (\<lambda>found.
       case found of
         None \<Rightarrow> ret None
       | Some meta \<Rightarrow> bind_eff (redirect D S a meta) (\<lambda>hit. ret (Some hit)))"

definition after_head ::
    "(string \<Rightarrow> bool) \<Rightarrow> artifact \<Rightarrow> datastore_error + (parsed_url \<times> mirror_object) option \<Rightarrow> phase" where
  "after_head valid_header a r =
     (case r of
        Inr (Some hit) \<Rightarrow> Answered (respond_with valid_header (Inr (Inr hit)))
      | Inr None \<Rightarrow> Missed a
      | Inl e \<Rightarrow> Answered (respond_with valid_header (Inr (Inl e))))"

definition after_admission ::
    "(string \<Rightarrow> bool) \<Rightarrow> artifact \<Rightarrow> datastore_error + u64 \<Rightarrow> phase" where
  "after_admission valid_header a r =
     (case r of
        Inr limit \<Rightarrow> Filling a (Some limit)
      | Inl e \<Rightarrow> Answered (respond_with valid_header (Inr (Inl e))))"

text \<open>The section that holds a fill permit or a guard.\<close>

definition fill_section ::
    "crates \<Rightarrow> 's service \<Rightarrow> artifact \<Rightarrow> u64 option
      \<Rightarrow> (world \<times> 's, datastore_error, parsed_url \<times> mirror_object) eff" where
  "fill_section D S a limit =
     bind_eff (resolve_miss D S a limit) (\<lambda>meta. on_right (redirect D S a meta))"

text \<open>The guard of a managed cache is dropped when the section ends, whatever its result.\<close>

definition drop_guard ::
    "crates \<Rightarrow> 's service \<Rightarrow> u64 option \<Rightarrow> world option \<Rightarrow> world \<times> coordinator \<Rightarrow> world \<times> coordinator" where
  "drop_guard D S limit panicked wc =
     (case (srv_policy S, limit) of (Some p, Some _) \<Rightarrow> finish D p panicked wc | _ \<Rightarrow> wc)"

section \<open>Starting\<close>

definition is_loopback :: "ip_addr \<Rightarrow> bool" where
  "is_loopback a =
     (case a of
        Ipv4 octets \<Rightarrow> octets ! 0 = 127
      | Ipv6 segments \<Rightarrow> segments = [0, 0, 0, 0, 0, 0, 0, 1])"

definition private_bind :: "ip_addr \<Rightarrow> bool" where
  "private_bind a =
     (if is_loopback a then True
      else
        (case a of
           Ipv4 octets \<Rightarrow> octets ! 0 = 100 \<and> 64 \<le> octets ! 1 \<and> octets ! 1 < 128
         | Ipv6 segments \<Rightarrow> take 3 segments = [0xfd7a, 0x115c, 0xa1e0]))"

text \<open>What the server starts with: the coordinator exists only when the policy asks for eviction.\<close>

definition serve ::
    "crates \<Rightarrow> manifest \<Rightarrow> datastore \<Rightarrow> 's s3_mirror \<Rightarrow> socket_addr \<Rightarrow> cache_policy option
      \<Rightarrow> ('s service \<times> coordinator) action" where
  "serve D m ds M bind_addr policy =
     (if \<not> private_bind (ip bind_addr)
      then throw (Config ''serve must bind loopback or a Tailscale address'')
      else
        (let policy = Option.bind policy (\<lambda>p. if evict_on_fetch p then Some p else None) in
         bind_eff (case policy of Some p \<Rightarrow> coordinator_new D p | None \<Rightarrow> ret coordinator_default) (\<lambda>c.
           ret (\<lparr>srv_manifest = m, srv_store = ds, srv_mirror = M, srv_policy = policy\<rparr>, c))))"

section \<open>Interleaved requests\<close>

record 's server =
  requests :: "phase list"
  keeper :: coordinator
  cache :: world
  bucket_state :: 's

fun checks :: "phase \<Rightarrow> bool" where
  "checks (Checking _) = True"
| "checks _ = False"

fun fills_unmanaged :: "phase \<Rightarrow> bool" where
  "fills_unmanaged (Filling _ None) = True"
| "fills_unmanaged _ = False"

fun guard_of :: "phase \<Rightarrow> u64 list" where
  "guard_of (Filling _ (Some limit)) = [limit]"
| "guard_of _ = []"

text \<open>
  The arguments of the rules that are free are the environment's: which request moves, free space,
  contention, panics.  A worker that panics has either done its work or not begun it.
\<close>

inductive server_step :: "crates \<Rightarrow> 's service \<Rightarrow> (string \<Rightarrow> bool) \<Rightarrow> 's server \<Rightarrow> 's server \<Rightarrow> bool"
  for D :: crates and S :: "'s service" and vh :: "string \<Rightarrow> bool" where
  arrive: "server_step D S vh x (x\<lparr>requests := requests x @ [route S raw]\<rparr>)"
| start_check: "i < length (requests x) \<Longrightarrow> requests x ! i = Queued a \<Longrightarrow>
     length (filter checks (requests x)) < WORKERS \<Longrightarrow>
     server_step D S vh x (x\<lparr>requests := (requests x)[i := Checking a]\<rparr>)"
| end_check: "i < length (requests x) \<Longrightarrow> requests x ! i = Checking a \<Longrightarrow>
     head_section D S a (bucket_state x) = (r, s') \<Longrightarrow>
     server_step D S vh x (x\<lparr>requests := (requests x)[i := after_head vh a r], bucket_state := s'\<rparr>)"
| panic_check: "i < length (requests x) \<Longrightarrow> requests x ! i = Checking a \<Longrightarrow>
     head_section D S a (bucket_state x) = (r, s') \<Longrightarrow> s'' = bucket_state x \<or> s'' = s' \<Longrightarrow>
     server_step D S vh x
       (x\<lparr>requests := (requests x)[i := Answered (respond_with vh (Inl ()))], bucket_state := s''\<rparr>)"
| admission: "i < length (requests x) \<Longrightarrow> requests x ! i = Missed a \<Longrightarrow> srv_policy S = Some p \<Longrightarrow>
     admit p busy space (expected_bytes a) (keeper x) = (r, c') \<Longrightarrow>
     server_step D S vh x (x\<lparr>requests := (requests x)[i := after_admission vh a r], keeper := c'\<rparr>)"
| start_fill: "i < length (requests x) \<Longrightarrow> requests x ! i = Missed a \<Longrightarrow> srv_policy S = None \<Longrightarrow>
     length (filter fills_unmanaged (requests x)) < WORKERS \<Longrightarrow>
     server_step D S vh x (x\<lparr>requests := (requests x)[i := Filling a None]\<rparr>)"
| end_fill: "i < length (requests x) \<Longrightarrow> requests x ! i = Filling a limit \<Longrightarrow>
     fill_section D S a limit (cache x, bucket_state x) = (r, (w', s')) \<Longrightarrow>
     drop_guard D S limit panicked (w', keeper x) = (w'', c') \<Longrightarrow>
     server_step D S vh x (x\<lparr>requests := (requests x)[i := Answered (respond_with vh (Inr r))],
       keeper := c', cache := w'', bucket_state := s'\<rparr>)"
| panic_fill: "i < length (requests x) \<Longrightarrow> requests x ! i = Filling a limit \<Longrightarrow>
     fill_section D S a limit (cache x, bucket_state x) = (r, (w', s')) \<Longrightarrow>
     (w1, s1) = (cache x, bucket_state x) \<or> (w1, s1) = (w', s') \<Longrightarrow>
     drop_guard D S limit panicked (w1, keeper x) = (w'', c') \<Longrightarrow>
     server_step D S vh x (x\<lparr>requests := (requests x)[i := Answered (respond_with vh (Inl ()))],
       keeper := c', cache := w'', bucket_state := s1\<rparr>)"

inductive serving ::
    "crates \<Rightarrow> (string \<Rightarrow> bool) \<Rightarrow> 's service \<Rightarrow> 's server \<Rightarrow> 's server \<Rightarrow> bool"
  for D :: crates and vh :: "string \<Rightarrow> bool" and S :: "'s service" and x :: "'s server" where
  begun: "serving D vh S x x"
| served_on: "serving D vh S x y \<Longrightarrow> server_step D S vh y z \<Longrightarrow> serving D vh S x z"

end
