(* ===== verification/Server_Proofs.thy ===== *)
theory Server_Proofs
  imports Server Server_Cache_Properties Sessions
begin

text \<open>
  What the sections of the server do, the invariant of the interleaved requests, and the measure that
  every step but an arrival lowers.
\<close>

section \<open>Sections\<close>

definition licensed :: "artifact \<Rightarrow> bool" where
  "licensed a \<longleftrightarrow> trim (license (art_provenance a)) \<noteq> []"

text \<open>A redirect that is justified: the metadata passed the check, and the URL was presigned for the key.\<close>

definition hit_for :: "crates \<Rightarrow> 's service \<Rightarrow> artifact \<Rightarrow> parsed_url \<Rightarrow> mirror_object \<Rightarrow> bool" where
  "hit_for D S a u meta \<longleftrightarrow> check_metadata a meta = Inr ()
     \<and> (\<exists>s s'. presign D (srv_mirror S) (key a) s = (Inr u, s'))"

lemma redirect_Inr:
  "redirect D S a meta s = (Inr (u, meta'), s') \<Longrightarrow> meta' = meta \<and> hit_for D S a u meta"
  unfolding redirect_def hit_for_def by (elim bind_eff_InrE) (simp, blast)

lemma head_section_Inr:
  assumes "head_section D S a s = (Inr r, s')"
  shows "licensed a \<and> (\<forall>u meta. r = Some (u, meta) \<longrightarrow> hit_for D S a u meta)"
proof -
  from assms have "licensed a"
    by (auto simp: head_section_def service_head_def licensed_def elim!: bind_eff_InrE split: if_splits)
  moreover have "hit_for D S a u meta" if r: "r = Some (u, meta)" for u meta
  proof -
    from assms r obtain x s1 where "redirect D S a x s1 = (Inr (u, meta), s')"
      by (auto simp: head_section_def elim!: bind_eff_InrE split: option.splits)
    from redirect_Inr [OF this] show ?thesis by simp
  qed
  ultimately show ?thesis by blast
qed

lemma on_right_Inr: "on_right m (w, s) = (Inr y, (w', s')) \<Longrightarrow> m s = (Inr y, s') \<and> w' = w"
  by (auto elim: on_rightE)

lemma fill_section_Inr:
  assumes "fill_section D S a limit ws = (Inr (u, meta), ws')"
  shows "hit_for D S a u meta"
proof -
  from assms obtain x s1 s2 where "redirect D S a x s1 = (Inr (u, meta), s2)"
    unfolding fill_section_def by (cases ws; cases ws') (auto elim!: bind_eff_InrE dest!: on_right_Inr)
  from redirect_Inr [OF this] show ?thesis by simp
qed

section \<open>The invariant of the requests\<close>

definition justified :: "crates \<Rightarrow> (string \<Rightarrow> bool) \<Rightarrow> 's service \<Rightarrow> http_response \<Rightarrow> bool" where
  "justified D vh S r \<longleftrightarrow>
     hr_status r \<in> {302, 404, 422, 500, 502, 503}
     \<and> (hr_status r = 302 \<longrightarrow> (\<exists>a u meta. manifest_get (srv_manifest S) (key a) = Some a \<and> licensed a
          \<and> hit_for D S a u meta \<and> r = found_response vh u meta))"

fun phase_ok :: "crates \<Rightarrow> (string \<Rightarrow> bool) \<Rightarrow> 's service \<Rightarrow> phase \<Rightarrow> bool" where
  "phase_ok D vh S (Queued a) = (manifest_get (srv_manifest S) (key a) = Some a)"
| "phase_ok D vh S (Checking a) = (manifest_get (srv_manifest S) (key a) = Some a)"
| "phase_ok D vh S (Missed a) = (manifest_get (srv_manifest S) (key a) = Some a \<and> licensed a)"
| "phase_ok D vh S (Filling a limit) = (manifest_get (srv_manifest S) (key a) = Some a \<and> licensed a
     \<and> (limit = None \<longleftrightarrow> srv_policy S = None))"
| "phase_ok D vh S (Answered r) = justified D vh S r"

lemma error_justified: "justified D vh S (respond_with vh (Inr (Inl e)))"
  by (simp add: justified_def respond_with_def error_response_def text_response_def)

lemma panic_justified: "justified D vh S (respond_with vh (Inl ()))"
  by (simp add: justified_def respond_with_def text_response_def)

lemma hit_justified:
  "manifest_get (srv_manifest S) (key a) = Some a \<Longrightarrow> licensed a \<Longrightarrow> hit_for D S a u meta \<Longrightarrow>
   justified D vh S (respond_with vh (Inr (Inr (u, meta))))"
  by (auto simp: justified_def respond_with_def found_response_def text_response_def)

lemma route_ok: "phase_ok D vh S (route S raw)"
proof -
  have "justified D vh S unknown_artifact"
    by (simp add: justified_def unknown_artifact_def text_response_def)
  then show ?thesis
    by (auto simp: route_def dest: manifest_get_Some split: sum.splits option.splits)
qed

lemma after_head_ok:
  assumes "phase_ok D vh S (Checking a)" "head_section D S a s = (r, s')"
  shows "phase_ok D vh S (after_head vh a r)"
proof (cases r)
  case (Inl e)
  then show ?thesis by (simp add: after_head_def error_justified)
next
  case (Inr found)
  with head_section_Inr [of D S a s found s'] assms(2) have h: "licensed a"
    "\<And>u meta. found = Some (u, meta) \<Longrightarrow> hit_for D S a u meta" by simp_all
  with Inr assms(1) show ?thesis
    by (cases found) (auto simp: after_head_def intro: hit_justified)
qed

lemma end_fill_ok:
  assumes "phase_ok D vh S (Filling a limit)" "fill_section D S a limit ws = (r, ws')"
  shows "phase_ok D vh S (Answered (respond_with vh (Inr r)))"
proof (cases r)
  case (Inl e)
  then show ?thesis by (simp add: error_justified)
next
  case (Inr hit)
  obtain u meta where "hit = (u, meta)" by (cases hit)
  with Inr assms fill_section_Inr [of D S a limit ws u meta ws'] show ?thesis
    by (auto intro: hit_justified)
qed

abbreviation guards :: "phase list \<Rightarrow> u64 list" where
  "guards ps \<equiv> concat (map guard_of ps)"

text \<open>The permits in use, the guards outstanding and the phases.\<close>

definition server_ok :: "crates \<Rightarrow> (string \<Rightarrow> bool) \<Rightarrow> 's service \<Rightarrow> 's server \<Rightarrow> bool" where
  "server_ok D vh S x \<longleftrightarrow>
     list_all (phase_ok D vh S) (requests x)
     \<and> length (filter checks (requests x)) \<le> WORKERS
     \<and> length (filter fills_unmanaged (requests x)) \<le> WORKERS
     \<and> (case srv_policy S of None \<Rightarrow> guards (requests x) = [] | Some p \<Rightarrow> accounts p (guards (requests x)) (keeper x))"

lemma accounts_mset:
  assumes "mset gs = mset gs'"
  shows "accounts p gs st = accounts p gs' st"
proof -
  have "length gs = length gs'" "set gs = set gs'" "sum_list gs = sum_list gs'" "(gs = []) = (gs' = [])"
    using assms by (auto dest: mset_eq_length mset_eq_setD simp: sum_mset_sum_list [symmetric])
  then show ?thesis by (simp add: accounts_def)
qed

lemma split_at: "i < length ps \<Longrightarrow> ps = take i ps @ ps ! i # drop (Suc i) ps"
  by (simp add: id_take_nth_drop)

lemma mset_guards_update:
  assumes "i < length ps"
  shows "mset (guards (ps[i := q])) + mset (guard_of (ps ! i)) = mset (guards ps) + mset (guard_of q)"
proof -
  have "guards ps = guards (take i ps) @ guard_of (ps ! i) @ guards (drop (Suc i) ps)"
    by (subst split_at [OF assms]) simp
  moreover have "guards (ps[i := q]) = guards (take i ps) @ guard_of q @ guards (drop (Suc i) ps)"
    using assms by (simp add: upd_conv_take_nth_drop)
  ultimately show ?thesis by simp
qed

lemma length_filter_update:
  assumes "i < length ps"
  shows "length (filter P (ps[i := q])) + (if P (ps ! i) then 1 else 0)
     = length (filter P ps) + (if P q then 1 else 0)"
proof -
  have "filter P ps = filter P (take i ps) @ filter P [ps ! i] @ filter P (drop (Suc i) ps)"
    by (subst split_at [OF assms]) simp
  moreover have "filter P (ps[i := q]) = filter P (take i ps) @ filter P [q] @ filter P (drop (Suc i) ps)"
    using assms by (simp add: upd_conv_take_nth_drop)
  ultimately show ?thesis by simp
qed

lemma phases_update:
  "list_all P ps \<Longrightarrow> P q \<Longrightarrow> list_all P (ps[i := q])"
  by (auto simp: list_all_iff dest!: set_update_subset_insert [THEN subsetD])

lemma phase_at: "list_all P ps \<Longrightarrow> i < length ps \<Longrightarrow> P (ps ! i)"
  by (simp add: list_all_length)

section \<open>Preservation\<close>

lemma filling_guards:
  "phase_ok D vh S (Filling a limit) \<Longrightarrow>
   (srv_policy S = None \<and> limit = None \<and> guard_of (Filling a limit) = [])
   \<or> (\<exists>p g. srv_policy S = Some p \<and> limit = Some g \<and> guard_of (Filling a limit) = [g])"
  by (cases limit) auto

text \<open>A request moves to a phase without a guard, from one without a guard.\<close>

lemma server_ok_move:
  assumes ok: "server_ok D vh S x" and i: "i < length (requests x)"
    and q: "phase_ok D vh S q" and g: "guard_of (requests x ! i) = []" "guard_of q = []"
    and c: "checks q \<Longrightarrow> length (filter checks (requests x)) < WORKERS"
    and f: "fills_unmanaged q \<Longrightarrow> length (filter fills_unmanaged (requests x)) < WORKERS"
    and y: "requests y = (requests x)[i := q]" "keeper y = keeper x"
  shows "server_ok D vh S y"
proof -
  have m: "mset (guards (requests y)) = mset (guards (requests x))"
    using mset_guards_update [OF i, of q] g y by simp
  then have "(guards (requests y) = []) = (guards (requests x) = [])"
    by (metis mset_zero_iff)
  with accounts_mset [OF m] ok y(2) have
    "case srv_policy S of None \<Rightarrow> guards (requests y) = [] | Some p \<Rightarrow> accounts p (guards (requests y)) (keeper y)"
    by (auto simp: server_ok_def split: option.splits)
  moreover have "length (filter checks (requests y)) \<le> WORKERS"
    using length_filter_update [OF i, of checks q] ok c y(1) by (cases "checks q") (auto simp: server_ok_def split: if_splits)
  moreover have "length (filter fills_unmanaged (requests y)) \<le> WORKERS"
    using length_filter_update [OF i, of fills_unmanaged q] ok f y(1)
    by (cases "fills_unmanaged q") (auto simp: server_ok_def split: if_splits)
  moreover have "list_all (phase_ok D vh S) (requests y)"
    using ok q y(1) by (simp add: server_ok_def phases_update)
  ultimately show ?thesis by (simp add: server_ok_def)
qed

lemma finish_move:
  assumes acc: "accounts p (guards ps) st" and i: "i < length ps" and g: "guard_of (ps ! i) = [g]"
    and q: "guard_of q = []" and run: "finish D p panicked (w, st) = (w', st')"
  shows "accounts p (guards (ps[i := q])) st'"
proof -
  have m: "mset (guards (ps[i := q])) + {#g#} = mset (guards ps)"
    using mset_guards_update [OF i, of q] g q by simp
  then have mem: "g \<in> set (guards ps)" by (metis set_mset_mset union_single_eq_member add.commute add_mset_add_single)
  from m have "mset (guards (ps[i := q])) = mset (remove1 g (guards ps))"
    by (metis add_diff_cancel_right' mset_remove1)
  from accounts_mset [OF this] finish_accounts [OF acc mem run] show ?thesis by simp
qed

text \<open>A fill ends: the request is answered, and its guard, if it has one, is dropped.\<close>

lemma server_ok_drop:
  assumes ok: "server_ok D vh S x" and i: "i < length (requests x)" "requests x ! i = Filling a limit"
    and q: "phase_ok D vh S q" "guard_of q = []" "\<not> checks q" "\<not> fills_unmanaged q"
    and run: "drop_guard D S limit panicked (w, keeper x) = (w', c')"
    and y: "requests y = (requests x)[i := q]" "keeper y = c'"
  shows "server_ok D vh S y"
proof -
  have phase: "phase_ok D vh S (Filling a limit)" using ok i by (auto simp: server_ok_def dest: phase_at)
  show ?thesis
  proof (cases "srv_policy S")
    case None
    with phase run y have "limit = None" "c' = keeper x" by (simp_all add: drop_guard_def)
    with server_ok_move [OF ok i(1) q(1) _ q(2) _ _ y(1)] q i y(2) show ?thesis by simp
  next
    case (Some p)
    with phase obtain g where g: "limit = Some g" by auto
    from Some ok have "accounts p (guards (requests x)) (keeper x)" by (simp add: server_ok_def)
    from finish_move [OF this i(1) _ q(2)] run Some g i(2) have
      "accounts p (guards ((requests x)[i := q])) c'" by (simp add: drop_guard_def)
    moreover have "length (filter checks (requests y)) \<le> WORKERS"
      using length_filter_update [OF i(1), of checks q] ok q y(1) by (auto simp: server_ok_def split: if_splits)
    moreover have "length (filter fills_unmanaged (requests y)) \<le> WORKERS"
      using length_filter_update [OF i(1), of fills_unmanaged q] ok q y(1)
      by (auto simp: server_ok_def split: if_splits)
    moreover have "list_all (phase_ok D vh S) (requests y)"
      using ok q(1) y(1) by (simp add: server_ok_def phases_update)
    ultimately show ?thesis using Some y by (simp add: server_ok_def)
  qed
qed

lemma server_ok_admission:
  assumes ok: "server_ok D vh S x" and i: "i < length (requests x)" "requests x ! i = Missed a"
    and p: "srv_policy S = Some p" and run: "admit p busy space expected (keeper x) = (r, c')"
    and y: "requests y = (requests x)[i := after_admission vh a r]" "keeper y = c'"
  shows "server_ok D vh S y"
proof -
  have phase: "phase_ok D vh S (Missed a)" using ok i by (auto simp: server_ok_def dest: phase_at)
  show ?thesis
  proof (cases r)
    case (Inl e)
    with run admit_Inl have "c' = keeper x" by blast
    with error_justified [of D vh S e] Inl i y show ?thesis
      by (intro server_ok_move [OF ok i(1)]) (simp_all add: after_admission_def)
  next
    case (Inr limit)
    let ?q = "Filling a (Some limit)"
    have q: "after_admission vh a r = ?q" by (simp add: after_admission_def Inr)
    from p ok have acc: "accounts p (guards (requests x)) (keeper x)" by (simp add: server_ok_def)
    have "accounts p (limit # guards (requests x)) c'"
      using coordinator_step_accounts [OF admitted acc] run Inr by blast
    moreover have "mset (guards (requests y)) = mset (limit # guards (requests x))"
      using mset_guards_update [OF i(1), of ?q] i(2) y(1) q by simp
    ultimately have "accounts p (guards (requests y)) c'" using accounts_mset by blast
    moreover have "length (filter checks (requests y)) \<le> WORKERS"
      using length_filter_update [OF i(1), of checks ?q] ok q y(1) by (auto simp: server_ok_def split: if_splits)
    moreover have "length (filter fills_unmanaged (requests y)) \<le> WORKERS"
      using length_filter_update [OF i(1), of fills_unmanaged ?q] ok q y(1)
      by (auto simp: server_ok_def split: if_splits)
    moreover have "list_all (phase_ok D vh S) (requests y)"
      using ok phase p q y(1) by (auto simp: server_ok_def intro!: phases_update)
    ultimately show ?thesis using p y by (simp add: server_ok_def)
  qed
qed

theorem server_step_ok:
  assumes "server_step D S vh x y" "server_ok D vh S x"
  shows "server_ok D vh S y"
proof -
  have at: "phase_ok D vh S (requests x ! i)" if "i < length (requests x)" for i
    using assms(2) that by (auto simp: server_ok_def dest: phase_at)
  from assms(1) show ?thesis
  proof (cases rule: server_step.cases)
    case (arrive raw)
    have "guard_of (route S raw) = []" "\<not> checks (route S raw)" "\<not> fills_unmanaged (route S raw)"
      by (auto simp: route_def split: sum.split option.split)
    with arrive assms(2) route_ok [of D vh S raw] show ?thesis
      by (cases "srv_policy S") (simp_all add: server_ok_def)
  next
    case (start_check i a)
    with at [of i] show ?thesis by (intro server_ok_move [OF assms(2)]) auto
  next
    case (end_check i a r s')
    with at [of i] have q: "phase_ok D vh S (after_head vh a r)" by (auto intro: after_head_ok)
    have "guard_of (after_head vh a r) = []" "\<not> checks (after_head vh a r)" "\<not> fills_unmanaged (after_head vh a r)"
      by (auto simp: after_head_def split: sum.split option.split)
    with end_check q show ?thesis by (intro server_ok_move [OF assms(2)]) auto
  next
    case (panic_check i a)
    with panic_justified [of D vh S] show ?thesis by (intro server_ok_move [OF assms(2)]) auto
  next
    case (admission i a p busy space r c')
    then show ?thesis by (intro server_ok_admission [OF assms(2)]) auto
  next
    case (start_fill i a)
    with at [of i] show ?thesis by (intro server_ok_move [OF assms(2)]) auto
  next
    case (end_fill i a limit r w' s' panicked w'' c')
    with at [of i] end_fill_ok [of D vh S a limit _ r] have
      "phase_ok D vh S (Answered (respond_with vh (Inr r)))" by auto
    with end_fill show ?thesis by (intro server_ok_drop [OF assms(2)]) auto
  next
    case (panic_fill i a limit r w' s' w1 s1 panicked w'' c')
    with panic_justified [of D vh S] show ?thesis by (intro server_ok_drop [OF assms(2)]) auto
  qed
qed

end
