(* ===== verification/Server_Properties.thy ===== *)
theory Server_Properties
  imports Server_Proofs S3_Properties
begin

text \<open>
  The properties of the artifact service: what its responses rest on, how much it runs at a time,
  what it does to the bucket, that every request is answered, and where it listens.
\<close>

section \<open>Runs\<close>

lemma serving_ok: "serving D vh S x y \<Longrightarrow> server_ok D vh S x \<Longrightarrow> server_ok D vh S y"
  by (induction rule: serving.induct) (auto intro: server_step_ok)

lemma server_ok_empty:
  "requests x = [] \<Longrightarrow> keeper x = coordinator_default \<Longrightarrow> server_ok D vh S x"
  by (simp add: server_ok_def split: option.split)

section \<open>Responses\<close>


text \<open>C25: never more than eight checks of the bucket and eight unmanaged fills run at once, and with a
  managed cache the coordinator counts exactly the fills that run, within its limits.\<close>

theorem server_bounds_its_work:
  assumes "serving D vh S x y" "requests x = []" "keeper x = coordinator_default"
  shows "length (filter checks (requests y)) \<le> 8
     \<and> length (filter fills_unmanaged (requests y)) \<le> 8
     \<and> (\<forall>p. srv_policy S = Some p \<longrightarrow>
          active (keeper y) = length (guards (requests y)) \<and> active (keeper y) \<le> fills_max p
          \<and> sum_list (guards (requests y)) \<le> reserved (keeper y) \<and> reserved (keeper y) \<le> inflight_max p)"
  using serving_ok [OF assms(1) server_ok_empty [OF assms(2,3)]]
  by (auto simp: server_ok_def accounts_def WORKERS_def)

section \<open>The bucket\<close>

definition grows :: "'s s3_view \<Rightarrow> 's \<Rightarrow> 's \<Rightarrow> bool" where
  "grows V s s' \<longleftrightarrow> objects_of V s \<subseteq>\<^sub>m objects_of V s'"

interpretation grows: frame "grows V" for V
  by unfold_locales (auto simp: grows_def intro: map_le_trans)

interpretation grows2: frame "\<lambda>x y. grows V (snd x) (snd y)" for V
  by unfold_locales (auto simp: grows_def intro: map_le_trans)

lemma presigned_same:
  assumes "service_ok C V" "presigned C b k n s = (r, s')"
  shows "objects_of V s' = objects_of V s"
  using assms(1) [unfolded service_ok_def presigns_ok_def] assms(2) by blast

lemma grows_presign: "service_ok (client M) V \<Longrightarrow> keeps (grows V) (presign D M k)"
  unfolding presign_def s3_presign_get_def
  by (intro grows.keeps_if grows.keeps_throw grows.keeps_bind grows.keeps_map_err grows.keeps_of_sum keepsI)
     (simp add: grows_def presigned_same)

lemma grows_head: "service_ok (client M) V \<Longrightarrow> keeps (grows V) (s3_head M k)"
  by (rule keepsI) (simp add: grows_def s3_head_service)

lemma grows_redirect: "service_ok (client (srv_mirror S)) V \<Longrightarrow> keeps (grows V) (redirect D S a meta)"
  unfolding redirect_def
  by (intro grows.keeps_bind grows.keeps_of_sum grows.keeps_ret grows_presign)

lemma grows_head_section: "service_ok (client (srv_mirror S)) V \<Longrightarrow> keeps (grows V) (head_section D S a)"
  unfolding head_section_def service_head_def
  by (intro grows.keeps_bind grows.keeps_if grows.keeps_throw grows.keeps_option grows.keeps_ret
      grows_head grows_redirect)

lemma grows_on_left: "keeps (\<lambda>x y. grows V (snd x) (snd y)) (on_left m)"
  by (auto simp: keeps_def on_left_def grows.refl_R split: prod.splits)

lemma grows_on_right: "keeps (grows V) m \<Longrightarrow> keeps (\<lambda>x y. grows V (snd x) (snd y)) (on_right m)"
  by (auto simp: keeps_def on_right_def split: prod.splits) (metis snd_conv)

lemma grows_put: "service_ok (client M) V \<Longrightarrow> keeps (\<lambda>x y. grows V (snd x) (snd y)) (s3_put D M k p x)"
  by (rule keepsI, unfold s3_put_def)
     (auto simp: grows_def outcome_of_def the_condition_def dest!: s3_write_cases dest: reach_none_match)

lemma grows_fill_section:
  assumes "service_ok (client (srv_mirror S)) V"
  shows "keeps (\<lambda>x y. grows V (snd x) (snd y)) (fill_section D S a limit)"
  unfolding fill_section_def resolve_miss_def Let_def
  by (intro grows2.keeps_bind grows2.keeps_option grows2.keeps_ret grows2.keeps_of_sum
      grows_on_left grows_on_right grows_put grows_head grows_redirect assms)

lemma server_step_grows:
  assumes "server_step D S vh x y" and ok: "service_ok (client (srv_mirror S)) V"
  shows "grows V (bucket_state x) (bucket_state y)"
  using assms(1)
proof (cases rule: server_step.cases)
  case (end_check i a r s')
  then show ?thesis using keepsD [OF grows_head_section [OF ok]] by simp
next
  case (panic_check i a r s' s'')
  then show ?thesis using keepsD [OF grows_head_section [OF ok]] by (auto intro: grows.refl_R)
next
  case (end_fill i a limit r w' s' panicked w'' c')
  then show ?thesis using keepsD [OF grows_fill_section [OF ok]] by fastforce
next
  case (panic_fill i a limit r w' s' w1 s1 panicked w'' c')
  then show ?thesis using keepsD [OF grows_fill_section [OF ok]] by (fastforce intro: grows.refl_R)
qed (simp_all add: grows.refl_R)


section \<open>Fills\<close>

lemma entry_Some:
  assumes "(entry D k :: index_entry option action) w = (Inr (Some e), w')" "valid_key k"
  shows "entry_of D w k = Some e"
proof -
  from assms(1) obtain w1 where "(read_entry D k w :: (datastore_error + index_entry option) \<times> world) = (Inr (Some e), w1)"
    unfolding entry_def
    by (auto elim!: handleE bind_eff_InrE split: sum.splits option.splits if_splits)
  from read_entry_Some [OF this assms(2)] show ?thesis .
qed

lemma get_Inr:
  assumes "get D ds a w = (Inr p, w')"
  obtains o' where "get_with_budget D ds a False w = (Inr (p, o'), w')"
  using assms unfolding get_def get_with_outcome_def by (auto elim!: bind_eff_InrE)

lemma get_limited_Inr:
  assumes "get_limited D ds a n w = (Inr p, w')"
  obtains o' where "get_with_budget D ds a True (w\<lparr>budget := n\<rparr>) = (Inr (p, o'), w')"
  using assms unfolding get_limited_def by (auto elim!: bind_eff_InrE)

lemma filled:
  assumes "(case limit of Some n \<Rightarrow> get_limited D ds a n | None \<Rightarrow> get D ds a) w = (Inr p, w1)"
    and "(entry D (key a) :: index_entry option action) w1 = (Inr (Some e), w2)"
    and "sound_crates D" "valid_key (key a)" "mirror_ok ds"
  shows "\<exists>t. admissible D a t \<and> sha256 D t = digest e \<and> entry_bytes e = length t"
proof -
  obtain lim w0 o' where "get_with_budget D ds a lim w0 = (Inr (p, o'), w1)"
    using assms(1) by (cases limit) (auto elim: get_Inr get_limited_Inr)
  from get_served [OF this assms(3-5)] entry_Some [OF assms(2,4)] show ?thesis
    by (auto simp: served_by_def)
qed

lemma check_pins_admissible:
  "accepts D c content \<Longrightarrow> mo_sha256 meta = sha256 D content \<Longrightarrow> mo_bytes meta = length content \<Longrightarrow>
   check_pins c meta"
  by (induction c) (auto simp: list_all_iff)

lemma check_metadata_admissible:
  assumes "admissible D a t" "mo_sha256 meta = sha256 D t" "mo_bytes meta = length t"
  shows "check_metadata a meta = Inr ()"
  using assms check_pins_admissible [of D "art_check a" t meta]
  by (auto simp: check_metadata_def admissible_def split: option.splits)

lemma check_pins_pinned: "check_pins c meta \<Longrightarrow> pin \<in> set (pinned_sha256s c) \<Longrightarrow> pin = mo_sha256 meta"
  by (induction c) (auto simp: list_all_iff)

text \<open>C26: the check before a redirect accepts the metadata of every content the store would accept for
  the artifact, and metadata it accepts have the manifest's size and every digest it pins.\<close>

theorem metadata_check_agrees_with_the_store:
  "((\<exists>t. admissible D a t \<and> mo_sha256 meta = sha256 D t \<and> mo_bytes meta = length t)
       \<longrightarrow> check_metadata a meta = Inr ())
   \<and> (check_metadata a meta = Inr () \<longrightarrow>
       (\<forall>n. expected_bytes a = Some n \<longrightarrow> mo_bytes meta = n)
       \<and> (\<forall>pin \<in> set (pinned_sha256s (art_check a)). mo_sha256 meta = pin))"
proof (intro conjI impI)
  assume "\<exists>t. admissible D a t \<and> mo_sha256 meta = sha256 D t \<and> mo_bytes meta = length t"
  then show "check_metadata a meta = Inr ()" by (blast intro: check_metadata_admissible)
next
  assume "check_metadata a meta = Inr ()"
  then show "\<forall>n. expected_bytes a = Some n \<longrightarrow> mo_bytes meta = n"
    "\<forall>pin \<in> set (pinned_sha256s (art_check a)). mo_sha256 meta = pin"
    using check_pins_pinned [of "art_check a" meta] by (auto simp: check_metadata_def split: if_splits)
qed

text \<open>C23: a fill of a key the bucket does not have, when it returns metadata, has stored under the key
  the very content the store validated for the artifact: its size and digest are the metadata's, and
  so are those of an admissible content; the check before the redirect then passes.\<close>

theorem fill_publishes_admissible_content:
  assumes "resolve_miss D S a limit (w, s) = (Inr meta, (w', s'))"
    and "service_ok (client (srv_mirror S)) V"
    and "objects_of V s (bucket (srv_mirror S), object_name (srv_mirror S) (key a)) = None"
    and "sound_crates D" "valid_key (key a)" "mirror_ok (srv_store S)"
  shows "\<exists>ob t. objects_of V s' (bucket (srv_mirror S), object_name (srv_mirror S) (key a)) = Some ob
     \<and> sha256 D (ob_content ob) = mo_sha256 meta \<and> length (ob_content ob) = mo_bytes meta
     \<and> map_of (ob_metadata ob) ''sha256'' = Some (mo_sha256 meta)
     \<and> admissible D a t \<and> sha256 D t = mo_sha256 meta \<and> length t = mo_bytes meta
     \<and> check_metadata a meta = Inr ()"
proof -
  let ?M = "srv_mirror S"
  obtain r s1 where h: "s3_head ?M (key a) s = (r, s1)" by (cases "s3_head ?M (key a) s")
  note head = s3_head_service [OF assms(2) h]
  with assms(3) have r: "\<And>x. r = Inr (Some x) \<Longrightarrow> False" by auto
  have free: "objects_of V s1 (at ?M (key a)) = None" using head assms(3) by simp
  from assms(1) h r obtain p w1 e w2 out where
    p: "(case limit of Some n \<Rightarrow> get_limited D (srv_store S) a n | None \<Rightarrow> get D (srv_store S) a) w = (Inr p, w1)"
    and e: "(entry D (key a) :: index_entry option action) w1 = (Inr (Some e), w2)"
    and put: "s3_write D ?M (key a) p (object_of_entry e) None (w2, s1) = (Inr out, (w', s'))"
    and meta: "meta = object_of_entry e"
    unfolding resolve_miss_def Let_def s3_put_def
    by (auto elim!: bind_eff_InrE on_leftE on_rightE split: option.splits simp: ok_or_def)
  from s3_write_cases [OF assms(2) put] obtain c m where
    c: "sha256 D c = mo_sha256 (object_of_entry e)" "length c = mo_bytes (object_of_entry e)"
      "upload_metadata D (client ?M) (object_of_entry e) = Inr m"
    and o: "outcome_of If_none_match_any (at ?M (key a)) c m (object_of_entry e) (Inr out)
      (objects_of V s1) (objects_of V s')"
    by (auto simp: the_condition_def)
  have "objects_of V s' (at ?M (key a)) \<noteq> None"
    using o by (cases out) (auto simp: outcome_of_def stores_def)
  with o free have "stores If_none_match_any (at ?M (key a)) c m (objects_of V s1) (objects_of V s')"
    by (auto simp: outcome_of_def reach_def)
  then obtain ob where ob: "objects_of V s' (at ?M (key a)) = Some ob" "ob_content ob = c" "ob_metadata ob = m"
    by (auto simp: stores_def)
  from filled [OF p e assms(4-6)] obtain t where
    t: "admissible D a t" "sha256 D t = digest e" "entry_bytes e = length t" by auto
  moreover have "check_metadata a meta = Inr ()"
    using check_metadata_admissible [OF t(1), of meta] t(2,3) by (simp add: meta object_of_entry_def)
  ultimately show ?thesis
    using ob c upload_metadata_Inr [OF c(3)] by (auto simp: meta object_of_entry_def)
qed

section \<open>Where it listens\<close>

text \<open>An address as a number, and the membership in a network given by its prefix.\<close>

fun address_value :: "ip_addr \<Rightarrow> nat" where
  "address_value (Ipv4 octets) = foldl (\<lambda>n b. 2 ^ 8 * n + unat b) 0 octets"
| "address_value (Ipv6 segments) = foldl (\<lambda>n b. 2 ^ 16 * n + unat b) 0 segments"

fun in_network :: "nat \<Rightarrow> ip_addr \<Rightarrow> ip_addr \<Rightarrow> bool" where
  "in_network n (Ipv4 network) (Ipv4 a) =
     (address_value (Ipv4 a) div 2 ^ (32 - n) = address_value (Ipv4 network) div 2 ^ (32 - n))"
| "in_network n (Ipv6 network) (Ipv6 a) =
     (address_value (Ipv6 a) div 2 ^ (128 - n) = address_value (Ipv6 network) div 2 ^ (128 - n))"
| "in_network n _ _ = False"

fun proper_address :: "ip_addr \<Rightarrow> bool" where
  "proper_address (Ipv4 octets) = (length octets = 4)"
| "proper_address (Ipv6 segments) = (length segments = 8)"

lemma digits_div: "d < b \<Longrightarrow> (b * n + d) div b = (n :: nat)"
  by simp

lemma digits_eq:
  "d < b \<Longrightarrow> d' < b \<Longrightarrow> b * n + d = b * n' + d' \<longleftrightarrow> n = n' \<and> d = (d' :: nat)"
  by (metis add_left_cancel digits_div)

lemma octet_less: "unat (b :: byte) < 256"
  using unsigned_less [of b] by simp

lemma segment_less: "unat (b :: 16 word) < 65536"
  using unsigned_less [of b] by simp

lemma byte_is: "(b :: byte) = numeral n \<longleftrightarrow> unat b = unat (numeral n :: byte)"
  by (rule word_unat_eq_iff)

lemma v4_networks:
  assumes "a < 256" "b < 256" "c < 256" "d < (256 :: nat)"
  shows "(256 * (256 * (256 * a + b) + c) + d) div 16777216 = a"
    and "(256 * (256 * (256 * a + b) + c) + d) div 4194304 = 4 * a + b div 64"
proof -
  let ?n = "256 * (256 * (256 * a + b) + c) + d"
  have "?n div 65536 = (?n div 256) div 256" by (simp add: div_mult2_eq [symmetric])
  also have "\<dots> = 256 * a + b" using assms by (simp add: digits_div)
  finally have n: "?n div 65536 = 256 * a + b" .
  have "?n div 16777216 = (?n div 65536) div 256" by (simp add: div_mult2_eq [symmetric])
  then show "?n div 16777216 = a" using n assms by simp
  have "?n div 4194304 = (?n div 65536) div 64" by (simp add: div_mult2_eq [symmetric])
  then show "?n div 4194304 = 4 * a + b div 64" using n by simp
qed

lemma third_octet: "m < 4 \<Longrightarrow> 4 * n + m = 401 \<longleftrightarrow> n = 100 \<and> m = (1 :: nat)"
  by arith

lemma div_64: "n div 64 = 1 \<longleftrightarrow> 64 \<le> n \<and> n < (128 :: nat)"
proof
  assume "n div 64 = 1"
  then show "64 \<le> n \<and> n < 128"
    using div_mult_mod_eq [of n 64] mod_less_divisor [of 64 n] by linarith
next
  assume "64 \<le> n \<and> n < 128"
  then show "n div 64 = 1" by (intro div_nat_eqI) simp_all
qed

lemma v6_value:
  "address_value (Ipv6 [a, b, c, d, e, f, g, h]) =
     65536 * (65536 * (65536 * (65536 * (65536 * (65536 * (65536 * unat a + unat b) + unat c) + unat d)
       + unat e) + unat f) + unat g) + unat h"
  by simp

lemma v6_prefix:
  "address_value (Ipv6 [a, b, c, d, e, f, g, h]) div 2 ^ 80 = 65536 * (65536 * unat a + unat b) + unat c"
proof -
  have e: "(2 :: nat) ^ 80 = 65536 * 65536 * 65536 * 65536 * 65536" by simp
  show ?thesis unfolding v6_value e
    by (simp only: div_mult2_eq digits_div segment_less)
qed

lemma prefix_length: "(128 :: nat) - 48 = 80"
  by simp

lemma v6_eq:
  "address_value (Ipv6 [a, b, c, d, e, f, g, h]) = address_value (Ipv6 [a', b', c', d', e', f', g', h'])
   \<longleftrightarrow> [a, b, c, d, e, f, g, h] = [a', b', c', d', e', f', g', h']"
proof -
  have "address_value (Ipv6 [a, b, c, d, e, f, g, h]) = address_value (Ipv6 [a', b', c', d', e', f', g', h'])
    \<longleftrightarrow> unat a = unat a' \<and> unat b = unat b' \<and> unat c = unat c' \<and> unat d = unat d' \<and> unat e = unat e'
      \<and> unat f = unat f' \<and> unat g = unat g' \<and> unat h = unat h'"
    unfolding v6_value by (simp only: digits_eq segment_less conj_assoc)
  then show ?thesis by (simp only: word_unat_eq_iff list.inject simp_thms)
qed

text \<open>The server listens exactly on the loopback networks 127.0.0.0/8 and ::1/128 and on the
  Tailscale networks 100.64.0.0/10 and fd7a:115c:a1e0::/48.\<close>

theorem private_bind_networks:
  assumes "proper_address a"
  shows "private_bind a \<longleftrightarrow>
     in_network 8 (Ipv4 [127, 0, 0, 0]) a \<or> in_network 128 (Ipv6 [0, 0, 0, 0, 0, 0, 0, 1]) a
     \<or> in_network 10 (Ipv4 [100, 64, 0, 0]) a
     \<or> in_network 48 (Ipv6 [0xfd7a, 0x115c, 0xa1e0, 0, 0, 0, 0, 0]) a"
proof (cases a)
  case (Ipv4 octets)
  with assms obtain x y z t where o: "octets = [x, y, z, t]"
    by (auto simp: length_Suc_conv numeral_eq_Suc)
  have v_eq: "address_value a = 256 * (256 * (256 * unat x + unat y) + unat z) + unat t"
    by (simp add: Ipv4 o)
  note v = v4_networks [OF octet_less [of x] octet_less [of y] octet_less [of z] octet_less [of t]]
  have "in_network 8 (Ipv4 [127, 0, 0, 0]) a \<longleftrightarrow> unat x = 127"
    using v(1) v_eq by (simp add: Ipv4 o)
  moreover have "in_network 10 (Ipv4 [100, 64, 0, 0]) a \<longleftrightarrow> 4 * unat x + unat y div 64 = 401"
    using v(2) v_eq by (simp add: Ipv4 o)
  moreover have "4 * unat x + unat y div 64 = 401 \<longleftrightarrow> unat x = 100 \<and> 64 \<le> unat y \<and> unat y < 128"
  proof -
    have "unat y div 64 < 4" using octet_less [of y] by (simp add: less_mult_imp_div_less)
    from third_octet [OF this, of "unat x"] show ?thesis unfolding div_64 .
  qed
  ultimately show ?thesis
    by (simp add: private_bind_def is_loopback_def Ipv4 o word_unat_eq_iff word_le_nat_alt word_less_nat_alt)
next
  case (Ipv6 segments)
  with assms obtain s0 s1 s2 s3 s4 s5 s6 s7 where s: "segments = [s0, s1, s2, s3, s4, s5, s6, s7]"
    by (auto simp: length_Suc_conv numeral_eq_Suc)
  have "in_network 128 (Ipv6 [0, 0, 0, 0, 0, 0, 0, 1]) a \<longleftrightarrow> segments = [0, 0, 0, 0, 0, 0, 0, 1]"
    unfolding Ipv6 s in_network.simps by (simp only: v6_eq diff_self_eq_0 power_0 div_by_1)
  moreover have "in_network 48 (Ipv6 [0xfd7a, 0x115c, 0xa1e0, 0, 0, 0, 0, 0]) a
      \<longleftrightarrow> s0 = 0xfd7a \<and> s1 = 0x115c \<and> s2 = 0xa1e0"
    unfolding Ipv6 s in_network.simps word_unat_eq_iff
    by (simp only: prefix_length v6_prefix digits_eq segment_less conj_assoc)
  moreover have "\<not> in_network 8 (Ipv4 [127, 0, 0, 0]) a" "\<not> in_network 10 (Ipv4 [100, 64, 0, 0]) a"
    by (simp_all add: Ipv6)
  moreover have "private_bind a \<longleftrightarrow> segments = [0, 0, 0, 0, 0, 0, 0, 1]
      \<or> s0 = 0xfd7a \<and> s1 = 0x115c \<and> s2 = 0xa1e0"
    by (auto simp: private_bind_def is_loopback_def Ipv6 s)
  ultimately show ?thesis by (simp only: simp_thms)
qed

lemma private_bind_networks_witness:
  "private_bind (Ipv4 [100, 127, 255, 255]) \<and> \<not> private_bind (Ipv4 [100, 128, 0, 0])"
  using private_bind_networks [of "Ipv4 [100, 127, 255, 255]"] private_bind_networks [of "Ipv4 [100, 128, 0, 0]"]
  by simp

section \<open>Every request is answered\<close>

fun rank :: "phase \<Rightarrow> nat" where
  "rank (Queued _) = 4"
| "rank (Checking _) = 3"
| "rank (Missed _) = 2"
| "rank (Filling _ _) = 1"
| "rank (Answered _) = 0"

definition work :: "phase list \<Rightarrow> nat" where
  "work ps = sum_list (map rank ps)"

lemma work_update: "i < length ps \<Longrightarrow> work (ps[i := q]) + rank (ps ! i) = work ps + rank q"
  unfolding work_def
  by (induction ps arbitrary: i) (auto split: nat.splits)

lemma work_le: "work ps \<le> 4 * length ps"
proof -
  have "rank p \<le> 4" for p by (cases p) simp_all
  then show ?thesis unfolding work_def by (induction ps) (auto intro: add_mono)
qed

text \<open>A step that is not an arrival.\<close>

definition quiet_step :: "crates \<Rightarrow> 's service \<Rightarrow> (string \<Rightarrow> bool) \<Rightarrow> 's server \<Rightarrow> 's server \<Rightarrow> bool" where
  "quiet_step D S vh x y \<longleftrightarrow> server_step D S vh x y \<and> length (requests y) = length (requests x)"

lemma rank_after_head: "rank (after_head vh a r) \<le> 2"
  by (auto simp: after_head_def split: sum.split option.split)

lemma rank_after_admission: "rank (after_admission vh a r) \<le> 1"
  by (auto simp: after_admission_def split: sum.split)

lemma quiet_step_works:
  assumes "quiet_step D S vh x y"
  shows "work (requests y) < work (requests x)"
proof -
  have less: "work (ps[i := q]) < work ps" if "i < length ps" "rank q < rank (ps ! i)" for ps i q
    using work_update [OF that(1), of q] that(2) by simp
  from assms have "server_step D S vh x y" "length (requests y) = length (requests x)"
    by (simp_all add: quiet_step_def)
  then show ?thesis
  proof (cases rule: server_step.cases)
    case (end_check i a r s')
    then show ?thesis using rank_after_head [of vh a r] by (auto intro!: less)
  next
    case (admission i a p busy space r c')
    then show ?thesis using rank_after_admission [of vh a r] by (auto intro!: less)
  qed (auto intro!: less)
qed

lemma quiet_stepI:
  "server_step D S vh x y \<Longrightarrow> length (requests y) = length (requests x) \<Longrightarrow> \<exists>z. quiet_step D S vh x z"
  by (auto simp: quiet_step_def)

lemma not_in_filter: "\<forall>i < length ps. \<not> P (ps ! i) \<Longrightarrow> filter P ps = []"
  by (auto simp: filter_empty_conv in_set_conv_nth)

lemma fill_step:
  assumes "i < length (requests x)" "requests x ! i = Filling a limit"
  shows "\<exists>z. quiet_step D S vh x z"
proof -
  obtain r w' s' where f: "fill_section D S a limit (cache x, bucket_state x) = (r, (w', s'))"
    by (cases "fill_section D S a limit (cache x, bucket_state x)") auto
  obtain w'' c' where "drop_guard D S limit None (w', keeper x) = (w'', c')"
    by (cases "drop_guard D S limit None (w', keeper x)")
  from quiet_stepI [OF end_fill [OF assms f this]] show ?thesis by simp
qed

lemma check_step:
  assumes "i < length (requests x)" "requests x ! i = Checking a"
  shows "\<exists>z. quiet_step D S vh x z"
proof -
  obtain r s' where f: "head_section D S a (bucket_state x) = (r, s')"
    by (cases "head_section D S a (bucket_state x)")
  from quiet_stepI [OF end_check [OF assms f]] show ?thesis by simp
qed

lemma miss_step:
  assumes "i < length (requests x)" "requests x ! i = Missed a"
    and "filter fills_unmanaged (requests x) = []"
  shows "\<exists>z. quiet_step D S vh x z"
proof (cases "srv_policy S")
  case None
  from quiet_stepI [OF start_fill [OF assms(1,2) None]] assms(3) show ?thesis by (simp add: WORKERS_def)
next
  case (Some p)
  obtain r c' where "admit p True (Inr 0) (expected_bytes a) (keeper x) = (r, c')"
    by (cases "admit p True (Inr 0) (expected_bytes a) (keeper x)")
  from quiet_stepI [OF admission [OF assms(1,2) Some this]] show ?thesis by simp
qed

lemma queue_step:
  assumes "i < length (requests x)" "requests x ! i = Queued a" "filter checks (requests x) = []"
  shows "\<exists>z. quiet_step D S vh x z"
  using quiet_stepI [OF start_check [OF assms(1,2)]] assms(3) by (simp add: WORKERS_def)

lemma quiet_step_exists:
  assumes "i < length (requests x)" "rank (requests x ! i) \<noteq> 0"
  shows "\<exists>z. quiet_step D S vh x z"
proof (cases "\<exists>j a l. j < length (requests x) \<and> (requests x ! j = Filling a l \<or> requests x ! j = Checking a)")
  case True
  then show ?thesis by (auto intro: fill_step check_step)
next
  case False
  have "filter checks (requests x) = []" "filter fills_unmanaged (requests x) = []"
  proof (rule_tac [!] not_in_filter, safe)
    fix j assume j: "j < length (requests x)"
    show False if "checks (requests x ! j)" using that False j by (cases "requests x ! j") auto
    show False if "fills_unmanaged (requests x ! j)" using that False j by (cases "requests x ! j") auto
  qed
  then show ?thesis
    using False assms by (cases "requests x ! i") (auto intro: miss_step queue_step)
qed


section \<open>The example\<close>

definition demo_licensed :: artifact where
  "demo_licensed = with_provenance \<lparr>description = ''d'', license = ''l'', citation = None\<rparr> demo_artifact"

definition demo_service :: "memory service" where
  "demo_service =
     \<lparr>srv_manifest = [demo_licensed], srv_store = demo_store, srv_mirror = memory_mirror, srv_policy = None\<rparr>"

definition demo_server :: "phase list \<Rightarrow> world \<Rightarrow> memory \<Rightarrow> memory server" where
  "demo_server ps w s = \<lparr>requests = ps, keeper = coordinator_default, cache = w, bucket_state = s\<rparr>"

abbreviation any_header :: "string \<Rightarrow> bool" where
  "any_header \<equiv> \<lambda>_. True"

definition demo_fill where
  "demo_fill = fill_section demo demo_service demo_licensed None (demo_world, memory_empty)"

lemma demo_head: "head_section demo demo_service demo_licensed memory_empty = (Inr None, memory_empty)"
proof -
  have "trim ''l'' \<noteq> []" by code_simp
  then show ?thesis
    by (simp add: head_section_def service_head_def s3_head_def handle_def bind_eff_def demo_service_def
        demo_licensed_def with_provenance_def memory_mirror_def memory_client_def memory_empty_def refused_def)
qed

lemma demo_filled: "is_ok (fst demo_fill)"
  by code_simp

lemma demo_fill_found: "hr_status (respond_with any_header (Inr (fst demo_fill))) = 302"
  using demo_filled by (auto simp: is_ok_iff respond_with_def found_response_def)

lemma demo_route: "route demo_service ''k'' = Queued demo_licensed"
proof -
  have "artifact_key_new ''k'' = Inr (ArtifactKey ''k'')" by code_simp
  moreover have "key demo_licensed = ArtifactKey ''k''" by code_simp
  ultimately show ?thesis by (simp add: route_def manifest_get_def demo_service_def)
qed

lemma demo_step:
  assumes "server_step demo demo_service any_header (demo_server ps w s) y" "y = demo_server ps' w' s'"
    "serving demo any_header demo_service x (demo_server ps w s)"
  shows "serving demo any_header demo_service x (demo_server ps' w' s')"
  using assms by (blast intro: served_on)

abbreviation demo_final :: "memory server" where
  "demo_final \<equiv> demo_server [Answered (respond_with any_header (Inr (fst demo_fill)))]
     (fst (snd demo_fill)) (snd (snd demo_fill))"

lemma demo_serving_missed:
  "serving demo any_header demo_service (demo_server [] demo_world memory_empty)
     (demo_server [Missed demo_licensed] demo_world memory_empty)"
proof -
  note start = demo_step [OF arrive [where raw = "''k''"] _ begun]
  have 1: "serving demo any_header demo_service (demo_server [] demo_world memory_empty)
      (demo_server [Queued demo_licensed] demo_world memory_empty)"
    by (rule start) (simp add: demo_server_def demo_route)
  have 2: "serving demo any_header demo_service (demo_server [] demo_world memory_empty)
      (demo_server [Checking demo_licensed] demo_world memory_empty)"
    by (rule demo_step [OF start_check [where i = 0 and a = demo_licensed] _ 1])
       (simp_all add: demo_server_def WORKERS_def)
  show ?thesis
    by (rule demo_step [OF end_check [where i = 0 and a = demo_licensed and r = "Inr None" and s' = memory_empty] _ 2])
       (simp_all add: demo_server_def demo_head after_head_def)
qed

lemma demo_serving:
  "serving demo any_header demo_service (demo_server [] demo_world memory_empty) demo_final"
proof -
  have 1: "serving demo any_header demo_service (demo_server [] demo_world memory_empty)
      (demo_server [Filling demo_licensed None] demo_world memory_empty)"
    by (rule demo_step [OF start_fill [where i = 0 and a = demo_licensed] _ demo_serving_missed])
       (simp_all add: demo_server_def WORKERS_def demo_service_def)
  obtain r w' s' where f: "demo_fill = (r, (w', s'))" by (cases demo_fill) auto
  have "srv_policy demo_service = None" by (simp add: demo_service_def)
  then show ?thesis
    by (intro demo_step [OF end_fill [where i = 0 and a = demo_licensed and limit = None and r = r and w' = w'
          and s' = s' and w'' = w' and c' = coordinator_default and panicked = None] _ 1])
       (simp_all add: demo_server_def f [unfolded demo_fill_def] f drop_guard_def)
qed

lemma demo_begin: "requests (demo_server [] w s) = []" "keeper (demo_server [] w s) = coordinator_default"
  by (simp_all add: demo_server_def)


lemma server_bounds_its_work_witness:
  "length (filter checks (requests (demo_server [Missed demo_licensed] demo_world memory_empty))) \<le> 8"
  using server_bounds_its_work [OF demo_serving_missed demo_begin] by blast

lemma demo_service_ok: "service_ok (client (srv_mirror demo_service)) memory_view"
  by (simp add: demo_service_def memory_mirror_ok)



lemma demo_resolved:
  "is_ok (fst (resolve_miss demo demo_service demo_licensed None (demo_world, memory_empty)))"
proof -
  obtain hit ws where "fill_section demo demo_service demo_licensed None (demo_world, memory_empty) = (Inr hit, ws)"
    using demo_filled [unfolded demo_fill_def] unfolding is_ok_iff by (metis prod.collapse)
  then show ?thesis unfolding fill_section_def by (auto elim!: bind_eff_InrE)
qed

lemma fill_publishes_admissible_content_witness:
  "\<exists>ob. map_of (mem_objects (snd (snd (resolve_miss demo demo_service demo_licensed None
     (demo_world, memory_empty))))) (''b'', ''p/k'') = Some ob \<and> admissible demo demo_licensed (ob_content ob)
     \<or> (\<exists>t. demo_sha t = demo_sha (ob_content ob) \<and> admissible demo demo_licensed t)"
proof -
  obtain meta w' s' where run: "resolve_miss demo demo_service demo_licensed None (demo_world, memory_empty)
      = (Inr meta, (w', s'))"
    using demo_resolved
    by (cases "resolve_miss demo demo_service demo_licensed None (demo_world, memory_empty)") (auto simp: is_ok_iff)
  have loc: "(bucket (srv_mirror demo_service), object_name (srv_mirror demo_service) (key demo_licensed)) = (''b'', ''p/k'')"
    by code_simp
  have free: "objects_of memory_view memory_empty (bucket (srv_mirror demo_service),
      object_name (srv_mirror demo_service) (key demo_licensed)) = None"
    by (simp add: memory_view_def memory_empty_def)
  have valid: "valid_key (key demo_licensed)" by code_simp
  have store: "mirror_ok (srv_store demo_service)" by (simp add: demo_service_def demo_mirror_ok)
  have sha: "sha256 demo = demo_sha" by (simp add: demo_def)
  from fill_publishes_admissible_content [OF run demo_service_ok free demo_sound valid store]
  show ?thesis unfolding sha run by metis
qed

lemma metadata_check_agrees_with_the_store_witness:
  "check_metadata demo_licensed (blob_meta) = Inr ()"
proof -
  have "admissible demo demo_licensed [1, 2, 3]" by code_simp
  moreover have "mo_sha256 blob_meta = sha256 demo [1, 2, 3]" "mo_bytes blob_meta = length [1, 2, 3 :: byte]"
    by (simp_all add: blob_meta_def demo_def)
  ultimately show ?thesis
    using metadata_check_agrees_with_the_store [of demo demo_licensed blob_meta] by blast
qed

end
