(* ===== verification/Command_Line.thy ===== *)
theory Command_Line
  imports Server
begin

text \<open>
  \<open>src/bin/starfield-datastore.rs\<close>: the commands.  A command runs on a machine: the cache, the bucket,
  the files outside the cache, and the lines printed.  Argument parsing is left out; a command is
  what it yields.  The lock file of \<open>mirror\<close> keeps other runs of the command out; here it is the two
  system calls that open and lock it.
\<close>

section \<open>The machine\<close>

record 's machine =
  m_cache :: world
  m_bucket :: 's
  m_files :: "(string \<times> bytes) list"
  m_out :: "string list"
  m_err :: "string list"

type_synonym ('s, 'a) command_action = "('s machine, datastore_error, 'a) eff"

record 's tools =
  the_crates :: crates
  the_toml :: toml_crate
  the_surroundings :: surroundings
  the_connect :: "string \<Rightarrow> io_error + 's s3_client"

definition on_cache :: "(world, 'e, 'a) eff \<Rightarrow> ('s machine, 'e, 'a) eff" where
  "on_cache m = (\<lambda>x. case m (m_cache x) of (r, w) \<Rightarrow> (r, x\<lparr>m_cache := w\<rparr>))"

definition on_bucket :: "('s, 'e, 'a) eff \<Rightarrow> ('s machine, 'e, 'a) eff" where
  "on_bucket m = (\<lambda>x. case m (m_bucket x) of (r, s) \<Rightarrow> (r, x\<lparr>m_bucket := s\<rparr>))"

definition on_both :: "(world \<times> 's, 'e, 'a) eff \<Rightarrow> ('s machine, 'e, 'a) eff" where
  "on_both m = (\<lambda>x. case m (m_cache x, m_bucket x) of (r, (w, s)) \<Rightarrow> (r, x\<lparr>m_cache := w, m_bucket := s\<rparr>))"

definition say :: "string \<Rightarrow> ('s machine, 'e, unit) eff" where
  "say line = modify (\<lambda>x. x\<lparr>m_out := m_out x @ [line]\<rparr>)"

definition complain :: "string \<Rightarrow> ('s machine, 'e, unit) eff" where
  "complain line = modify (\<lambda>x. x\<lparr>m_err := m_err x @ [line]\<rparr>)"

definition io_call :: "('s, unit) command_action" where
  "io_call = on_cache (map_err Io syscall)"

section \<open>Arguments and settings\<close>

datatype command =
    Remove_key string
  | Fetch_key "string option" string
  | Import_key "string option" string string
  | List_keys bool
  | Gc "u64 option"
  | Verify "string option" "string option" bool "string option"
  | Mirror_to "string option" "string option" "string option"
  | Serve "string option" "string option" "string option" "socket_addr option"

record args =
  arg_config :: "string option"
  arg_service :: "string option"
  arg_command :: command

record settings =
  set_config :: datastore_config
  set_service :: "string option"
  set_profile :: service_config

definition settings_load :: "'s tools \<Rightarrow> string option \<Rightarrow> string option \<Rightarrow> datastore_error + settings" where
  "settings_load T path service =
     bind_sum
       (case path of
          Some p \<Rightarrow> config_from_path (the_surroundings T) p
        | None \<Rightarrow> config_from_env (the_surroundings T)) (\<lambda>config.
       let service = or_else service
             (if length (cfg_services config) = 1 then Some (fst (hd (cfg_services config))) else None) in
       bind_sum
         (case service of
            Some name \<Rightarrow> ok_or (Config (''unknown service '' @ name)) (map_of (cfg_services config) name)
          | None \<Rightarrow> Inr service_config_default) (\<lambda>profile.
       Inr \<lparr>set_config = config, set_service = service, set_profile = profile\<rparr>))"

definition settings_builder :: "'s tools \<Rightarrow> settings \<Rightarrow> ('s, builder) command_action" where
  "settings_builder T st =
     bind_eff (of_sum (case set_service st of
         Some name \<Rightarrow> builder_for_service (the_surroundings T) (set_config st) name
       | None \<Rightarrow> config_builder (the_surroundings T) (set_config st))) (\<lambda>(b, warnings).
     bind_eff (for_each complain warnings) (\<lambda>_. ret b))"

definition settings_manifest :: "settings \<Rightarrow> string option \<Rightarrow> datastore_error + string" where
  "settings_manifest st flag =
     ok_or (Config ''set --manifest or select a service with a manifest'')
       (or_else flag (sv_manifest (set_profile st)))"

definition settings_bucket :: "settings \<Rightarrow> string option \<Rightarrow> datastore_error + string" where
  "settings_bucket st flag =
     ok_or (Config ''set --bucket/--to or select a service with a bucket'')
       (or_else flag (sv_bucket (set_profile st)))"

text \<open>\<open>std::env::var(name).ok()\<close>; blank values count.\<close>

definition env_value :: "process \<Rightarrow> string \<Rightarrow> string option" where
  "env_value P name = (case env_var P name of Var v \<Rightarrow> Some v | _ \<Rightarrow> None)"

definition settings_region :: "'s tools \<Rightarrow> settings \<Rightarrow> string option \<Rightarrow> string option" where
  "settings_region T st flag =
     (let P = sur_process (the_surroundings T) in
      or_else (or_else (or_else flag (env_value P ''AWS_REGION'')) (env_value P ''AWS_DEFAULT_REGION''))
        (sv_region (set_profile st)))"

definition open_store :: "'s tools \<Rightarrow> builder \<Rightarrow> ('s, string \<times> datastore) command_action" where
  "open_store T b = on_cache (build (the_crates T) (the_surroundings T) b)"

definition default_store :: "'s tools \<Rightarrow> settings \<Rightarrow> ('s, string \<times> datastore) command_action" where
  "default_store T st = bind_eff (settings_builder T st) (open_store T)"

definition upstream_store :: "'s tools \<Rightarrow> settings \<Rightarrow> ('s, string \<times> datastore) command_action" where
  "upstream_store T st =
     bind_eff (settings_builder T st) (\<lambda>b.
       open_store T (with_offline False (with_allow_upstream True (without_mirror b))))"

text \<open>\<open>Manifest::from_path\<close> on the files outside the cache.\<close>

definition load_manifest :: "'s tools \<Rightarrow> string \<Rightarrow> ('s, manifest) command_action" where
  "load_manifest T p =
     bind_eff io_call (\<lambda>_ x.
       (from_path (the_crates T) (the_toml T) p
          (case map_of (m_files x) p of
             None \<Rightarrow> Inl not_found_error | Some c \<Rightarrow> ok_or invalid_utf8 (from_utf8 c)), x))"

definition s3_target :: "'s tools \<Rightarrow> string \<Rightarrow> string option \<Rightarrow> datastore_error + 's s3_mirror" where
  "s3_target T target region =
     bind_sum (map_error (\<lambda>_. Config ''invalid S3 URL'') (url_parse (the_crates T) target)) (\<lambda>u.
       if scheme u \<noteq> ''s3'' \<or> username u \<noteq> [] \<or> password u \<noteq> None \<or> query u \<noteq> None
          \<or> fragment u \<noteq> None \<or> port u \<noteq> None
       then Inl (Config ''expected s3://bucket/prefix without credentials, query or fragment'')
       else
         bind_sum (ok_or (Config ''S3 URL requires a bucket'') (host u)) (\<lambda>b.
         bind_sum (let P = sur_process (the_surroundings T) in
             ok_or (Config ''set --region or AWS_REGION'')
               (or_else (or_else region (env_value P ''AWS_REGION'')) (env_value P ''AWS_DEFAULT_REGION''))) (\<lambda>region.
           s3_mirror_new (the_connect T) b (trim_matches (CHR ''/'') (url_path u)) region)))"

definition known_artifact :: "manifest \<Rightarrow> string \<Rightarrow> datastore_error + artifact" where
  "known_artifact m raw =
     bind_sum (artifact_key_new raw) (\<lambda>k.
       ok_or (Manifest_error (''unknown artifact '' @ as_str k)) (manifest_get m k))"

definition shown_path :: "string \<Rightarrow> path \<Rightarrow> string" where
  "shown_path root p = path_join root (display_path p)"

section \<open>Verifying the cache\<close>

text \<open>The artifacts that do not resolve.\<close>

fun verify_each :: "crates \<Rightarrow> datastore \<Rightarrow> artifact list \<Rightarrow> ('s, artifact list) command_action" where
  "verify_each D ds [] = ret []"
| "verify_each D ds (a # rest) =
     handle (on_cache (get D ds a)) (\<lambda>r.
       case r of
         Inr _ \<Rightarrow> bind_eff (say (''ok '' @ as_str (key a))) (\<lambda>_. verify_each D ds rest)
       | Inl e \<Rightarrow>
           bind_eff (complain (show_error e)) (\<lambda>_.
           bind_eff (verify_each D ds rest) (\<lambda>failed. ret (a # failed))))"

definition show_failure :: "verify_failure \<Rightarrow> string" where
  "show_failure f = as_str (vf_key f) @ '': '' @ vf_reason f"

definition verify_local :: "'s tools \<Rightarrow> settings \<Rightarrow> manifest \<Rightarrow> bool \<Rightarrow> ('s, unit) command_action" where
  "verify_local T st m repair =
     (let D = the_crates T in
      bind_eff (settings_builder T st) (\<lambda>b.
      bind_eff (open_store T (with_offline True b)) (\<lambda>(_, ds).
      bind_eff (verify_each D ds m) (\<lambda>failed.
        if failed = [] then ret ()
        else
          bind_eff (on_cache (verify D)) (\<lambda>failures.
            let outside = filter (\<lambda>f. manifest_get m (vf_key f) = None) failures in
            bind_eff (for_each (\<lambda>f. complain (show_failure f)) outside) (\<lambda>_.
              if repair \<and> outside \<noteq> []
              then throw (Config (''corrupt entries outside the manifest need explicit remove --key before repair: ''
                     @ join_with '', '' (map (\<lambda>f. as_str (vf_key f)) outside)))
              else if \<not> repair
              then throw (Config (''verification failed for '' @ decimal (length failed)
                     @ '' artifacts; use --repair to refetch explicitly''))
              else
                bind_eff (for_each (\<lambda>a. on_cache (remove D (key a))) failed) (\<lambda>_.
                bind_eff (default_store T st) (\<lambda>(_, ds).
                  for_each (\<lambda>a.
                    bind_eff (on_cache (get D ds a)) (\<lambda>_. say (''repaired '' @ as_str (key a)))) failed))))))))"

section \<open>Filling the bucket\<close>

definition upload_meta :: "crates \<Rightarrow> artifact_key \<Rightarrow> mirror_object action" where
  "upload_meta D k =
     bind_eff (entry D k) (\<lambda>e.
     bind_eff (of_sum (ok_or (Config (''cache entry disappeared for '' @ as_str k)) e)) (\<lambda>e.
       ret (object_of_entry e)))"

definition store_text :: "string \<Rightarrow> bytes \<Rightarrow> 's machine \<Rightarrow> 's machine" where
  "store_text p c x = x\<lparr>m_files := AList.update p c (m_files x)\<rparr>"

text \<open>A temporary file, written, synced and renamed, and its directory synced.\<close>

definition atomic_manifest :: "'s tools \<Rightarrow> string \<Rightarrow> manifest \<Rightarrow> ('s, unit) command_action" where
  "atomic_manifest T p m =
     bind_eff io_call (\<lambda>_.
     bind_eff (of_sum (to_toml_string (the_crates T) (the_toml T) m)) (\<lambda>text.
     bind_eff io_call (\<lambda>_.
     bind_eff io_call (\<lambda>_.
     bind_eff io_call (\<lambda>_.
     bind_eff (modify (store_text p (as_bytes text))) (\<lambda>_.
     bind_eff io_call (\<lambda>_. io_call)))))))"

definition needs_license :: "artifact \<Rightarrow> datastore_error" where
  "needs_license a = Manifest_error (as_str (key a) @ '' needs a license before redistribution'')"

fun mirror_each ::
    "'s tools \<Rightarrow> string \<Rightarrow> 's s3_mirror \<Rightarrow> datastore \<Rightarrow> artifact list \<Rightarrow> manifest \<Rightarrow> ('s, unit) command_action" where
  "mirror_each T p M ds [] m = ret ()"
| "mirror_each T p M ds (a # rest) m =
     (if trim (license (art_provenance a)) = [] then throw (needs_license a)
      else
        bind_eff (on_cache (get (the_crates T) ds a)) (\<lambda>blob.
        bind_eff (on_cache (upload_meta (the_crates T) (key a))) (\<lambda>meta.
        bind_eff (on_both (s3_put (the_crates T) M (key a) blob meta)) (\<lambda>_.
        bind_eff (of_sum (pin_sha256 m (key a) (mo_sha256 meta))) (\<lambda>m.
        bind_eff (atomic_manifest T p m) (\<lambda>_.
        bind_eff (say (''mirrored '' @ as_str (key a) @ '' '' @ mo_sha256 meta)) (\<lambda>_.
          mirror_each T p M ds rest m)))))))"

definition mirror_manifest :: "'s tools \<Rightarrow> settings \<Rightarrow> string \<Rightarrow> 's s3_mirror \<Rightarrow> ('s, unit) command_action" where
  "mirror_manifest T st p M =
     bind_eff io_call (\<lambda>_.
     bind_eff io_call (\<lambda>_.
     bind_eff (load_manifest T p) (\<lambda>m.
     bind_eff (upstream_store T st) (\<lambda>(_, ds).
       mirror_each T p M ds m m))))"

section \<open>Verifying the bucket\<close>

text \<open>The object's body in a temporary file, whose content is returned.\<close>

definition temp_sink :: "bytes \<Rightarrow> ('s machine \<times> bytes, io_error, unit) eff" where
  "temp_sink b = (\<lambda>(x, c). case on_cache syscall x of
     (Inr _, x') \<Rightarrow> (Inr (), (x', c @ b)) | (Inl e, x') \<Rightarrow> (Inl e, (x', c)))"

definition fetch_to_temp :: "'s s3_mirror \<Rightarrow> artifact_key \<Rightarrow> ('s, bool \<times> bytes) command_action" where
  "fetch_to_temp M k x =
     (case s3_fetch M k (\<lambda>m. on_left (on_bucket m)) temp_sink (x, []) of
        (Inr found, (x', c)) \<Rightarrow> (Inr (found, c), x')
      | (Inl e, (x', c)) \<Rightarrow> (Inl e, x'))"

text \<open>The closure that decides whether an object is good.\<close>

definition check_object ::
    "crates \<Rightarrow> 's s3_mirror \<Rightarrow> artifact \<Rightarrow> datastore_error + mirror_object option \<Rightarrow> ('s, unit) command_action" where
  "check_object D M a seen =
     (case seen of
        Inl e \<Rightarrow> throw e
      | Inr None \<Rightarrow> throw (Mirror (as_str (key a) @ '' missing from S3''))
      | Inr (Some meta) \<Rightarrow>
          bind_eff (fetch_to_temp M (key a)) (\<lambda>(found, c).
            if \<not> found then throw (Mirror (as_str (key a) @ '' disappeared from S3''))
            else
              bind_eff (on_cache (map_err Io (digest_file D (Temp c)))) (\<lambda>d.
              bind_eff (if d \<noteq> mo_sha256 meta then ret True
                  else bind_eff io_call (\<lambda>_. ret (length c \<noteq> mo_bytes meta))) (\<lambda>differs.
                if differs then throw (Mirror (as_str (key a) @ '' differs from S3 digest/size metadata''))
                else if (case expected_bytes a of Some n \<Rightarrow> n \<noteq> mo_bytes meta | None \<Rightarrow> False)
                then throw (Mirror (as_str (key a) @ '' differs from manifest size''))
                else on_cache (map_err (ContentRejected (key a)) (check_file D (art_check a) (Temp c)))))))"

text \<open>What a repair does for an artifact whose object is not good.\<close>

definition repair_object ::
    "crates \<Rightarrow> 's s3_mirror \<Rightarrow> datastore \<Rightarrow> artifact \<Rightarrow> string option \<Rightarrow> ('s, unit) command_action" where
  "repair_object D M ds a etag =
     (if trim (license (art_provenance a)) = [] then throw (needs_license a)
      else
        bind_eff (on_cache (get D ds a)) (\<lambda>p.
        bind_eff (on_cache (upload_meta D (key a))) (\<lambda>meta.
        bind_eff (on_both (case etag of
            Some etag \<Rightarrow> s3_replace D M (key a) p meta etag | None \<Rightarrow> s3_put D M (key a) p meta)) (\<lambda>_.
          say (''repaired '' @ as_str (key a))))))"

text \<open>The number of artifacts that failed; \<open>store\<close> is there when a repair is asked for.\<close>

fun verify_objects ::
    "crates \<Rightarrow> 's s3_mirror \<Rightarrow> datastore option \<Rightarrow> artifact list \<Rightarrow> ('s, nat) command_action" where
  "verify_objects D M store [] = ret 0"
| "verify_objects D M store (a # rest) =
     handle (on_bucket (s3_head M (key a))) (\<lambda>seen.
     bind_eff (case store of Some _ \<Rightarrow> on_bucket (s3_observed_etag M (key a)) | None \<Rightarrow> ret None) (\<lambda>etag.
     bind_eff (on_cache tmp_file) (\<lambda>_.
     handle (check_object D M a seen) (\<lambda>r.
       case r of
         Inr _ \<Rightarrow> bind_eff (say (''ok '' @ as_str (key a))) (\<lambda>_. verify_objects D M store rest)
       | Inl e \<Rightarrow>
           bind_eff (complain (show_error e)) (\<lambda>_.
             case store of
               Some ds \<Rightarrow> bind_eff (repair_object D M ds a etag) (\<lambda>_. verify_objects D M store rest)
             | None \<Rightarrow> bind_eff (verify_objects D M store rest) (\<lambda>n. ret (Suc n)))))))"

definition verify_s3 :: "'s tools \<Rightarrow> settings \<Rightarrow> manifest \<Rightarrow> 's s3_mirror \<Rightarrow> bool \<Rightarrow> ('s, unit) command_action" where
  "verify_s3 T st m M repair =
     bind_eff (settings_builder T st) (\<lambda>b.
     bind_eff (open_store T (with_offline True (without_mirror b))) (\<lambda>_.
     bind_eff (if repair then bind_eff (upstream_store T st) (\<lambda>(_, ds). ret (Some ds)) else ret None) (\<lambda>store.
     bind_eff (verify_objects (the_crates T) M store m) (\<lambda>failed.
       if 0 < failed then throw (Mirror (''verification failed for '' @ decimal failed @ '' artifacts''))
       else ret ()))))"

section \<open>Commands\<close>

datatype 's ending = Done | Serving "'s service" coordinator

definition list_key :: "crates \<Rightarrow> bool \<Rightarrow> artifact_key \<Rightarrow> ('s, unit) command_action" where
  "list_key D with_bytes k =
     (if with_bytes
      then bind_eff (on_cache (entry D k)) (\<lambda>e.
        case e of Some e \<Rightarrow> say (as_str k @ [CHR 0x09] @ decimal (entry_bytes e)) | None \<Rightarrow> ret ())
      else say (as_str k))"

definition run_command :: "'s tools \<Rightarrow> settings \<Rightarrow> command \<Rightarrow> ('s, 's ending) command_action" where
  "run_command T st c =
     (let D = the_crates T; done = (\<lambda>m. bind_eff m (\<lambda>_. ret Done)) in
      case c of
        Remove_key raw \<Rightarrow>
          done (bind_eff (default_store T st) (\<lambda>_.
            bind_eff (of_sum (artifact_key_new raw)) (\<lambda>k. on_cache (remove D k))))
      | Fetch_key flag raw \<Rightarrow>
          done (bind_eff (of_sum (settings_manifest st flag)) (\<lambda>p.
            bind_eff (load_manifest T p) (\<lambda>m.
            bind_eff (of_sum (known_artifact m raw)) (\<lambda>a.
            bind_eff (default_store T st) (\<lambda>(root, ds).
            bind_eff (on_cache (get D ds a)) (\<lambda>p. say (shown_path root p)))))))
      | Import_key flag raw from_file \<Rightarrow>
          done (bind_eff (of_sum (settings_manifest st flag)) (\<lambda>p.
            bind_eff (load_manifest T p) (\<lambda>m.
            bind_eff (of_sum (known_artifact m raw)) (\<lambda>a.
            bind_eff (default_store T st) (\<lambda>(root, ds).
            bind_eff (gets (\<lambda>x. map_of (m_files x) from_file)) (\<lambda>content.
            bind_eff (on_cache (import_file D a content)) (\<lambda>p. say (shown_path root p))))))))
      | List_keys with_bytes \<Rightarrow>
          done (bind_eff (default_store T st) (\<lambda>_.
            bind_eff (on_cache keys) (for_each (list_key D with_bytes))))
      | Gc max_bytes \<Rightarrow>
          done (bind_eff (default_store T st) (\<lambda>(_, ds).
            bind_eff (of_sum (ok_or (Config ''gc needs --max-bytes or STARFIELD_CACHE_MAX'')
                (or_else max_bytes (ds_max_bytes ds)))) (\<lambda>n.
            bind_eff (on_cache (gc D n)) (for_each (\<lambda>k. say (as_str k))))))
      | Verify flag target repair region \<Rightarrow>
          done (bind_eff (of_sum (settings_manifest st flag)) (\<lambda>p.
            bind_eff (load_manifest T p) (\<lambda>m.
              case target of
                None \<Rightarrow> verify_local T st m repair
              | Some target \<Rightarrow>
                  bind_eff (of_sum (s3_target T target (settings_region T st region))) (\<lambda>M.
                    verify_s3 T st m M repair))))
      | Mirror_to flag target region \<Rightarrow>
          done (bind_eff (of_sum (settings_manifest st flag)) (\<lambda>p.
            bind_eff (of_sum (bind_sum (settings_bucket st target) (\<lambda>target.
                s3_target T target (settings_region T st region)))) (\<lambda>M.
              mirror_manifest T st p M)))
      | Serve flag target region bind_addr \<Rightarrow>
          bind_eff (of_sum (settings_manifest st flag)) (\<lambda>p.
          bind_eff (load_manifest T p) (\<lambda>m.
          bind_eff (upstream_store T st) (\<lambda>(_, ds).
          bind_eff (of_sum (bind_sum (settings_bucket st target) (\<lambda>target.
              s3_target T target (settings_region T st region)))) (\<lambda>M.
          bind_eff (on_cache (serve D m ds M
              (case or_else bind_addr (sv_bind (set_profile st)) of
                 Some a \<Rightarrow> a | None \<Rightarrow> \<lparr>ip = Ipv4 [127, 0, 0, 1], tcp_port = 8080\<rparr>)
              (sv_cache (set_profile st)))) (\<lambda>(service, keeper). ret (Serving service keeper)))))))"

definition run :: "'s tools \<Rightarrow> args \<Rightarrow> ('s, 's ending) command_action" where
  "run T args =
     bind_eff (of_sum (settings_load T (arg_config args) (arg_service args))) (\<lambda>st.
       run_command T st (arg_command args))"

text \<open>\<open>main\<close>: the message of an error goes to the standard error; the exit status.\<close>

definition main_program :: "'s tools \<Rightarrow> args \<Rightarrow> ('s machine, unit, nat) eff" where
  "main_program T args =
     handle (run T args) (\<lambda>r.
       case r of
         Inr _ \<Rightarrow> ret 0
       | Inl e \<Rightarrow> bind_eff (complain (show_error e)) (\<lambda>_. ret 1))"

end
