(* ===== verification/Command_Line_Proofs.thy ===== *)
theory Command_Line_Proofs
  imports Command_Line Server_Properties
begin

text \<open>
  What the commands do to the bucket, to the files outside the cache and to the cache: the lemmas
  behind the properties of the command line.
\<close>

section \<open>The parts of the machine\<close>

lemma on_cacheE:
  assumes "on_cache m x = (r, y)"
  obtains w where "m (m_cache x) = (r, w)" "y = x\<lparr>m_cache := w\<rparr>"
  using assms by (auto simp: on_cache_def split: prod.splits)

lemma on_bucketE:
  assumes "on_bucket m x = (r, y)"
  obtains s where "m (m_bucket x) = (r, s)" "y = x\<lparr>m_bucket := s\<rparr>"
  using assms by (auto simp: on_bucket_def split: prod.splits)

lemma on_bothE:
  assumes "on_both m x = (r, y)"
  obtains w s where "m (m_cache x, m_bucket x) = (r, (w, s))" "y = x\<lparr>m_cache := w, m_bucket := s\<rparr>"
  using assms by (auto simp: on_both_def split: prod.splits)

text \<open>The bucket and the files outside the cache.\<close>

definition outside :: "'s machine \<Rightarrow> 's \<times> (string \<times> bytes) list" where
  "outside x = (m_bucket x, m_files x)"

lemma outside_on_cache [simp]: "keeps (same outside) (on_cache m)"
  by (auto simp: keeps_def same_def outside_def on_cache_def split: prod.splits)

lemma outside_say [simp]: "keeps (same outside) (say s)" "keeps (same outside) (complain s)"
  by (auto simp: keeps_def same_def outside_def say_def complain_def modify_def)

lemma outside_io_call [simp]: "keeps (same outside) io_call"
  by (simp add: io_call_def)

lemma outside_builder [simp]: "keeps (same outside) (settings_builder T st)"
  unfolding settings_builder_def
  by (intro same.keeps_bind same.keeps_of_sum same.keeps_prod same.keeps_for_each
      same.keeps_ret outside_say)

lemma outside_open_store [simp]: "keeps (same outside) (open_store T b)"
  by (simp add: open_store_def)

lemma outside_upstream [simp]: "keeps (same outside) (upstream_store T st)"
  unfolding upstream_store_def by (intro same.keeps_bind) simp_all

lemma outsideD: "keeps (same outside) m \<Longrightarrow> m x = (r, y) \<Longrightarrow> m_bucket y = m_bucket x \<and> m_files y = m_files x"
  by (auto simp: same_def outside_def dest!: keepsD)

lemma load_manifest_Inr:
  assumes "load_manifest T p x = (Inr m, y)"
  shows "\<exists>r. from_path (the_crates T) (the_toml T) p r = Inr m \<and> m_bucket y = m_bucket x \<and> m_files y = m_files x
     \<and> r = (case map_of (m_files x) p of None \<Rightarrow> Inl not_found_error
              | Some c \<Rightarrow> ok_or invalid_utf8 (from_utf8 c))"
proof -
  from assms obtain u z where "io_call x = (Inr u, z)"
    "from_path (the_crates T) (the_toml T) p (case map_of (m_files z) p of
             None \<Rightarrow> Inl not_found_error | Some c \<Rightarrow> ok_or invalid_utf8 (from_utf8 c)) = Inr m" "y = z"
    unfolding load_manifest_def by (auto elim!: bind_eff_InrE)
  with outsideD [OF outside_io_call this(1)] show ?thesis by auto
qed

section \<open>Filling the bucket\<close>

fun pins :: "manifest \<Rightarrow> (artifact_key \<times> string) list \<Rightarrow> datastore_error + manifest" where
  "pins m [] = Inr m"
| "pins m ((k, d) # ps) = bind_sum (pin_sha256 m k d) (\<lambda>m. pins m ps)"

text \<open>Every content an artifact accepts has the digest.\<close>

definition demands :: "manifest \<Rightarrow> artifact_key \<Rightarrow> string \<Rightarrow> bool" where
  "demands m k d \<longleftrightarrow> (\<exists>a. manifest_get m k = Some a
     \<and> (\<forall>D c. accepts D (art_check a) c \<longrightarrow> sha256 D c = d))"

lemma pin_demands: "pin_sha256 m k d = Inr m' \<Longrightarrow> demands m' k d"
  by (erule pin_sha256_get) (auto simp: demands_def)

lemma demands_pin: "demands m k d \<Longrightarrow> pin_sha256 m j d' = Inr m' \<Longrightarrow> demands m' k d"
  by (erule pin_sha256_get, cases "k = j") (auto simp: demands_def)

lemma pins_demands: "pins m ps = Inr m' \<Longrightarrow> (\<forall>(k, d) \<in> set ps. demands m' k d)
    \<and> (\<forall>k d. demands m k d \<longrightarrow> demands m' k d)"
  by (induction m ps rule: pins.induct)
     (auto simp: bind_sum_Inr_iff split: prod.splits dest: pin_demands demands_pin)

text \<open>What has happened to the manifest's file and to the bucket.\<close>

definition progress ::
    "'s tools \<Rightarrow> 's s3_view \<Rightarrow> 's s3_mirror \<Rightarrow> string \<Rightarrow> manifest \<Rightarrow> artifact list
      \<Rightarrow> datastore_error + unit \<Rightarrow> 's machine \<Rightarrow> 's machine \<Rightarrow> bool" where
  "progress T V M p m as r x y \<longleftrightarrow>
     objects_of V (m_bucket x) \<subseteq>\<^sub>m objects_of V (m_bucket y)
     \<and> (\<exists>ps m'. pins m ps = Inr m'
          \<and> (if ps = [] then map_of (m_files y) = map_of (m_files x)
             else \<exists>text. to_toml_string (the_crates T) (the_toml T) m' = Inr text
               \<and> map_of (m_files y) = (map_of (m_files x))(p \<mapsto> as_bytes text))
          \<and> (\<forall>(k, d) \<in> set ps. \<exists>ob. objects_of V (m_bucket y) (at M k) = Some ob
               \<and> map_of (ob_metadata ob) ''sha256'' = Some d)
          \<and> (r = Inr () \<longrightarrow> map fst ps = map key as \<and> (\<forall>a \<in> set as. licensed a)))"

lemma progress_none:
  "m_files y = m_files x \<Longrightarrow> objects_of V (m_bucket x) \<subseteq>\<^sub>m objects_of V (m_bucket y) \<Longrightarrow> r = Inl e \<Longrightarrow>
   progress T V M p m as r x y"
  unfolding progress_def by (intro conjI exI [of _ "[]"] exI [of _ m]) simp_all

lemma atomic_manifest_outcome:
  assumes "atomic_manifest T p m x = (r, y)"
  shows "m_bucket y = m_bucket x
     \<and> (m_files y = m_files x \<and> r \<noteq> Inr ()
        \<or> (\<exists>text. to_toml_string (the_crates T) (the_toml T) m = Inr text
             \<and> map_of (m_files y) = (map_of (m_files x))(p \<mapsto> as_bytes text)))"
proof -
  have io: "m_bucket b = m_bucket a \<and> m_files b = m_files a" if "io_call a = (q, b)" for a b :: "'a machine" and q
    using outsideD [OF outside_io_call that] .
  show ?thesis
    using assms unfolding atomic_manifest_def
    by (auto elim!: bind_eff_cases dest!: io simp: modify_def store_text_def update_conv' split: sum.splits)
qed

lemma upload_meta_Inr:
  assumes "upload_meta D k w = (Inr meta, w')"
  shows "\<exists>e w1. (entry D k :: index_entry option action) w = (Inr (Some e), w1) \<and> meta = object_of_entry e"
  using assms unfolding upload_meta_def by (auto elim!: bind_eff_InrE split: option.splits simp: ok_or_def)

lemma put_holds:
  assumes "service_ok (client M) V" "s3_put D M k p meta (w, s) = (Inr out, (w', s'))"
  shows "\<exists>ob. objects_of V s' (at M k) = Some ob \<and> map_of (ob_metadata ob) ''sha256'' = Some (mo_sha256 meta)"
proof -
  from s3_write_cases [OF assms(1) assms(2) [unfolded s3_put_def]] obtain c m where
    m: "upload_metadata D (client M) meta = Inr m"
    and o: "outcome_of If_none_match_any (at M k) c m meta (Inr out) (objects_of V s) (objects_of V s')"
    by (auto simp: the_condition_def)
  from upload_metadata_Inr [OF m] o show ?thesis
    by (cases out) (auto simp: outcome_of_def stores_def describes_def)
qed

lemma put_grows:
  "service_ok (client M) V \<Longrightarrow> s3_put D M k p meta (w, s) = (r, (w', s')) \<Longrightarrow> objects_of V s \<subseteq>\<^sub>m objects_of V s'"
  by (drule grows_put [where D = D and k = k and p = p and x = meta, THEN keepsD], assumption)
     (simp add: grows_def)

lemma say_bind: "bind_eff (say l) f x = f () (x\<lparr>m_out := m_out x @ [l]\<rparr>)"
  by (simp add: say_def modify_def bind_eff_def)

text \<open>A step that leaves the bucket and the files alone either stops the command or is passed.\<close>

lemma quiet_bind:
  assumes "bind_eff m f x = (r, y)" "keeps (same outside) m"
  obtains (stopped) e where "r = Inl e" "outside y = outside x"
    | (passed) v z where "m x = (Inr v, z)" "outside z = outside x" "f v z = (r, y)"
  using assms by (auto elim!: bind_eff_cases simp: same_def dest: keepsD)

lemma progress_stopped: "outside y = outside x \<Longrightarrow> progress T V M p m as (Inl e) x y"
  by (simp add: outside_def progress_none)

lemma map_le_at: "f \<subseteq>\<^sub>m g \<Longrightarrow> f l = Some v \<Longrightarrow> g l = Some v"
  by (metis domI map_le_def)

text \<open>One artifact uploaded and its pin written.\<close>

lemma progress_step:
  assumes ob: "\<exists>ob. objects_of V (m_bucket z) (at M (key a)) = Some ob \<and> map_of (ob_metadata ob) ''sha256'' = Some d"
    and grown: "objects_of V (m_bucket x) \<subseteq>\<^sub>m objects_of V (m_bucket z)"
    and pin: "pin_sha256 m (key a) d = Inr m1" and a: "licensed a"
    and wrote: "to_toml_string (the_crates T) (the_toml T) m1 = Inr text"
      "map_of (m_files z) = (map_of (m_files x))(p \<mapsto> as_bytes text)"
    and tail: "progress T V M p m1 as r z y"
  shows "progress T V M p m (a # as) r x y"
proof -
  from tail obtain ps m' where grown': "objects_of V (m_bucket z) \<subseteq>\<^sub>m objects_of V (m_bucket y)"
    and ps: "pins m1 ps = Inr m'"
    and now: "if ps = [] then map_of (m_files y) = map_of (m_files z)
        else \<exists>text. to_toml_string (the_crates T) (the_toml T) m' = Inr text
          \<and> map_of (m_files y) = (map_of (m_files z))(p \<mapsto> as_bytes text)"
    and held: "\<forall>(k, d) \<in> set ps. \<exists>ob. objects_of V (m_bucket y) (at M k) = Some ob
          \<and> map_of (ob_metadata ob) ''sha256'' = Some d"
    and finished: "r = Inr () \<longrightarrow> map fst ps = map key as \<and> (\<forall>a \<in> set as. licensed a)"
    unfolding progress_def by blast
  have "objects_of V (m_bucket x) \<subseteq>\<^sub>m objects_of V (m_bucket y)"
    using grown grown' by (rule map_le_trans)
  moreover have "pins m ((key a, d) # ps) = Inr m'" using pin ps by simp
  moreover have "\<exists>text. to_toml_string (the_crates T) (the_toml T) m' = Inr text
      \<and> map_of (m_files y) = (map_of (m_files x))(p \<mapsto> as_bytes text)"
    using now wrote ps by (cases "ps = []") auto
  moreover have "\<exists>ob. objects_of V (m_bucket y) (at M (key a)) = Some ob
      \<and> map_of (ob_metadata ob) ''sha256'' = Some d"
  proof -
    from ob obtain b where b: "objects_of V (m_bucket z) (at M (key a)) = Some b"
      "map_of (ob_metadata b) ''sha256'' = Some d" by blast
    from grown' b(1) have "objects_of V (m_bucket y) (at M (key a)) = Some b" by (rule map_le_at)
    with b(2) show ?thesis by blast
  qed
  ultimately show ?thesis
    using held finished a unfolding progress_def
    by (intro conjI exI [of _ "(key a, d) # ps"] exI [of _ m']) auto
qed

lemma progress_mono:
  "outside x' = outside x \<Longrightarrow> progress T V M p m as r x' y \<Longrightarrow> progress T V M p m as r x y"
  by (simp only: progress_def outside_def prod.inject)

lemma uploaded:
  assumes ok: "service_ok (client M) V"
    and run: "bind_eff (on_both (s3_put (the_crates T) M (key a) blob meta)) (\<lambda>_.
        bind_eff (of_sum (pin_sha256 m (key a) (mo_sha256 meta))) (\<lambda>m.
        bind_eff (atomic_manifest T p m) (\<lambda>_.
        bind_eff (say (''mirrored '' @ as_str (key a) @ '' '' @ mo_sha256 meta)) (\<lambda>_.
          mirror_each T p M ds as m)))) x = (r, y)"
    and IH: "\<And>m x. mirror_each T p M ds as m x = (r, y) \<Longrightarrow> progress T V M p m as r x y"
    and a: "licensed a"
  shows "progress T V M p m (a # as) r x y"
proof -
  have put: "objects_of V (m_bucket x) \<subseteq>\<^sub>m objects_of V (m_bucket z) \<and> m_files z = m_files x
      \<and> (\<forall>out. q = Inr out \<longrightarrow> (\<exists>ob. objects_of V (m_bucket z) (at M (key a)) = Some ob
           \<and> map_of (ob_metadata ob) ''sha256'' = Some (mo_sha256 meta)))"
    if "on_both (s3_put (the_crates T) M (key a) blob meta) x = (q, z)" for q z
    using that put_grows [OF ok] put_holds [OF ok] by (fastforce elim!: on_bothE)
  from run show ?thesis
  proof (cases rule: bind_eff_cases)
    case (stop e)
    with put [OF stop(1)] show ?thesis by (auto intro: progress_none)
  next
    case (go out x1)
    note x1 = put [OF go(1)]
    show ?thesis
    proof (cases "pin_sha256 m (key a) (mo_sha256 meta)")
      case (Inl e)
      with go(2) x1 show ?thesis by (auto simp: bind_eff_def intro: progress_none)
    next
      case (Inr m1)
      with go(2) have "bind_eff (atomic_manifest T p m1) (\<lambda>_.
          bind_eff (say (''mirrored '' @ as_str (key a) @ '' '' @ mo_sha256 meta)) (\<lambda>_.
            mirror_each T p M ds as m1)) x1 = (r, y)" by (simp add: bind_eff_of_sum)
      then show ?thesis
      proof (cases rule: bind_eff_cases)
        case (stop e)
        from atomic_manifest_outcome [OF stop(1)] show ?thesis
        proof (elim conjE disjE exE)
          assume "m_files y = m_files x1" "m_bucket y = m_bucket x1"
          with x1 stop(2) show ?thesis by (auto intro: progress_none)
        next
          fix t assume y: "m_bucket y = m_bucket x1"
            "to_toml_string (the_crates T) (the_toml T) m1 = Inr t"
            "map_of (m_files y) = (map_of (m_files x1))(p \<mapsto> as_bytes t)"
          have "progress T V M p m1 as r y y" using stop(2) by (simp add: progress_stopped)
          with x1 y show ?thesis by (intro progress_step [OF _ _ Inr a y(2)]) auto
        qed
      next
        case (go u x2)
        from atomic_manifest_outcome [OF go(1)] obtain s where t: "m_bucket x2 = m_bucket x1"
          "to_toml_string (the_crates T) (the_toml T) m1 = Inr s"
          "map_of (m_files x2) = (map_of (m_files x1))(p \<mapsto> as_bytes s)" by auto
        from go(2) obtain x3 where "outside x3 = outside x2" "mirror_each T p M ds as m1 x3 = (r, y)"
          unfolding say_bind by (rule that [rotated]) (simp add: outside_def)
        with IH have "progress T V M p m1 as r x2 y" by (auto intro: progress_mono)
        with x1 t show ?thesis by (intro progress_step [OF _ _ Inr a t(2)]) auto
      qed
    qed
  qed
qed

lemma mirror_each_progress:
  assumes ok: "service_ok (client M) V"
  shows "mirror_each T p M ds as m x = (r, y) \<Longrightarrow> progress T V M p m as r x y"
proof (induction as arbitrary: m x)
  case Nil
  then show ?case
    unfolding progress_def by (intro conjI exI [of _ "[]"] exI [of _ m]) auto
next
  case (Cons a as)
  show ?case
  proof (cases "licensed a")
    case False
    with Cons.prems show ?thesis by (auto simp: licensed_def intro!: progress_stopped)
  next
    case True
    with Cons.prems have "bind_eff (on_cache (get (the_crates T) ds a)) (\<lambda>blob.
        bind_eff (on_cache (upload_meta (the_crates T) (key a))) (\<lambda>meta.
        bind_eff (on_both (s3_put (the_crates T) M (key a) blob meta)) (\<lambda>_.
        bind_eff (of_sum (pin_sha256 m (key a) (mo_sha256 meta))) (\<lambda>m.
        bind_eff (atomic_manifest T p m) (\<lambda>_.
        bind_eff (say (''mirrored '' @ as_str (key a) @ '' '' @ mo_sha256 meta)) (\<lambda>_.
          mirror_each T p M ds as m)))))) x = (r, y)"
      by (simp add: licensed_def)
    then show ?thesis
    proof (rule quiet_bind [OF _ outside_on_cache])
      fix blob x1 assume x1: "outside x1 = outside x" and "bind_eff (on_cache (upload_meta (the_crates T) (key a))) (\<lambda>meta.
        bind_eff (on_both (s3_put (the_crates T) M (key a) blob meta)) (\<lambda>_.
        bind_eff (of_sum (pin_sha256 m (key a) (mo_sha256 meta))) (\<lambda>m.
        bind_eff (atomic_manifest T p m) (\<lambda>_.
        bind_eff (say (''mirrored '' @ as_str (key a) @ '' '' @ mo_sha256 meta)) (\<lambda>_.
          mirror_each T p M ds as m))))) x1 = (r, y)"
      from this(2) show ?thesis
      proof (rule quiet_bind [OF _ outside_on_cache])
        fix meta x2 assume x2: "outside x2 = outside x1" and "bind_eff (on_both (s3_put (the_crates T) M (key a) blob meta)) (\<lambda>_.
          bind_eff (of_sum (pin_sha256 m (key a) (mo_sha256 meta))) (\<lambda>m.
          bind_eff (atomic_manifest T p m) (\<lambda>_.
          bind_eff (say (''mirrored '' @ as_str (key a) @ '' '' @ mo_sha256 meta)) (\<lambda>_.
            mirror_each T p M ds as m)))) x2 = (r, y)"
        from uploaded [OF ok this(2) Cons.IH True] x1 x2 show ?thesis by (auto intro: progress_mono)
      qed (use x1 in \<open>auto intro: progress_stopped\<close>)
    qed (auto intro: progress_stopped)
  qed
qed

end
