(* ===== verification/Command_Line_Checks.thy ===== *)
theory Command_Line_Checks
  imports Command_Line_Proofs
begin

text \<open>
  What \<open>verify\<close> establishes, for the bucket and for the cache, and what it leaves alone; and what kind
  of store fills a bucket.
\<close>

section \<open>Verifying the bucket\<close>

lemma temp_sink_for_each:
  "for_each (\<lambda>b. if b = [] then ret () else temp_sink b) bs (x, c) = (r, (y, c')) \<Longrightarrow>
   outside y = outside x \<and> (r = Inr () \<longrightarrow> c' = c @ concat bs)"
proof (induction bs arbitrary: x c)
  case (Cons b bs)
  have step: "outside z = outside x \<and> (q = Inr () \<longrightarrow> c1 = c @ b)"
    if "(if b = [] then ret () else temp_sink b) (x, c) = (q, (z, c1))" for q z c1
    using that outsideD [OF outside_on_cache [of syscall]]
    by (cases "on_cache syscall x") (auto simp: temp_sink_def outside_def split: if_splits sum.splits)
  from Cons.prems show ?case unfolding for_each.simps
  proof (cases rule: bind_eff_cases)
    case (stop e)
    with step show ?thesis by simp
  next
    case (go u s)
    obtain z c1 where s: "s = (z, c1)" by (cases s)
    from step [OF go(1) [unfolded s]] Cons.IH [OF go(2) [unfolded s]] show ?thesis by simp
  qed
qed simp

lemma fetch_to_temp_service:
  assumes ok: "service_ok (client M) V" and run: "fetch_to_temp M k x = (r, y)"
  shows "objects_of V (m_bucket y) = objects_of V (m_bucket x)
     \<and> (\<forall>c. r = Inr (True, c) \<longrightarrow>
          (\<exists>ob. objects_of V (m_bucket x) (at M k) = Some ob \<and> ob_content ob = c))"
proof -
  obtain q x1 s1 where g: "get_object (client M) (bucket M) (object_name M k) (m_bucket x) = (q, s1)"
    and x1: "x1 = x\<lparr>m_bucket := s1\<rparr>"
    by (cases "get_object (client M) (bucket M) (object_name M k) (m_bucket x)") auto
  note law = ok [unfolded service_ok_def, THEN conjunct2, THEN conjunct1, unfolded gets_ok_def, rule_format, OF g]
  have fetched: "s3_fetch M k (\<lambda>m. on_left (on_bucket m)) temp_sink (x, [])
      = (case q of
         Inl e \<Rightarrow> if fail_status e = Some 404 then ret False else throw (service_error M k ''GET'' e)
       | Inr out \<Rightarrow> s3_stream out temp_sink) (x1, [])"
    by (simp add: s3_fetch_def handle_def on_left_def on_bucket_def g x1)
  show ?thesis
  proof (cases q)
    case (Inl e)
    with run fetched law x1 show ?thesis by (auto simp: fetch_to_temp_def split: if_splits)
  next
    case (Inr out)
    obtain t z c where s: "s3_stream out temp_sink (x1, []) = (t, (z, c))"
      by (cases "s3_stream out temp_sink (x1, [])") auto
    obtain u z' c' where f: "for_each (\<lambda>b. if b = [] then ret () else temp_sink b) (go_chunks out) (x1, []) = (u, (z', c'))"
      by (cases "for_each (\<lambda>b. if b = [] then ret () else temp_sink b) (go_chunks out) (x1, [])") auto
    note sink = temp_sink_for_each [OF f]
    have "outside z = outside x1 \<and> (t = Inr True \<longrightarrow> \<not> go_fails out \<and> c = concat (go_chunks out))"
      using s f sink by (cases u) (auto simp: s3_stream_def map_err_def bind_eff_def split: if_splits)
    with run fetched Inr s law x1 show ?thesis
      by (auto simp: fetch_to_temp_def outside_def split: sum.splits)
  qed
qed

definition judge :: "crates \<Rightarrow> artifact \<Rightarrow> mirror_object \<Rightarrow> bool \<times> bytes \<Rightarrow> ('s, unit) command_action" where
  "judge D a meta = (\<lambda>(found, c).
     if \<not> found then throw (Mirror (as_str (key a) @ '' disappeared from S3''))
     else
       bind_eff (on_cache (map_err Io (digest_file D (Temp c)))) (\<lambda>d.
       bind_eff (if d \<noteq> mo_sha256 meta then ret True
           else bind_eff io_call (\<lambda>_. ret (length c \<noteq> mo_bytes meta))) (\<lambda>differs.
         if differs then throw (Mirror (as_str (key a) @ '' differs from S3 digest/size metadata''))
         else if (case expected_bytes a of Some n \<Rightarrow> n \<noteq> mo_bytes meta | None \<Rightarrow> False)
         then throw (Mirror (as_str (key a) @ '' differs from manifest size''))
         else on_cache (map_err (ContentRejected (key a)) (check_file D (art_check a) (Temp c))))))"

lemma check_object_judge: "check_object D M a (Inr (Some meta)) = bind_eff (fetch_to_temp M (key a)) (judge D a meta)"
  by (simp add: check_object_def judge_def [abs_def])

lemma judge_outside: "keeps (same outside) (judge D a meta fc)"
  unfolding judge_def
  by (cases fc) (auto intro!: same.keeps_if same.keeps_bind same.keeps_throw same.keeps_ret)

lemma judge_Inr:
  assumes j: "judge D a meta (found, c) z = (Inr (), y)"
  shows "found \<and> sha256 D c = mo_sha256 meta \<and> length c = mo_bytes meta \<and> admissible D a c"
proof -
  from j have f: found by (auto simp: judge_def split: if_splits)
  with j obtain d z1 b z2 where
    d: "on_cache (map_err Io (digest_file D (Temp c))) z = (Inr d, z1)"
    and b: "(if d \<noteq> mo_sha256 meta then ret True
        else bind_eff io_call (\<lambda>_. ret (length c \<noteq> mo_bytes meta))) z1 = (Inr b, z2)"
    and last: "(if b then throw (Mirror (as_str (key a) @ '' differs from S3 digest/size metadata''))
              else if (case expected_bytes a of Some n \<Rightarrow> n \<noteq> mo_bytes meta | None \<Rightarrow> False)
              then throw (Mirror (as_str (key a) @ '' differs from manifest size''))
              else on_cache (map_err (ContentRejected (key a)) (check_file D (art_check a) (Temp c)))) z2 = (Inr (), y)"
    unfolding judge_def by (auto elim!: bind_eff_InrE)
  from last have nb: "\<not> b" by (auto split: if_splits)
  from d have "d = sha256 D c" by (auto elim!: on_cacheE dest!: map_err_InrE digest_file_InrD)
  moreover from b nb have "d = mo_sha256 meta \<and> length c = mo_bytes meta"
    by (auto elim!: bind_eff_InrE split: if_splits)
  moreover from last nb have "accepts D (art_check a) c"
    by (auto elim!: on_cacheE dest!: map_err_InrE check_file_sound split: if_splits)
  moreover from last nb have "case expected_bytes a of Some n \<Rightarrow> n = mo_bytes meta | None \<Rightarrow> True"
    by (auto split: option.splits if_splits)
  ultimately show ?thesis using f by (auto simp: admissible_def split: option.splits)
qed

lemma check_object_service:
  assumes ok: "service_ok (client M) V" and run: "check_object D M a seen x = (r, y)"
  shows "objects_of V (m_bucket y) = objects_of V (m_bucket x)
     \<and> (r = Inr () \<longrightarrow> (\<exists>meta ob. seen = Inr (Some meta)
          \<and> objects_of V (m_bucket x) (at M (key a)) = Some ob \<and> admissible D a (ob_content ob)
          \<and> sha256 D (ob_content ob) = mo_sha256 meta \<and> length (ob_content ob) = mo_bytes meta))"
proof (cases "\<exists>meta. seen = Inr (Some meta)")
  case False
  with run show ?thesis by (auto simp: check_object_def split: sum.splits option.splits)
next
  case True
  then obtain meta where meta: "seen = Inr (Some meta)" by blast
  from run have "bind_eff (fetch_to_temp M (key a)) (judge D a meta) x = (r, y)"
    by (simp add: meta check_object_judge)
  then show ?thesis
  proof (cases rule: bind_eff_cases)
    case (stop e)
    with fetch_to_temp_service [OF ok stop(1)] show ?thesis by simp
  next
    case (go fc z)
    obtain found c where fc: "fc = (found, c)" by (cases fc)
    note dl = fetch_to_temp_service [OF ok go(1)] and q = outsideD [OF judge_outside go(2)]
    show ?thesis
    proof (cases "r = Inr ()")
      case True
      with judge_Inr [of D a meta found c z y] go(2) fc dl q meta show ?thesis by auto
    next
      case False
      with dl q show ?thesis by simp
    qed
  qed
qed

lemma complain_bind: "bind_eff (complain l) f x = f () (x\<lparr>m_err := m_err x @ [l]\<rparr>)"
  by (simp add: complain_def modify_def bind_eff_def)

lemma outside_prints [simp]: "outside (x\<lparr>m_out := l\<rparr>) = outside x" "outside (x\<lparr>m_err := l\<rparr>) = outside x"
  by (simp_all add: outside_def)

text \<open>One artifact of a verification: what is seen, what is decided, and what is left to do.\<close>

lemma verify_objects_Cons:
  assumes ok: "service_ok (client M) V"
    and run: "verify_objects D M None (a # as) x = (r, y)"
  obtains (stopped) e where "r = Inl e" "objects_of V (m_bucket y) = objects_of V (m_bucket x)"
    | (went) t :: "datastore_error + unit" and z q where "objects_of V (m_bucket z) = objects_of V (m_bucket x)"
        "verify_objects D M None as z = (q, y)" "r = (case t of Inr _ \<Rightarrow> q | Inl _ \<Rightarrow> map_sum id Suc q)"
        "t = Inr () \<Longrightarrow> \<exists>ob. objects_of V (m_bucket x) (at M (key a)) = Some ob
           \<and> admissible D a (ob_content ob)
           \<and> map_of (ob_metadata ob) ''sha256'' = Some (sha256 D (ob_content ob))"
proof -
  define judged where "judged = (\<lambda>seen. handle (check_object D M a seen) (\<lambda>r.
       case r of
         Inr _ \<Rightarrow> bind_eff (say (''ok '' @ as_str (key a))) (\<lambda>_. verify_objects D M None as)
       | Inl e \<Rightarrow>
           bind_eff (complain (show_error e)) (\<lambda>_.
             bind_eff (verify_objects D M None as) (\<lambda>n. ret (Suc n)))))"
  from run obtain q x1 where h: "on_bucket (s3_head M (key a)) x = (q, x1)"
    and rest: "bind_eff (on_cache tmp_file) (\<lambda>_. judged q) x1 = (r, y)"
    by (auto elim!: handleE simp: bind_eff_def judged_def)
  from h obtain s1 where s1: "s3_head M (key a) (m_bucket x) = (q, s1)" "x1 = x\<lparr>m_bucket := s1\<rparr>"
    by (rule on_bucketE)
  note hd = s3_head_service [OF ok s1(1)]
  from rest show thesis
  proof (rule quiet_bind [OF _ outside_on_cache])
    fix e assume "r = Inl e" "outside y = outside x1"
    with hd s1 show thesis by (intro stopped) (simp_all add: outside_def)
  next
    fix u x2 assume x2: "outside x2 = outside x1" and "judged q x2 = (r, y)"
    from this(2) obtain t x3 where c: "check_object D M a q x2 = (t, x3)"
      and last: "(case t of
         Inr _ \<Rightarrow> bind_eff (say (''ok '' @ as_str (key a))) (\<lambda>_. verify_objects D M None as)
       | Inl e \<Rightarrow>
           bind_eff (complain (show_error e)) (\<lambda>_.
             bind_eff (verify_objects D M None as) (\<lambda>n. ret (Suc n)))) x3 = (r, y)"
      unfolding judged_def by (rule handleE)
    note chk = check_object_service [OF ok c]
    have o2: "objects_of V (m_bucket x2) = objects_of V (m_bucket x)"
      using x2 hd s1 by (simp add: outside_def)
    have good: "\<exists>ob. objects_of V (m_bucket x) (at M (key a)) = Some ob
         \<and> admissible D a (ob_content ob) \<and> map_of (ob_metadata ob) ''sha256'' = Some (sha256 D (ob_content ob))"
      if t: "t = Inr ()"
    proof -
      from chk t o2 obtain meta ob where m: "q = Inr (Some meta)"
        "objects_of V (m_bucket x) (at M (key a)) = Some ob" "admissible D a (ob_content ob)"
        "sha256 D (ob_content ob) = mo_sha256 meta" by auto
      from hd m(1) obtain ob' where "objects_of V (m_bucket x) (at M (key a)) = Some ob'"
        "describes meta ob'" by blast
      with m show ?thesis by (auto simp: describes_def)
    qed
    obtain z where z: "outside z = outside x3" "\<exists>q. verify_objects D M None as z = (q, y)
        \<and> r = (case t of Inr _ \<Rightarrow> q | Inl _ \<Rightarrow> map_sum id Suc q)"
    proof (cases t)
      case (Inr u)
      with last show thesis
        by (intro that [of "x3\<lparr>m_out := m_out x3 @ [''ok '' @ as_str (key a)]\<rparr>"]) (simp_all add: say_bind)
    next
      case (Inl e)
      with last show thesis
        by (intro that [of "x3\<lparr>m_err := m_err x3 @ [show_error e]\<rparr>"])
           (auto simp: complain_bind elim!: bind_eff_cases)
    qed
    then obtain q' where q': "verify_objects D M None as z = (q', y)"
      "r = (case t of Inr _ \<Rightarrow> q' | Inl _ \<Rightarrow> map_sum id Suc q')" by blast
    have "objects_of V (m_bucket z) = objects_of V (m_bucket x)"
      using z(1) o2 chk by (simp add: outside_def)
    from went [OF this q'] good show thesis by blast
  qed
qed

lemma verify_objects_service:
  assumes ok: "service_ok (client M) V"
  shows "verify_objects D M None as x = (r, y) \<Longrightarrow>
    objects_of V (m_bucket y) = objects_of V (m_bucket x)
    \<and> (r = Inr 0 \<longrightarrow> (\<forall>a \<in> set as. \<exists>ob. objects_of V (m_bucket x) (at M (key a)) = Some ob
         \<and> admissible D a (ob_content ob)
         \<and> map_of (ob_metadata ob) ''sha256'' = Some (sha256 D (ob_content ob))))"
proof (induction as arbitrary: x r)
  case (Cons a as)
  show ?case
  proof (rule verify_objects_Cons [OF ok Cons.prems])
    fix t :: "datastore_error + unit" and z q assume z: "objects_of V (m_bucket z) = objects_of V (m_bucket x)"
      "verify_objects D M None as z = (q, y)" "r = (case t of Inr _ \<Rightarrow> q | Inl _ \<Rightarrow> map_sum id Suc q)"
      "t = Inr () \<Longrightarrow> \<exists>ob. objects_of V (m_bucket x) (at M (key a)) = Some ob
           \<and> admissible D a (ob_content ob)
           \<and> map_of (ob_metadata ob) ''sha256'' = Some (sha256 D (ob_content ob))"
    show ?thesis
    proof (cases t)
      case (Inl e)
      with z(3) have "r \<noteq> Inr 0" by (cases q) auto
      with Cons.IH [OF z(2)] z(1) show ?thesis by simp
    next
      case (Inr u)
      with Cons.IH [OF z(2)] z show ?thesis by auto
    qed
  qed simp
qed simp

section \<open>Verifying the cache\<close>

lemma lock_observer_tree_env: "lock_observer tree_env"
  by (simp add: lock_observer_def observers tree_env_def env_def)

lemma offline_get_keeps:
  assumes "offline ds" "lock_observer f"
  shows "keeps (same f) (get D ds a)"
proof -
  note obs = observer_lock [OF assms(2)]
  have "keeps (same f) (bind_eff (from_local D a False) (\<lambda>hit.
         case hit of
           Some r \<Rightarrow> ret r
         | None \<Rightarrow> throw (OfflineMiss (key a))))"
    by (intro same.keeps_bind same.keeps_option same.keeps_ret same.keeps_throw keeps_from_local obs)
  then show ?thesis
    unfolding get_def get_with_outcome_def get_with_budget_def lock_def if_P [OF assms(1)]
    by (intro same.keeps_bind [where m = "with_lock _ _"] same.keeps_prod same.keeps_ret keeps_with_lock assms(2))
qed

lemma offline_get_served:
  assumes "offline ds" "get D ds a w = (Inr p, w')" "valid_key (key a)"
  shows "\<exists>e. served_by D a w p e"
proof -
  from assms(2) obtain o' where run: "get_with_budget D ds a False w = (Inr (p, o'), w')" by (rule get_Inr)
  then obtain w1 w2 where t: "tree_env w1 = tree_env w"
    and h: "bind_eff (from_local D a False) (\<lambda>hit.
         case hit of Some r \<Rightarrow> ret r | None \<Rightarrow> throw (OfflineMiss (key a))) w1 = (Inr (p, o'), w2)"
    unfolding get_with_budget_def lock_def using assms(1) by (elim with_lock_views) simp
  from h have l: "from_local D a False w1 = (Inr (Some (p, o')), w2)"
    by (auto elim!: bind_eff_InrE split: option.splits)
  from from_local_served [OF l assms(3)] obtain e where e: "served_by D a w2 p e" by blast
  have "tree_env w2 = tree_env w1" by (rule sameD [OF keeps_from_local l]) (rule observers)
  with e t show ?thesis using served_by_tree [of w2 w] by auto
qed

text \<open>What a verification leaves as it is.\<close>

definition holdings :: "'s machine \<Rightarrow> (path \<Rightarrow> bytes option) \<times> request list \<times> 's \<times> (string \<times> bytes) list" where
  "holdings x = (file_at (m_cache x), sent (m_cache x), outside x)"

lemma holdings_on_cache:
  "keeps (same file_at) m \<Longrightarrow> keeps (same sent) m \<Longrightarrow> keeps (same holdings) (on_cache m)"
  by (auto simp: keeps_def same_def holdings_def outside_def on_cache_def split: prod.splits) (metis snd_conv)+

lemma holdings_prints [simp]: "keeps (same holdings) (say l)" "keeps (same holdings) (complain l)"
  by (simp_all add: keeps_def same_def holdings_def outside_def say_def complain_def modify_def)

lemma holdings_build: "keeps (same holdings) (open_store T b)"
proof -
  have "keeps (same file_at) (create_dir_all p :: unit io)" for p by (rule create_dir_all_file_at)
  moreover have "keeps (same sent) (create_dir_all p :: unit io)" for p
    by (intro keeps_prims observers)
  ultimately show ?thesis
    unfolding open_store_def build_def ensure_def
    by (intro holdings_on_cache same.keeps_bind same.keeps_of_sum same.keeps_ret same.keeps_for_each
        same.keeps_map_err)
qed

lemma holdings_builder: "keeps (same holdings) (settings_builder T st)"
  unfolding settings_builder_def
  by (intro same.keeps_bind same.keeps_of_sum same.keeps_prod same.keeps_for_each same.keeps_ret holdings_prints)

lemma file_at_served: "file_at w' = file_at w \<Longrightarrow> served_by D a w' p e = served_by D a w p e"
  by (simp add: served_by_def entry_of_def entry_text_def)

lemma holdings_get: "offline ds \<Longrightarrow> keeps (same holdings) (on_cache (get D ds a))"
proof -
  assume "offline ds"
  then have "keeps (same tree_env) (get D ds a)" by (intro offline_get_keeps lock_observer_tree_env)
  then have "keeps (same file_at) (get D ds a)"
    by (rule keeps_mono) (auto simp: same_def dest: tree_env_views)
  moreover have "keeps (same sent) (get D ds a)"
    using \<open>offline ds\<close> by (intro offline_get_keeps observers)
  ultimately show ?thesis by (rule holdings_on_cache)
qed

lemma verify_each_offline:
  assumes off: "offline ds"
  shows "verify_each D ds as x = (r, y) \<Longrightarrow>
    holdings y = holdings x \<and> (\<exists>bad. r = Inr bad \<and> set bad \<subseteq> set as
      \<and> (\<forall>a \<in> set as. a \<in> set bad \<or> (valid_key (key a) \<longrightarrow> (\<exists>p e. served_by D a (m_cache x) p e))))"
proof (induction as arbitrary: x r y)
  case (Cons a as)
  from Cons.prems obtain q x1 where g: "on_cache (get D ds a) x = (q, x1)"
    and rest: "(case q of
         Inr _ \<Rightarrow> bind_eff (say (''ok '' @ as_str (key a))) (\<lambda>_. verify_each D ds as)
       | Inl e \<Rightarrow>
           bind_eff (complain (show_error e)) (\<lambda>_.
           bind_eff (verify_each D ds as) (\<lambda>bad. ret (a # bad)))) x1 = (r, y)"
    unfolding verify_each.simps by (rule handleE)
  have h1: "holdings x1 = holdings x" using sameD [OF holdings_get [OF off] g] .
  have move: "served_by D b (m_cache z) p e = served_by D b (m_cache x) p e" if "holdings z = holdings x" for b p e z
    using that by (intro file_at_served) (simp add: holdings_def)
  show ?case
  proof (cases q)
    case (Inr p)
    define z where "z = x1\<lparr>m_out := m_out x1 @ [''ok '' @ as_str (key a)]\<rparr>"
    have z: "holdings z = holdings x" using h1 by (simp add: z_def holdings_def)
    from rest Inr have v: "verify_each D ds as z = (r, y)" by (simp add: say_bind z_def)
    from g Inr obtain w where "get D ds a (m_cache x) = (Inr p, w)" by (auto elim: on_cacheE)
    from offline_get_served [OF off this] have "valid_key (key a) \<longrightarrow> (\<exists>p e. served_by D a (m_cache x) p e)"
      by blast
    with Cons.IH [OF v] move [OF z] z show ?thesis by auto
  next
    case (Inl e)
    define z where "z = x1\<lparr>m_err := m_err x1 @ [show_error e]\<rparr>"
    have z: "holdings z = holdings x" using h1 by (simp add: z_def holdings_def)
    from rest Inl have v: "bind_eff (verify_each D ds as) (\<lambda>bad. ret (a # bad)) z = (r, y)"
      by (simp add: complain_bind z_def)
    then show ?thesis
    proof (cases rule: bind_eff_cases)
      case (stop e')
      from Cons.IH [OF stop(1)] show ?thesis by simp
    next
      case (go bad y')
      from Cons.IH [OF go(1)] go(2) move [OF z] z show ?thesis by auto
    qed
  qed
qed simp

lemma open_store_Inr:
  assumes "open_store T b x = (Inr (root, ds), y)"
  shows "offline ds = (b_offline b = Some True) \<and> allow_upstream ds = (b_allow_upstream b = Some True)
     \<and> (b_mirror b = None \<longrightarrow> ds_mirror ds = None) \<and> ds_max_bytes ds = b_max_bytes b
     \<and> ds_provider ds = b_credentials b"
  using assms unfolding open_store_def build_def
  by (auto elim!: on_cacheE bind_eff_InrE split: option.splits)

text \<open>The end of a verification that does not repair.\<close>

definition refuse_failed :: "crates \<Rightarrow> manifest \<Rightarrow> artifact list \<Rightarrow> ('s, unit) command_action" where
  "refuse_failed D m bad =
     (if bad = [] then ret ()
      else
        bind_eff (on_cache (verify D)) (\<lambda>failures.
        bind_eff (for_each (\<lambda>f. complain (show_failure f)) (filter (\<lambda>f. manifest_get m (vf_key f) = None) failures)) (\<lambda>_.
          throw (Config (''verification failed for '' @ decimal (length bad)
                 @ '' artifacts; use --repair to refetch explicitly'')))))"

lemma verify_local_plain:
  "verify_local T st m False =
     bind_eff (settings_builder T st) (\<lambda>b.
     bind_eff (open_store T (with_offline True b)) (\<lambda>(_, ds).
     bind_eff (verify_each (the_crates T) ds m) (refuse_failed (the_crates T) m)))"
  by (simp add: verify_local_def refuse_failed_def [abs_def] Let_def cong: if_cong)

lemma refuse_failed_holdings: "keeps (same holdings) (refuse_failed D m bad)"
proof -
  have "keeps (same tree_env) (verify D)" by (intro keeps_prims observers)
  then have "keeps (same file_at) (verify D)"
    by (rule keeps_mono) (auto simp: same_def dest: tree_env_views)
  moreover have "keeps (same sent) (verify D)" by (intro keeps_prims observers)
  ultimately show ?thesis unfolding refuse_failed_def
    by (intro same.keeps_if same.keeps_ret same.keeps_bind same.keeps_for_each same.keeps_throw
        holdings_prints holdings_on_cache)
qed

lemma refuse_failed_Inr: "refuse_failed D m bad x = (Inr (), y) \<Longrightarrow> bad = []"
  by (auto simp: refuse_failed_def elim!: bind_eff_InrE split: if_splits)

lemma verify_local_dry:
  assumes "verify_local T st m False x = (r, y)"
  shows "holdings y = holdings x
     \<and> (r = Inr () \<longrightarrow> (\<forall>a \<in> set m. valid_key (key a) \<longrightarrow>
          (\<exists>p e. served_by (the_crates T) a (m_cache x) p e)))"
  using assms unfolding verify_local_plain
proof (cases rule: bind_eff_cases)
  case (stop e)
  with sameD [OF holdings_builder stop(1)] show ?thesis by simp
next
  case (go b x1)
  note x1 = sameD [OF holdings_builder go(1)]
  from go(2) show ?thesis
  proof (cases rule: bind_eff_cases)
    case (stop e)
    with x1 sameD [OF holdings_build stop(1)] show ?thesis by simp
  next
    case (go rd x2)
    obtain root ds where rd: "rd = (root, ds)" by (cases rd)
    from open_store_Inr [OF go(1) [unfolded rd]] have off: "offline ds" by (simp add: with_offline_def)
    have x2: "holdings x2 = holdings x" using x1 sameD [OF holdings_build go(1)] by simp
    have served: "served_by D a (m_cache x2) p e = served_by D a (m_cache x) p e" for D a p e
      using x2 by (intro file_at_served) (simp add: holdings_def)
    from go(2) rd have "bind_eff (verify_each (the_crates T) ds m) (refuse_failed (the_crates T) m) x2 = (r, y)"
      by simp
    then show ?thesis
    proof (cases rule: bind_eff_cases)
      case (stop e)
      from verify_each_offline [OF off stop(1)] show ?thesis by simp
    next
      case (go bad x3)
      note v = verify_each_offline [OF off go(1)] and h = sameD [OF refuse_failed_holdings go(2)]
      show ?thesis
      proof (cases "r = Inr ()")
        case True
        with refuse_failed_Inr go(2) have "bad = []" by blast
        with v h x2 served show ?thesis by simp
      next
        case False
        with v h x2 show ?thesis by simp
      qed
    qed
  qed
qed

section \<open>Stores for filling\<close>

lemma upstream_store_Inr:
  assumes "upstream_store T st x = (Inr (root, ds), y)"
  shows "ds_mirror ds = None \<and> allow_upstream ds \<and> \<not> offline ds"
proof -
  from assms obtain b x1 where
    "open_store T (with_offline False (with_allow_upstream True (without_mirror b))) x1 = (Inr (root, ds), y)"
    unfolding upstream_store_def by (auto elim!: bind_eff_InrE)
  from open_store_Inr [OF this] show ?thesis
    by (simp add: with_offline_def with_allow_upstream_def without_mirror_def)
qed

end
