(* ===== verification/Command_Line_Properties.thy ===== *)
theory Command_Line_Properties
  imports Command_Line_Checks Manifest_Properties
begin

text \<open>The properties of the commands.\<close>

definition manifest_at :: "'s tools \<Rightarrow> string \<Rightarrow> 's machine \<Rightarrow> datastore_error + manifest" where
  "manifest_at T p x = from_path (the_crates T) (the_toml T) p
     (case map_of (m_files x) p of None \<Rightarrow> Inl not_found_error | Some c \<Rightarrow> ok_or invalid_utf8 (from_utf8 c))"

lemma outside_load: "keeps (same outside) (load_manifest T p)"
  unfolding load_manifest_def
  by (intro same.keeps_bind outside_io_call) (simp add: keeps_def same_def)

section \<open>Properties\<close>

text \<open>C27: whatever fails on the way, \<open>mirror\<close> changes no object the bucket has, and the manifest's file
  is either as it was or the text of the manifest with digests pinned that the bucket holds objects
  for under their keys; when it succeeds every artifact is licensed and pinned so.\<close>

theorem mirror_pins_what_the_bucket_holds:
  assumes "service_ok (client M) V" "mirror_manifest T st p M x = (r, y)"
  shows "objects_of V (m_bucket x) \<subseteq>\<^sub>m objects_of V (m_bucket y)
     \<and> (map_of (m_files y) = map_of (m_files x) \<and> (r = Inr () \<longrightarrow> manifest_at T p x = Inr [])
        \<or> (\<exists>m ps m' text. manifest_at T p x = Inr m \<and> pins m ps = Inr m'
             \<and> to_toml_string (the_crates T) (the_toml T) m' = Inr text
             \<and> map_of (m_files y) = (map_of (m_files x))(p \<mapsto> as_bytes text)
             \<and> (\<forall>(k, d) \<in> set ps. demands m' k d
                  \<and> (\<exists>ob. objects_of V (m_bucket y) (bucket M, object_name M k) = Some ob
                       \<and> map_of (ob_metadata ob) ''sha256'' = Some d))
             \<and> (r = Inr () \<longrightarrow> map fst ps = map key m \<and> (\<forall>a \<in> set m. licensed a))))"
proof -
  have quiet: ?thesis if "outside y = outside x" "r = Inl e" for e
    using that by (simp add: outside_def)
  from assms(2) show ?thesis unfolding mirror_manifest_def
  proof (rule quiet_bind [OF _ outside_io_call])
    fix u x1 assume x1: "outside x1 = outside x"
      and "bind_eff io_call (\<lambda>_. bind_eff (load_manifest T p) (\<lambda>m.
        bind_eff (upstream_store T st) (\<lambda>(_, ds). mirror_each T p M ds m m))) x1 = (r, y)"
    from this(2) show ?thesis
    proof (rule quiet_bind [OF _ outside_io_call])
      fix u x2 assume x2: "outside x2 = outside x1"
        and run: "bind_eff (load_manifest T p) (\<lambda>m.
          bind_eff (upstream_store T st) (\<lambda>(_, ds). mirror_each T p M ds m m)) x2 = (r, y)"
      from run show ?thesis
      proof (rule quiet_bind [OF _ outside_load])
        fix m x3 assume l: "load_manifest T p x2 = (Inr m, x3)" "outside x3 = outside x2"
          and "bind_eff (upstream_store T st) (\<lambda>(_, ds). mirror_each T p M ds m m) x3 = (r, y)"
        from load_manifest_Inr [OF l(1)] x1 x2 have m: "manifest_at T p x = Inr m"
          by (auto simp: manifest_at_def outside_def)
        from \<open>bind_eff (upstream_store T st) _ x3 = (r, y)\<close> show ?thesis
        proof (rule quiet_bind [OF _ outside_upstream])
          fix rd x4 assume x4: "outside x4 = outside x3" and
            "(case rd of (root, ds) \<Rightarrow> mirror_each T p M ds m m) x4 = (r, y)"
          then have "\<exists>ds. mirror_each T p M ds m m x4 = (r, y)" by (cases rd) auto
          then have "progress T V M p m m r x4 y" using mirror_each_progress [OF assms(1)] by blast
          then have "progress T V M p m m r x y" by (rule progress_mono [rotated]) (simp add: x1 x2 x4 l)
          then show ?thesis using m pins_demands unfolding progress_def by (fastforce split: if_splits)
        qed (rule quiet, simp add: x1 x2 l, assumption)
      qed (rule quiet, simp add: x1 x2, assumption)
    qed (rule quiet, simp add: x1, assumption)
  qed (rule quiet)
qed

text \<open>C28: \<open>verify --at\<close> without \<open>--repair\<close> leaves the bucket as it is, and it succeeds only if the
  bucket holds, for every artifact of the manifest, an object whose content is admissible for the
  artifact and hashes to the digest in its metadata.\<close>

theorem bucket_verification_is_truthful:
  assumes "service_ok (client M) V" "verify_s3 T st m M False x = (r, y)"
  shows "objects_of V (m_bucket y) = objects_of V (m_bucket x)
     \<and> (r = Inr () \<longrightarrow> (\<forall>a \<in> set m. \<exists>ob.
          objects_of V (m_bucket x) (bucket M, object_name M (key a)) = Some ob
          \<and> admissible (the_crates T) a (ob_content ob)
          \<and> map_of (ob_metadata ob) ''sha256'' = Some (sha256 (the_crates T) (ob_content ob))))"
proof -
  have quiet: ?thesis if "outside y = outside x" "r = Inl e" for e
    using that by (simp add: outside_def)
  let ?tail = "bind_eff (verify_objects (the_crates T) M None m) (\<lambda>bad.
      if 0 < bad then throw (Mirror (''verification failed for '' @ decimal bad @ '' artifacts'')) else ret ())"
  from assms(2) have "bind_eff (settings_builder T st) (\<lambda>b.
      bind_eff (open_store T (with_offline True (without_mirror b))) (\<lambda>_. ?tail)) x = (r, y)"
    by (simp add: verify_s3_def bind_eff_ret)
  then show ?thesis
  proof (rule quiet_bind [OF _ outside_builder])
    fix b x1 assume x1: "outside x1 = outside x"
      and "bind_eff (open_store T (with_offline True (without_mirror b))) (\<lambda>_. ?tail) x1 = (r, y)"
    from this(2) show ?thesis
    proof (rule quiet_bind [OF _ outside_open_store])
      fix v x2 assume x2: "outside x2 = outside x1" and "?tail x2 = (r, y)"
      from this(2) obtain q where q: "verify_objects (the_crates T) M None m x2 = (q, y)"
        "r = Inr () \<longrightarrow> q = Inr 0"
        by (auto elim!: bind_eff_cases split: if_splits)
      from verify_objects_service [OF assms(1) q(1)] q(2) x1 x2 show ?thesis by (auto simp: outside_def)
    qed (rule quiet, simp add: x1, assumption)
  qed (rule quiet)
qed


text \<open>What \<open>serve\<close> has done when it serves.\<close>

definition served_address :: "settings \<Rightarrow> socket_addr option \<Rightarrow> socket_addr" where
  "served_address st bind_addr =
     (case or_else bind_addr (sv_bind (set_profile st)) of
        Some a \<Rightarrow> a | None \<Rightarrow> \<lparr>ip = Ipv4 [127, 0, 0, 1], tcp_port = 8080\<rparr>)"

lemma serve_command_Inr:
  assumes "run_command T st (Serve flag target region bind_addr) x = (Inr (Serving S c), y)"
  obtains p m x1 root ds x2 M w where "settings_manifest st flag = Inr p" "load_manifest T p x = (Inr m, x1)"
    "upstream_store T st x1 = (Inr (root, ds), x2)"
    "serve (the_crates T) m ds M (served_address st bind_addr) (sv_cache (set_profile st)) (m_cache x2)
      = (Inr (S, c), w)" "y = x2\<lparr>m_cache := w\<rparr>"
proof -
  let ?serve = "\<lambda>m ds M. bind_eff (on_cache (serve (the_crates T) m ds M (served_address st bind_addr)
      (sv_cache (set_profile st)))) (\<lambda>(service, keeper). ret (Serving service keeper))"
  let ?target = "of_sum (bind_sum (settings_bucket st target) (\<lambda>target.
      s3_target T target (settings_region T st region)))"
  from assms have "bind_eff (of_sum (settings_manifest st flag)) (\<lambda>p. bind_eff (load_manifest T p) (\<lambda>m.
      bind_eff (upstream_store T st) (\<lambda>(_, ds). bind_eff ?target (?serve m ds)))) x = (Inr (Serving S c), y)"
    by (simp only: run_command_def Let_def command.case served_address_def)
  then obtain p m x1 rd x2 where
    p: "settings_manifest st flag = Inr p" and m: "load_manifest T p x = (Inr m, x1)"
    and rd: "upstream_store T st x1 = (Inr rd, x2)"
    and rest: "(case rd of (_, ds) \<Rightarrow> bind_eff ?target (?serve m ds)) x2 = (Inr (Serving S c), y)"
    by (elim bind_eff_InrE) (simp add: of_sum_def)
  obtain root ds where eq: "rd = (root, ds)" by (cases rd)
  from rest obtain M where "?serve m ds M x2 = (Inr (Serving S c), y)"
    unfolding eq prod.case by (elim bind_eff_InrE [where m = "of_sum _"]) (simp add: of_sum_def)
  then obtain w where
    "serve (the_crates T) m ds M (served_address st bind_addr) (sv_cache (set_profile st)) (m_cache x2)
      = (Inr (S, c), w)" "y = x2\<lparr>m_cache := w\<rparr>"
    by (elim bind_eff_InrE) (auto elim: on_cacheE)
  from that [OF p m rd [unfolded eq] this] show thesis .
qed

lemma serve_Inr:
  assumes "serve D m ds M a policy w = (Inr (S, c), w')"
  shows "private_bind (ip a) \<and> srv_manifest S = m \<and> srv_store S = ds \<and> c = coordinator_default
     \<and> (\<forall>p. srv_policy S = Some p \<longrightarrow> evict_on_fetch p \<and> policy = Some p)"
  using assms unfolding serve_def Let_def
  by (cases policy)
     (auto simp: coordinator_new_def elim!: bind_eff_InrE split: if_splits option.splits)

text \<open>C30: a server started by \<open>serve\<close> listens on a private address, fills from a store that reads no
  mirror and may go upstream, redistributes the manifest that was read, evicts only if the policy of
  its service says so, and has not touched the bucket.\<close>

theorem serve_starts_safely:
  assumes "run_command T st (Serve flag target region bind_addr) x = (Inr (Serving S c), y)"
  shows "(\<exists>a. private_bind (ip a) \<and> (bind_addr = Some a
            \<or> bind_addr = None \<and> (sv_bind (set_profile st) = Some a
                 \<or> sv_bind (set_profile st) = None \<and> a = \<lparr>ip = Ipv4 [127, 0, 0, 1], tcp_port = 8080\<rparr>)))
     \<and> ds_mirror (srv_store S) = None \<and> allow_upstream (srv_store S) \<and> \<not> offline (srv_store S)
     \<and> (\<exists>p. settings_manifest st flag = Inr p \<and> manifest_at T p x = Inr (srv_manifest S))
     \<and> (\<forall>p. srv_policy S = Some p \<longrightarrow> evict_on_fetch p \<and> sv_cache (set_profile st) = Some p)
     \<and> c = coordinator_default \<and> m_bucket y = m_bucket x \<and> m_files y = m_files x"
proof -
  from serve_command_Inr [OF assms] obtain p m x1 root ds x2 M w where
    p: "settings_manifest st flag = Inr p" and m: "load_manifest T p x = (Inr m, x1)"
    and ds: "upstream_store T st x1 = (Inr (root, ds), x2)"
    and s: "serve (the_crates T) m ds M (served_address st bind_addr) (sv_cache (set_profile st)) (m_cache x2)
      = (Inr (S, c), w)" and y: "y = x2\<lparr>m_cache := w\<rparr>" .
  note serving = serve_Inr [OF s]
  have "ds_mirror (srv_store S) = None \<and> allow_upstream (srv_store S) \<and> \<not> offline (srv_store S)"
    using upstream_store_Inr [OF ds] serving by simp
  moreover have "\<exists>p. settings_manifest st flag = Inr p \<and> manifest_at T p x = Inr (srv_manifest S)"
    using p load_manifest_Inr [OF m] serving by (auto simp: manifest_at_def)
  moreover have "m_bucket y = m_bucket x \<and> m_files y = m_files x"
    using y load_manifest_Inr [OF m] outsideD [OF outside_upstream ds] by auto
  moreover have "\<exists>a. private_bind (ip a) \<and> (bind_addr = Some a
            \<or> bind_addr = None \<and> (sv_bind (set_profile st) = Some a
                 \<or> sv_bind (set_profile st) = None \<and> a = \<lparr>ip = Ipv4 [127, 0, 0, 1], tcp_port = 8080\<rparr>))"
    using serving by (intro exI [of _ "served_address st bind_addr"])
      (auto simp: served_address_def or_else_def split: option.splits)
  ultimately show ?thesis using serving by blast
qed

section \<open>The example\<close>

definition demo_pinless :: manifest_entry where
  "demo_pinless = demo_entry\<lparr>me_sources := [Url ''https://s/k''], me_sha256 := None, me_bytes := None,
     me_check := Some (T_table [(''min_bytes'', T_integer 2)])\<rparr>"

definition demo_tools :: "memory tools" where
  "demo_tools = \<lparr>the_crates = demo\<lparr>url_parse := (\<lambda>raw. case strip_prefix ''s3://'' raw of
       Some r \<Rightarrow> Inr (demo_url raw ''s3'' r) | None \<Rightarrow> demo_url_parse raw)\<rparr>,
     the_toml = demo_toml, the_surroundings = demo_surroundings, the_connect = (\<lambda>_. Inr memory_client)\<rparr>"

definition demo_settings :: settings where
  "demo_settings = \<lparr>set_config = demo_config\<lparr>cfg_cache_dir := Some ''/home/u/.config/starfield/cache''\<rparr>,
     set_service = None, set_profile = service_config_default\<rparr>"

definition demo_machine :: "memory machine" where
  "demo_machine = \<lparr>m_cache = demo_world, m_bucket = memory_empty,
     m_files = [(''m'', as_bytes (put_seq put_entry [demo_pinless]))], m_out = [], m_err = []\<rparr>"

definition demo_listed :: manifest where
  "demo_listed =
     [\<lparr>key = ArtifactKey ''k'', sources = [source_new ''https://s/k''], art_check = MinBytes 2,
       art_freshness = Immutable,
       art_provenance = \<lparr>description = ''d'', license = ''l'', citation = None\<rparr>, expected_bytes = None\<rparr>]"

lemma demo_listed: "manifest_at demo_tools ''m'' demo_machine = Inr demo_listed"
proof -
  have "list_all (entry_ok 72) [demo_pinless]" by code_simp
  with demo_toml_ok have t: "toml_from_str demo_toml (put_seq put_entry [demo_pinless]) = Inr [demo_pinless]"
    by (auto simp: toml_ok_def demo_toml_def)
  have v: "artifact_key_new ''k'' = Inr (ArtifactKey ''k'')" "validate_url (the_crates demo_tools) ''https://s/k'' = Inr ()"
    "immutable = ''immutable''" by code_simp+
  have c: "parse_check (T_table [(''min_bytes'', T_integer 2)]) 0 = Inr (MinBytes 2)"
    by (simp add: parse_check.simps parse_variant_def)
  have r: "read_entries (the_crates demo_tools) {} [demo_pinless] = Inr demo_listed"
    using v c by (simp add: read_manifest_entry_def demo_pinless_def demo_entry_def demo_listed_def source_new_def)
  have u: "from_utf8 (as_bytes (put_seq put_entry [demo_pinless])) = Some (put_seq put_entry [demo_pinless])"
    by code_simp
  show ?thesis
    using t r u by (simp add: manifest_at_def from_path_def from_toml_str_def demo_machine_def demo_tools_def)
qed

definition demo_warnings :: "string list" where
  "demo_warnings = [''warning: credential '' @ in_quotes ''f'' @ '' has unrecognised type '' @ in_quotes ''vault''
     @ '' and is skipped; its hosts get no credential from this entry'']"

definition ready_machine :: "memory machine" where
  "ready_machine = demo_machine\<lparr>m_cache := snd (ensure (next_step (next_step (next_step demo_world)))),
     m_err := demo_warnings\<rparr>"

lemma demo_mirrored:
  "is_ok (fst (mirror_each demo_tools ''m'' memory_mirror demo_upstream_store demo_listed demo_listed ready_machine))"
  by code_simp

lemma for_each_complain: "for_each complain ws x = (Inr (), x\<lparr>m_err := m_err x @ ws\<rparr>)"
  by (induction ws arbitrary: x) (simp_all add: complain_bind)

lemma demo_settings_builder:
  obtains b p where "settings_builder demo_tools demo_settings x = (Inr b, x\<lparr>m_err := m_err x @ demo_warnings\<rparr>)"
    "b_credentials b = Some p" "\<And>h. credential_for p h = Inr None" "b_max_bytes b = None"
    "b_cache_root b = Some ''/home/u/.config/starfield/cache''"
proof (rule demo_builder)
  let ?cfg = "demo_config\<lparr>cfg_cache_dir := Some ''/home/u/.config/starfield/cache''\<rparr>"
  fix b ws p assume a: "apply_file demo_surroundings builder_default ?cfg = Inr (b, ws)"
    and b: "b_credentials b = Some p" "\<And>h. credential_for p h = Inr None" "b_max_bytes b = None"
      "b_cache_root b = Some ''/home/u/.config/starfield/cache''"
  have "validate_config ?cfg = Inr ()" by code_simp
  with a have c: "config_builder demo_surroundings ?cfg = Inr (b, ws)" by (simp add: config_builder_def)
  have "(case config_builder demo_surroundings ?cfg of Inr (b, ws) \<Rightarrow> ws | Inl _ \<Rightarrow> []) = demo_warnings"
    by code_simp
  with c have "ws = demo_warnings" by simp
  with c have "settings_builder demo_tools demo_settings x = (Inr b, x\<lparr>m_err := m_err x @ demo_warnings\<rparr>)"
    by (simp add: settings_builder_def demo_tools_def demo_settings_def bind_eff_of_sum)
      (simp add: bind_eff_def for_each_complain)
  then show thesis using b by (rule that)
qed

lemma demo_ensured:
  "is_ok (fst (ensure (next_step demo_world)))"
  "is_ok (fst (ensure (next_step (next_step (next_step demo_world)))))"
  by code_simp+

lemma mirror_each_silent:
  assumes "\<And>h. credential_for p h = Inr None"
  shows "mirror_each T q M (demo_upstream_store\<lparr>ds_provider := Some p\<rparr>) as m
    = mirror_each T q M demo_upstream_store as m"
proof -
  have "get_with_outcome D (demo_upstream_store\<lparr>ds_provider := Some p\<rparr>) a
      = get_with_outcome D demo_upstream_store a" for D a
    using get_silent [OF assms, where ds = demo_upstream_store and D = D and a = a]
    by (simp add: demo_upstream_store_def)
  then have "get D (demo_upstream_store\<lparr>ds_provider := Some p\<rparr>) a = get D demo_upstream_store a" for D a
    by (simp add: get_def)
  then show ?thesis by (induction "as" arbitrary: m) (simp_all cong: if_cong)
qed

lemma io_call_runs:
  "fault (m_cache x) = (\<lambda>_. None) \<Longrightarrow> bind_eff io_call f x = f () (x\<lparr>m_cache := next_step (m_cache x)\<rparr>)"
  by (simp add: io_call_def on_cache_def map_err_def syscall_def bind_eff_def)

lemma demo_upstream:
  assumes "m_cache x = next_step demo_world \<or> m_cache x = next_step (next_step (next_step demo_world))"
  obtains p where "\<And>h. credential_for p h = Inr None"
    "upstream_store demo_tools demo_settings x = (Inr (''/home/u/.config/starfield/cache'',
       demo_upstream_store\<lparr>ds_provider := Some p\<rparr>),
       x\<lparr>m_cache := snd (ensure (m_cache x)), m_err := m_err x @ demo_warnings\<rparr>)"
proof (rule demo_settings_builder)
  fix b p assume s: "settings_builder demo_tools demo_settings x = (Inr b, x\<lparr>m_err := m_err x @ demo_warnings\<rparr>)"
    and b: "b_credentials b = Some p" "\<And>h. credential_for p h = Inr None" "b_max_bytes b = None"
      "b_cache_root b = Some ''/home/u/.config/starfield/cache''"
  have "open_store demo_tools (with_offline False (with_allow_upstream True (without_mirror b)))
      (x\<lparr>m_err := m_err x @ demo_warnings\<rparr>) = (Inr (''/home/u/.config/starfield/cache'',
       demo_upstream_store\<lparr>ds_provider := Some p\<rparr>),
       x\<lparr>m_cache := snd (ensure (m_cache x)), m_err := m_err x @ demo_warnings\<rparr>)"
    using demo_ensured b assms
    by (cases "ensure (m_cache x)")
      (auto simp: open_store_def on_cache_def build_def bind_eff_def is_ok_iff demo_tools_def
        demo_surroundings_def demo_upstream_store_def with_offline_def with_allow_upstream_def without_mirror_def)
  with s have "upstream_store demo_tools demo_settings x = (Inr (''/home/u/.config/starfield/cache'',
       demo_upstream_store\<lparr>ds_provider := Some p\<rparr>),
       x\<lparr>m_cache := snd (ensure (m_cache x)), m_err := m_err x @ demo_warnings\<rparr>)"
    by (simp add: upstream_store_def bind_eff_def)
  with b(2) show thesis by (rule that)
qed

lemma demo_load:
  "m_files x = m_files demo_machine \<Longrightarrow> fault (m_cache x) = (\<lambda>_. None) \<Longrightarrow>
   load_manifest demo_tools ''m'' x = (Inr demo_listed, x\<lparr>m_cache := next_step (m_cache x)\<rparr>)"
  using demo_listed by (simp add: load_manifest_def io_call_runs manifest_at_def)

lemma demo_mirror_run:
  obtains y where "mirror_manifest demo_tools demo_settings ''m'' memory_mirror demo_machine = (Inr (), y)"
proof -
  have f: "fault (next_step w) = fault w" "fault demo_world = (\<lambda>_. None)" for w
    by (simp_all add: next_step_def demo_world_def)
  define x where "x = demo_machine\<lparr>m_cache := next_step (next_step (next_step demo_world))\<rparr>"
  have xm: "m_cache x = next_step demo_world \<or> m_cache x = next_step (next_step (next_step demo_world))"
    by (simp add: x_def)
  obtain p where p: "\<And>h. credential_for p h = Inr None"
    "upstream_store demo_tools demo_settings x = (Inr (''/home/u/.config/starfield/cache'',
       demo_upstream_store\<lparr>ds_provider := Some p\<rparr>),
       x\<lparr>m_cache := snd (ensure (m_cache x)), m_err := m_err x @ demo_warnings\<rparr>)"
    by (rule demo_upstream [OF xm]) (rule that)
  have r: "x\<lparr>m_cache := snd (ensure (m_cache x)), m_err := m_err x @ demo_warnings\<rparr> = ready_machine"
    by (simp add: x_def ready_machine_def demo_machine_def)
  have c: "m_cache demo_machine = demo_world" by (simp add: demo_machine_def)
  have "mirror_manifest demo_tools demo_settings ''m'' memory_mirror demo_machine
      = bind_eff (upstream_store demo_tools demo_settings) (\<lambda>(_, ds).
          mirror_each demo_tools ''m'' memory_mirror ds demo_listed demo_listed) x"
    by (simp add: mirror_manifest_def io_call_runs f c bind_eff_def [of "load_manifest _ _"] demo_load x_def)
  also have "\<dots> = mirror_each demo_tools ''m'' memory_mirror demo_upstream_store demo_listed demo_listed ready_machine"
    using p(2) r by (simp add: bind_eff_def mirror_each_silent [OF p(1)])
  finally show thesis using demo_mirrored that
    by (cases "mirror_each demo_tools ''m'' memory_mirror demo_upstream_store demo_listed demo_listed ready_machine")
      (auto simp: is_ok_iff)
qed

lemma mirror_pins_what_the_bucket_holds_witness:
  "\<exists>y m' d ob. map_of (mem_objects (m_bucket y)) (''b'', ''p/k'') = Some ob
     \<and> map_of (ob_metadata ob) ''sha256'' = Some d \<and> demands m' (ArtifactKey ''k'') d
     \<and> mirror_manifest demo_tools demo_settings ''m'' memory_mirror demo_machine = (Inr (), y)"
proof (rule demo_mirror_run)
  fix y assume y: "mirror_manifest demo_tools demo_settings ''m'' memory_mirror demo_machine = (Inr (), y)"
  have loc: "(bucket memory_mirror, object_name memory_mirror (ArtifactKey ''k'')) = (''b'', ''p/k'')"
    by code_simp
  have ne: "manifest_at demo_tools ''m'' demo_machine \<noteq> Inr []"
    unfolding demo_listed by (simp add: demo_listed_def)
  have eq: "m = demo_listed" if "manifest_at demo_tools ''m'' demo_machine = Inr m" for m
    using that demo_listed by simp
  from mirror_pins_what_the_bucket_holds [OF memory_mirror_ok y] ne
  obtain m ps m' where m: "manifest_at demo_tools ''m'' demo_machine = Inr m" "map fst ps = map key m"
    and held: "\<forall>(k, d) \<in> set ps. demands m' k d
      \<and> (\<exists>ob. objects_of memory_view (m_bucket y) (bucket memory_mirror, object_name memory_mirror k) = Some ob
           \<and> map_of (ob_metadata ob) ''sha256'' = Some d)"
    by blast
  from m(2) eq [OF m(1)] have "map fst ps = [ArtifactKey ''k'']" by (simp add: demo_listed_def)
  then obtain d where "ps = [(ArtifactKey ''k'', d)]" by (auto simp: map_eq_Cons_conv)
  with held y loc show ?thesis by (auto simp: memory_view_def)
qed

text \<open>A bucket that holds what the manifest asks for.\<close>

definition filled_machine :: "memory machine" where
  "filled_machine = demo_machine\<lparr>m_bucket := memory_empty\<lparr>mem_objects := [((''b'', ''p/k''),
     \<lparr>ob_content = [1, 2, 3], ob_metadata = [(''sha256'', demo_sha [1, 2, 3]), (''bytes'', ''3'')],
      ob_etag = ''e''\<rparr>)]\<rparr>\<rparr>"

lemma demo_verified:
  "fst (verify_objects (the_crates demo_tools) memory_mirror None demo_listed
     (filled_machine\<lparr>m_cache := snd (ensure demo_world), m_err := demo_warnings\<rparr>)) = Inr 0"
  by code_simp

lemma demo_verify_run:
  obtains y where "verify_s3 demo_tools demo_settings demo_listed memory_mirror False filled_machine = (Inr (), y)"
proof (rule demo_settings_builder [of filled_machine])
  fix b p assume s: "settings_builder demo_tools demo_settings filled_machine
      = (Inr b, filled_machine\<lparr>m_err := m_err filled_machine @ demo_warnings\<rparr>)"
    and b: "b_max_bytes b = None" "b_cache_root b = Some ''/home/u/.config/starfield/cache''"
  have f: "m_err filled_machine = []" "m_cache filled_machine = demo_world"
    by (simp_all add: filled_machine_def demo_machine_def)
  obtain v where o: "open_store demo_tools (with_offline True (without_mirror b)) (filled_machine\<lparr>m_err := demo_warnings\<rparr>)
      = (Inr v, filled_machine\<lparr>m_cache := snd (ensure demo_world), m_err := demo_warnings\<rparr>)"
    using demo_from_env(2) b f
    by (cases "ensure demo_world")
      (auto simp: open_store_def on_cache_def build_def bind_eff_def is_ok_iff demo_tools_def
        demo_surroundings_def with_offline_def without_mirror_def)
  obtain y where v: "verify_objects (the_crates demo_tools) memory_mirror None demo_listed
      (filled_machine\<lparr>m_cache := snd (ensure demo_world), m_err := demo_warnings\<rparr>) = (Inr 0, y)"
    using demo_verified by (metis prod.collapse)
  have "verify_s3 demo_tools demo_settings demo_listed memory_mirror False filled_machine = (Inr (), y)"
    using s f by (simp add: verify_s3_def bind_eff_ret bind_eff_def o v)
  then show thesis by (rule that)
qed

lemma bucket_verification_is_truthful_witness:
  "\<exists>ob. map_of (mem_objects (m_bucket filled_machine)) (''b'', ''p/k'') = Some ob
     \<and> admissible (the_crates demo_tools) (hd demo_listed) (ob_content ob)"
proof (rule demo_verify_run)
  fix y assume y: "verify_s3 demo_tools demo_settings demo_listed memory_mirror False filled_machine = (Inr (), y)"
  have loc: "(bucket memory_mirror, object_name memory_mirror (ArtifactKey ''k'')) = (''b'', ''p/k'')"
    by code_simp
  from bucket_verification_is_truthful [OF memory_mirror_ok y] loc show ?thesis
    by (auto simp: demo_listed_def memory_view_def)
qed


lemma serve_starts_safely_witness:
  "\<exists>S c y. run_command demo_tools demo_settings (Serve (Some ''m'') (Some ''s3://b/p'') (Some ''r'') None) demo_machine
     = (Inr (Serving S c), y) \<and> ds_mirror (srv_store S) = None \<and> \<not> offline (srv_store S)"
proof -
  have f: "fault (next_step w) = fault w" "fault demo_world = (\<lambda>_. None)" for w
    by (simp_all add: next_step_def demo_world_def)
  have l: "load_manifest demo_tools ''m'' demo_machine
      = (Inr demo_listed, demo_machine\<lparr>m_cache := next_step demo_world\<rparr>)"
    using demo_load [of demo_machine] by (simp add: demo_machine_def f)
  obtain root ds x where u: "upstream_store demo_tools demo_settings (demo_machine\<lparr>m_cache := next_step demo_world\<rparr>)
      = (Inr (root, ds), x)"
    by (rule demo_upstream [of "demo_machine\<lparr>m_cache := next_step demo_world\<rparr>"]) (simp, rule that)
  have t: "is_ok (s3_target demo_tools ''s3://b/p'' (Some ''r''))" by code_simp
  then obtain M where M: "s3_target demo_tools ''s3://b/p'' (Some ''r'') = Inr M" by (auto simp: is_ok_iff)
  have b: "private_bind (Ipv4 [127, 0, 0, 1])" by code_simp
  obtain S x' where s: "on_cache (serve (the_crates demo_tools) demo_listed ds M
      \<lparr>ip = Ipv4 [127, 0, 0, 1], tcp_port = 8080\<rparr> None) x = (Inr (S, coordinator_default), x')"
    using b by (auto simp: on_cache_def serve_def Let_def)
  have settled: "settings_manifest demo_settings (Some ''m'') = Inr ''m''"
    "settings_bucket demo_settings (Some ''s3://b/p'') = Inr ''s3://b/p''"
    "settings_region demo_tools demo_settings (Some ''r'') = Some ''r''"
    "sv_bind (set_profile demo_settings) = None" "sv_cache (set_profile demo_settings) = None"
    by (simp_all add: settings_manifest_def settings_bucket_def settings_region_def or_else_def
        demo_settings_def service_config_default_def)
  have run: "run_command demo_tools demo_settings
      (Serve (Some ''m'') (Some ''s3://b/p'') (Some ''r'') None) demo_machine = (Inr (Serving S coordinator_default), x')"
    by (simp add: run_command_def Let_def settled or_else_def M bind_eff_of_sum) (simp add: bind_eff_def l u M s)
  from serve_starts_safely [OF run] run show ?thesis by blast
qed

end
