(* ===== verification/Conformance_Store.thy ===== *)
theory Conformance_Store
  imports Example
begin

text \<open>
  The unit tests of \<open>artifact.rs\<close>, \<open>check.rs\<close>, \<open>store/layout.rs\<close>, \<open>store/mod.rs\<close> and \<open>fetch.rs\<close>, run on
  the model: each test is a boolean with the assertions of the source in their order, and the lemma
  below it evaluates it.  A \<open>tempdir\<close> is the empty cache directory \<open>demo_world\<close>; \<open>unwrap\<close> of an error
  makes a test false.  Assertions about \<open>Debug\<close> output are left out.
\<close>

definition same_result :: "('e + 'a) \<Rightarrow> 'a \<Rightarrow> bool" where
  "same_result r x = (case r of Inr y \<Rightarrow> y = x | Inl _ \<Rightarrow> False)"

definition rejected_with :: "('e \<Rightarrow> bool) \<Rightarrow> ('e + 'a) \<Rightarrow> bool" where
  "rejected_with P r = (case r of Inl e \<Rightarrow> P e | Inr _ \<Rightarrow> False)"

text \<open>Backquotes stand for double quotes.\<close>

definition dq :: "string \<Rightarrow> string" where
  "dq = map (\<lambda>c. if c = CHR 0x60 then CHR 0x22 else c)"

text \<open>Evaluation decodes each sequence once.\<close>

lemma utf8_code [code]:
  "utf8_lossy [] = []"
  "utf8_lossy (b # bs) =
     (if b < 0x80 then unat b # utf8_lossy bs
      else case utf8_step b bs of (c, r) \<Rightarrow> (case c of None \<Rightarrow> 0xFFFD | Some c \<Rightarrow> c) # utf8_lossy r)"
  "utf8_valid [] = True"
  "utf8_valid (b # bs) =
     (if b < 0x80 then utf8_valid bs
      else case utf8_step b bs of (c, r) \<Rightarrow> c \<noteq> None \<and> utf8_valid r)"
  by (simp_all add: utf8_step_ascii split_beta)

section \<open>Keys\<close>

definition unsafe_keys :: "string list" where
  "unsafe_keys =
     ['''', ''/a'', ''a/'', ''a//b'', ''a/../b'', ''./a'', ''a'' @ [CHR 0x5C] @ ''b'', ''a?token=secret'',
      ''https://host/file'', ''a%2fb'', ''a'' @ [CHR 0x0A]]"

definition keys_cannot_escape_the_index_or_encode_credentials :: bool where
  "keys_cannot_escape_the_index_or_encode_credentials \<longleftrightarrow>
     list_all (\<lambda>k. \<not> is_ok (artifact_key_new k)) unsafe_keys
     \<and> (case artifact_key_new ''naif/spk/de440.bsp'' of
          Inl _ \<Rightarrow> False
        | Inr k \<Rightarrow> mirror_path k ''/mirror/'' = ''mirror/naif/spk/de440.bsp'' \<and> mirror_path k '''' = as_str k)"

lemma keys_cannot_escape_the_index_or_encode_credentials_holds:
  "keys_cannot_escape_the_index_or_encode_credentials"
  by code_simp

section \<open>Checks\<close>

definition default_rejects_html_and_short_bodies :: bool where
  "default_rejects_html_and_short_bodies \<longleftrightarrow>
     is_ok (check demo default_binary (replicate 1024 0))
     \<and> \<not> is_ok (check demo default_binary (as_bytes ''small''))
     \<and> \<not> is_ok (check demo default_binary
          (as_bytes ('' '' @ [CHR 0x0A] @ ''<html><form>'' @ replicate 2000 (CHR ''x''))))"

definition begins_with_one_two :: "bytes \<Rightarrow> string + unit" where
  "begins_with_one_two b = (if starts_with b [1, 2] then Inr () else Inl ''wrong prefix'')"

definition magic_trim_is_explicit_and_custom_captures :: bool where
  "magic_trim_is_explicit_and_custom_captures \<longleftrightarrow>
     is_ok (check demo (Magic [as_bytes ''ABC''] True) (as_bytes ([CHR 0x0A] @ '' ABC'')))
     \<and> \<not> is_ok (check demo (Magic [as_bytes ''ABC''] False) (as_bytes '' ABC''))
     \<and> is_ok (check demo (Custom begins_with_one_two) [1, 2, 3])"

definition prefix_checks_reject_wrong_kind_and_defer_incomplete_validation :: bool where
  "prefix_checks_reject_wrong_kind_and_defer_incomplete_validation \<longleftrightarrow>
     (let c = All_of [NotHtml, MinBytes 10000, Magic [as_bytes ''ABC''] True] in
      is_ok (check_prefix demo c (as_bytes ('' '' @ [CHR 0x0A] @ ''A'')))
      \<and> \<not> is_ok (check_prefix demo c (as_bytes ''XYZ''))
      \<and> \<not> is_ok (check_prefix demo c (as_bytes ''<html>login</html>''))
      \<and> is_ok (check_prefix demo c (as_bytes ''ABC''))
      \<and> \<not> is_ok (check demo c (as_bytes ''ABC'')))"

lemma zeros_contain_no_tag: "\<not> contains (replicate n 0) (60 # p :: nat list)"
  by (induction n) (simp_all add: starts_with_def)

lemma zeros_are_not_html: "\<not> looks_like_html (replicate n 0)"
proof -
  have "dropWhile P (replicate m (0 :: nat)) = replicate m 0" if "\<not> P 0" for P m
    using that by (cases m) simp_all
  then have "html_head (replicate n 0) = replicate (min n 8192) 0"
    by (simp add: html_head_def utf8_lossy_ascii list_all_iff lowercase_code_def is_whitespace_def
        min.commute)
  moreover have "\<not> starts_with (replicate m (0 :: nat)) (60 # p)" for m p
    by (cases m) (simp_all add: starts_with_def)
  ultimately show ?thesis
    using zeros_contain_no_tag by (simp add: looks_like_html_def ascii_def)
qed

lemma tagged_is_html:
  assumes "list_all (\<lambda>c. code c < 128) s" "length s < 8000"
  shows "looks_like_html (as_bytes ('' '' @ [CHR 0x0A] @ ''<html><form>'' @ s))" (is "looks_like_html ?b")
proof -
  have "take 8192 ?b = ?b" using assms(2) by simp
  moreover have "utf8_lossy ?b = ascii ('' '' @ [CHR 0x0A] @ ''<html><form>'' @ s)"
    using assms(1) by (simp add: chars_ascii flip: chars_def)
  ultimately have "starts_with (html_head ?b) (ascii ''<html'')"
    by (simp add: html_head_def ascii_def lowercase_code_def is_whitespace_def starts_with_def)
  then show ?thesis by (simp add: looks_like_html_def)
qed

lemma default_rejects_html_and_short_bodies_holds: "default_rejects_html_and_short_bodies"
proof -
  have "is_ok (check demo default_binary (replicate 1024 0))"
    by (simp add: check_iff default_binary_def zeros_are_not_html)
  moreover have "\<not> is_ok (check demo default_binary
      (as_bytes ('' '' @ [CHR 0x0A] @ ''<html><form>'' @ replicate 2000 (CHR ''x''))))"
    using tagged_is_html [of "replicate 2000 (CHR ''x'')"]
    by (simp add: check_iff default_binary_def list_all_iff del: replicate.simps append.simps)
  moreover have "\<not> is_ok (check demo default_binary (as_bytes ''small''))"
    by code_simp
  ultimately show ?thesis unfolding default_rejects_html_and_short_bodies_def by blast
qed

lemma magic_trim_is_explicit_and_custom_captures_holds: "magic_trim_is_explicit_and_custom_captures"
  by code_simp

lemma prefix_checks_reject_wrong_kind_and_defer_incomplete_validation_holds:
  "prefix_checks_reject_wrong_kind_and_defer_incomplete_validation"
  by code_simp

section \<open>Layout\<close>

definition digest_shape_is_strict :: bool where
  "digest_shape_is_strict \<longleftrightarrow>
     is_digest (replicate 64 (CHR ''a'')) \<and> \<not> is_digest (replicate 64 (CHR ''A''))
     \<and> \<not> is_digest (replicate 63 (CHR ''a'')) \<and> \<not> is_digest (''../'' @ replicate 61 (CHR ''a''))"

lemma digest_shape_is_strict_holds: "digest_shape_is_strict"
  by code_simp

text \<open>What \<open>serde_json\<close> makes of the two texts of the test: an entry, and an error.\<close>

definition bad_sidecar :: string where
  "bad_sidecar = dq (''{`digest`:`../x`,`bytes`:1,`fetched_at`:1,`source`:null,`etag`:null,''
     @ ''`provider_identity`:null,`layer`:`upstream`}'')"

definition sidecar_crates :: crates where
  "sidecar_crates = demo\<lparr>from_json := (\<lambda>text.
     if text = bad_sidecar
     then Inr \<lparr>digest = ''../x'', entry_bytes = 1, fetched_at = 1, entry_source = None,
               entry_etag = None, entry_identity = None, entry_layer = Upstream\<rparr>
     else Inl ''expected ident at line 1 column 2'')\<rparr>"

definition malformed_sidecars_are_errors_not_panics :: bool where
  "malformed_sidecars_are_errors_not_panics \<longleftrightarrow>
     (case artifact_key_new ''k'' of
        Inl _ \<Rightarrow> False
      | Inr k \<Rightarrow>
          (let read = (\<lambda>text. fst (read_entry sidecar_crates k
                         (set_node (index_path k) (File (as_bytes text)) demo_world))) in
           rejected_with (\<lambda>e. contains (show_error e) ''corrupt index sidecar'') (read bad_sidecar)
           \<and> \<not> is_ok (read ''not json'')))"

lemma malformed_sidecars_are_errors_not_panics_holds: "malformed_sidecars_are_errors_not_panics"
  by code_simp

section \<open>Limited transfers\<close>

definition plain_url :: "string \<Rightarrow> string \<Rightarrow> string \<Rightarrow> string \<Rightarrow> parsed_url" where
  "plain_url raw s h p =
     \<lparr>scheme = s, username = [], password = None, host = Some h, port = None, url_path = p,
      query = None, fragment = None, url_text = raw\<rparr>"

text \<open>
  The files of a test that stores files have one content each, so one digest and one entry are enough for an instance
  of the crates; \<open>local:import\<close> is a URL without a host.
\<close>

definition the_digest :: string where
  "the_digest = replicate 64 (CHR ''a'')"

definition the_entry :: "u64 \<Rightarrow> index_entry" where
  "the_entry n = \<lparr>digest = the_digest, entry_bytes = n, fetched_at = 7, entry_source = Some ''local:import'',
     entry_etag = None, entry_identity = None, entry_layer = LocalDisk\<rparr>"

definition test_crates :: "u64 \<Rightarrow> crates" where
  "test_crates n =
     \<lparr>sha256 = (\<lambda>_. the_digest),
      to_json = (\<lambda>e. if e = the_entry n then ''{}'' else ''?''),
      from_json = (\<lambda>text. if text = ''{}'' then Inr (the_entry n) else Inl ''expected ident''),
      url_parse = (\<lambda>raw.
        if raw = ''local:import''
        then Inr ((plain_url raw ''local'' [] ''import'')\<lparr>host := None\<rparr>)
        else Inr (plain_url raw ''https'' ''bucket.test'' ''/data'')),
      url_join = (\<lambda>_ _. Inl ''unused'')\<rparr>"

definition local_store :: "u64 option \<Rightarrow> datastore" where
  "local_store limit = \<lparr>ds_mirror = None, ds_provider = None, allow_upstream = False, offline = False,
     ds_max_bytes = limit\<rparr>"

fun is_transfer_limit :: "datastore_error \<Rightarrow> bool" where
  "is_transfer_limit TransferLimit = True"
| "is_transfer_limit _ = False"

definition cumulative_streaming_limit_covers_unknown_sizes_retries_and_wrapped_errors :: bool where
  "cumulative_streaming_limit_covers_unknown_sizes_retries_and_wrapped_errors \<longleftrightarrow>
     (let a = with_check No_check (artifact_new (ArtifactKey ''large'') []) in
      case receive (test_crates 32) a True (\<lambda>sink.
          bind_eff (map_err Io (write_all sink (as_bytes ''123456''))) (\<lambda>_.
            throw (Mirror ''failed transfer'') :: unit option sink_action)) (demo_world\<lparr>budget := 10\<rparr>) of
        (first, w1) \<Rightarrow> \<not> is_ok first \<and> budget w1 = 4
          \<and> (case receive (test_crates 32) a True (\<lambda>sink.
                bind_eff (map_err Io (write_all sink (as_bytes ''789''))) (\<lambda>_.
                handle (write_all sink (as_bytes ''xx'')) (\<lambda>r.
                  if is_ok r then ret (Some ()) else throw (Mirror ''wrapped write failure'')))) w1 of
               (second, w2) \<Rightarrow> rejected_with is_transfer_limit second \<and> budget w2 = 1
                 \<and> children w2 [''tmp''] = []
                 \<and> same_result (fst (blob_bytes w2)) 0
                 \<and> (case fst (receive (test_crates 32) a False (\<lambda>sink.
                       bind_eff (map_err Io (write_all sink (replicate 32 0))) (\<lambda>_. ret (Some ()))) w2) of
                      Inr (Some ((_, _, n), _)) \<Rightarrow> n = 32
                    | _ \<Rightarrow> False)))"

definition local_hits_obey_fill_limit_but_normal_get_does_not_evict :: bool where
  "local_hits_obey_fill_limit_but_normal_get_does_not_evict \<longleftrightarrow>
     (let a = with_check No_check (artifact_new (ArtifactKey ''existing'') []); ds = local_store (Some 0) in
      case import_file (test_crates 7) a (Some (as_bytes ''payload'')) demo_world of
        (Inl _, _) \<Rightarrow> False
      | (Inr path, w1) \<Rightarrow>
          (case get_limited (test_crates 7) ds a 6 w1 of
             (over, w2) \<Rightarrow> rejected_with is_transfer_limit over
               \<and> (case get (test_crates 7) ds a w2 of
                    (again, w3) \<Rightarrow> same_result again path \<and> file_at w3 path \<noteq> None)))"

lemma cumulative_streaming_limit_covers_unknown_sizes_retries_and_wrapped_errors_holds:
  "cumulative_streaming_limit_covers_unknown_sizes_retries_and_wrapped_errors"
  by code_simp

lemma local_hits_obey_fill_limit_but_normal_get_does_not_evict_holds:
  "local_hits_obey_fill_limit_but_normal_get_does_not_evict"
  by code_simp

section \<open>URLs\<close>

text \<open>The URLs of the tests as the \<open>url\<close> crate parses them.\<close>

definition test_urls :: "(string \<times> parsed_url) list" where
  "test_urls = map (\<lambda>u. (url_text u, u))
     [(plain_url ''https://user:pw@bucket.s3.amazonaws.com/p/k.bsp?X-Amz-Signature=abc#frag''
         ''https'' ''bucket.s3.amazonaws.com'' ''/p/k.bsp'')
        \<lparr>username := ''user'', password := Some ''pw'', query := Some ''X-Amz-Signature=abc'',
         fragment := Some ''frag''\<rparr>,
      (plain_url ''http://127.0.0.1:8080/a?b=c'' ''http'' ''127.0.0.1'' ''/a'')
        \<lparr>port := Some 8080, query := Some ''b=c''\<rparr>,
      plain_url ''https://archive.test/a'' ''https'' ''archive.test'' ''/a'',
      plain_url ''http://archive.test/a'' ''http'' ''archive.test'' ''/a'',
      plain_url ''https://cdn.test/b'' ''https'' ''cdn.test'' ''/b'',
      plain_url ''http://cdn.test/b'' ''http'' ''cdn.test'' ''/b'',
      (plain_url ''https://u:p@cdn.test/b'' ''https'' ''cdn.test'' ''/b'')
        \<lparr>username := ''u'', password := Some ''p''\<rparr>,
      plain_url ''ftp://cdn.test/b'' ''ftp'' ''cdn.test'' ''/b'',
      (plain_url ''https://user:pw@archive.test/a'' ''https'' ''archive.test'' ''/a'')
        \<lparr>username := ''user'', password := Some ''pw''\<rparr>,
      plain_url ''ftp://archive.test/a'' ''ftp'' ''archive.test'' ''/a'']"

definition url_crates :: crates where
  "url_crates = demo\<lparr>url_parse := (\<lambda>raw. ok_or ''unknown'' (map_of test_urls raw))\<rparr>"

definition sanitize_drops_query_fragment_and_userinfo :: bool where
  "sanitize_drops_query_fragment_and_userinfo \<longleftrightarrow>
     sanitize url_crates ''https://user:pw@bucket.s3.amazonaws.com/p/k.bsp?X-Amz-Signature=abc#frag''
       = ''https://bucket.s3.amazonaws.com/p/k.bsp''
     \<and> sanitize url_crates ''http://127.0.0.1:8080/a?b=c'' = ''http://127.0.0.1:8080/a''"

definition hop_ok :: "string \<Rightarrow> string \<Rightarrow> bool" where
  "hop_ok from target =
     (case (url_parse url_crates from, url_parse url_crates target) of
        (Inr u, Inr v) \<Rightarrow> is_ok (validate_hop url_crates u v)
      | _ \<Rightarrow> False)"

definition redirect_hops_are_revalidated :: bool where
  "redirect_hops_are_revalidated \<longleftrightarrow>
     list_all (is_ok \<circ> url_parse url_crates) (map fst test_urls)
     \<and> hop_ok ''https://archive.test/a'' ''https://cdn.test/b''
     \<and> \<not> hop_ok ''https://archive.test/a'' ''http://cdn.test/b''
     \<and> \<not> hop_ok ''https://archive.test/a'' ''https://u:p@cdn.test/b''
     \<and> \<not> hop_ok ''https://archive.test/a'' ''ftp://cdn.test/b''
     \<and> hop_ok ''http://archive.test/a'' ''http://cdn.test/b''
     \<and> hop_ok ''http://archive.test/a'' ''https://cdn.test/b''"

fun is_config_error :: "datastore_error \<Rightarrow> bool" where
  "is_config_error (Config _) = True"
| "is_config_error _ = False"

definition userinfo_and_non_http_schemes_are_rejected :: bool where
  "userinfo_and_non_http_schemes_are_rejected \<longleftrightarrow>
     rejected_with is_config_error (parse_source_url url_crates ''https://user:pw@archive.test/a'')
     \<and> rejected_with is_config_error (parse_source_url url_crates ''ftp://archive.test/a'')
     \<and> is_ok (parse_source_url url_crates ''https://archive.test/a'')"

lemma sanitize_drops_query_fragment_and_userinfo_holds: "sanitize_drops_query_fragment_and_userinfo"
  by code_simp

lemma redirect_hops_are_revalidated_holds: "redirect_hops_are_revalidated"
  by code_simp

lemma userinfo_and_non_http_schemes_are_rejected_holds: "userinfo_and_non_http_schemes_are_rejected"
  by code_simp

end
