(* ===== verification/Conformance_Config.thy ===== *)
theory Conformance_Config
  imports Conformance_Store Config
begin

text \<open>
  The unit tests of \<open>credential.rs\<close>, \<open>credential_config.rs\<close> and \<open>config.rs\<close>, run on the model.  A
  TOML text of a test is given as what the \<open>toml\<close> crate reads from it: the tables of the credential
  entries, or the configuration.  Assertions about \<open>Debug\<close> output are left out.
\<close>

text \<open>Evaluation of text in ASCII goes by characters, without decoding.\<close>

lemma str_pieces_code [code]:
  "str_pieces s =
     (if is_ascii s then map (\<lambda>c. (code c, [c])) s
      else map (\<lambda>(c, bs). (c, of_bytes bs)) (pieces (as_bytes s)))"
  using str_pieces_ascii [of s] by (simp add: str_pieces_def)

lemma trim_code [code]:
  "trim s =
     (if s \<noteq> [] \<and> is_ascii s \<and> \<not> is_whitespace (code (hd s)) \<and> \<not> is_whitespace (code (last s)) then s
      else concat (map snd (trim_pieces (str_pieces s))))"
proof (cases "s \<noteq> [] \<and> is_ascii s \<and> \<not> is_whitespace (code (hd s)) \<and> \<not> is_whitespace (code (last s))")
  case True
  let ?f = "\<lambda>c. (code c, [c])" and ?P = "\<lambda>p. is_whitespace (fst p)"
  have keep: "dropWhile ?P (map ?f t) = map ?f t" if "t \<noteq> []" "\<not> is_whitespace (code (hd t))" for t
    using that by (cases t) simp_all
  have "trim_pieces (map ?f s) = map ?f s"
    using True keep [of s] keep [of "rev s"] by (simp add: trim_pieces_def hd_rev flip: rev_map)
  with True show ?thesis by (simp add: trim_def str_pieces_ascii comp_def)
next
  case False
  then show ?thesis by (simp only: if_False trim_def)
qed

section \<open>Credentials\<close>

definition some_result :: "('e + 'a option) \<Rightarrow> bool" where
  "some_result r = (case r of Inr (Some _) \<Rightarrow> True | _ \<Rightarrow> False)"

definition secrets_and_identities_are_redacted :: bool where
  "secrets_and_identities_are_redacted \<longleftrightarrow>
     (let p = static_provider [(''archive.test'', Basic ''person'' ''sensitive'')] in
      identity_for p ''archive.test'' = Some ''static:archive.test''
      \<and> same_result (credential_for p ''elsewhere.test'') None)"

definition netrc_text :: string where
  "netrc_text =
     ''# comment'' @ [CHR 0x0A] @ ''machine urs.test login person password ''
       @ dq ''`a b'' @ [CHR 0x5C] @ dq ''`c`'' @ [CHR 0x0A]
       @ ''machine other.test login x password y'' @ [CHR 0x0A]"

definition netrc_is_host_specific_and_supports_quoted_values :: bool where
  "netrc_is_host_specific_and_supports_quoted_values \<longleftrightarrow>
     same_result (parse_netrc netrc_text ''urs.test'') (Some (Basic ''person'' (dq ''a b`c'')))
     \<and> same_result (parse_netrc netrc_text ''unknown.test'') None
     \<and> same_result (parse_netrc ''default login user password secret'' ''unknown.test'') None"

definition chain_returns_first_match_and_host_env_name_is_stable :: bool where
  "chain_returns_first_match_and_host_env_name_is_stable \<longleftrightarrow>
     env_variable ''urs.earthdata.nasa.gov'' = ''STARFIELD_TOKEN_URS_EARTHDATA_NASA_GOV''
     \<and> (let chain = chain_provider [static_provider [], static_provider [(''x'', Bearer ''token'' None)]] in
        some_result (credential_for chain ''x'') \<and> identity_for chain ''x'' = Some ''static:x'')"

lemma secrets_and_identities_are_redacted_holds: "secrets_and_identities_are_redacted"
  by code_simp

lemma netrc_is_host_specific_and_supports_quoted_values_holds:
  "netrc_is_host_specific_and_supports_quoted_values"
  by code_simp

lemma chain_returns_first_match_and_host_env_name_is_stable_holds:
  "chain_returns_first_match_and_host_env_name_is_stable"
  by code_simp

section \<open>Credential entries\<close>

text \<open>The entries of the test file, each a map in the order of its keys.\<close>

definition credential_file :: "(string \<times> json) list list" where
  "credential_file =
     [[(''hosts'', J_array [J_string ''urs.earthdata.nasa.gov'', J_string ''LADSWEB.modaps.eosdis.nasa.gov'']),
       (''name'', J_string ''earthdata''), (''type'', J_string ''netrc'')],
      [(''hosts'', J_array [J_string ''archive.stsci.edu'']), (''name'', J_string ''mast''),
       (''type'', J_string ''env''), (''variable'', J_string ''MAST_TOKEN'')],
      [(''hosts'', J_array [J_string ''astrogeology.usgs.gov'']), (''name'', J_string ''usgs''),
       (''password_env'', J_string ''USGS_PW''), (''type'', J_string ''basic''),
       (''username'', J_string ''person'')],
      [(''hosts'', J_array [J_string ''data.example.org'']), (''name'', J_string ''vault''),
       (''reference'', J_string ''op://infra/example/token''), (''type'', J_string ''onepassword'')],
      [(''client_id'', J_string ''abc''), (''extra'', J_object [(''nested'', J_number ''1'')]),
       (''hosts'', J_array [J_string ''oauth.example.org'']), (''name'', J_string ''future''),
       (''scopes'', J_array [J_string ''read'', J_string ''write'']), (''type'', J_string ''oauth2-device'')]]"

text \<open>What serde says of the fields of a known type: the first unknown one, or the one that is missing.\<close>

definition serde_text :: "(string \<times> json) list \<Rightarrow> string" where
  "serde_text t =
     (case List.find (\<lambda>(k, _). k \<notin> {''variable'', ''username'', ''password_env'', ''reference''}) t of
        Some (k, _) \<Rightarrow> ''unknown field `'' @ k @ ''`''
      | None \<Rightarrow> ''missing field `variable`'')"

definition load :: "string + credential_config list" where
  "load = traverse (decode_credential serde_text) credential_file"

definition known_types_decode_and_unknown_types_round_trip_verbatim :: bool where
  "known_types_decode_and_unknown_types_round_trip_verbatim \<longleftrightarrow>
     (case load of
        Inl _ \<Rightarrow> False
      | Inr es \<Rightarrow>
          map cc_source (take 4 es)
            = [Netrc_source, Env_source ''MAST_TOKEN'', Basic_source ''person'' ''USGS_PW'',
               OnePassword_source ''op://infra/example/token'']
          \<and> (case cc_source (es ! 4) of
               Unrecognized (J_object raw) \<Rightarrow>
                 map_of raw ''type'' = Some (J_string ''oauth2-device'')
                 \<and> map_of raw ''client_id'' = Some (J_string ''abc'')
                 \<and> (case map_of raw ''scopes'' of
                      Some (J_array vs) \<Rightarrow> vs ! 1 = J_string ''write'' | _ \<Rightarrow> False)
                 \<and> (case map_of raw ''extra'' of
                      Some (J_object t) \<Rightarrow> map_of t ''nested'' = Some (J_number ''1'') | _ \<Rightarrow> False)
             | _ \<Rightarrow> False)
          \<and> (case traverse encode_credential es of
               Inl _ \<Rightarrow> False
             | Inr tables \<Rightarrow>
                 map_of (tables ! 4) ''type'' = Some (J_string ''oauth2-device'')
                 \<and> map_of (tables ! 4) ''client_id'' = Some (J_string ''abc'')
                 \<and> same_result (traverse (decode_credential serde_text) tables) es))"

definition decode_one :: "(string \<times> json) list \<Rightarrow> string + credential_config" where
  "decode_one t =
     decode_credential serde_text
       (foldl (\<lambda>t (k, v). map_insert k v t) []
          ([(''name'', J_string ''x''), (''hosts'', J_array [J_string ''h''])] @ t))"

definition fails_with :: "(string \<times> json) list \<Rightarrow> string \<Rightarrow> bool" where
  "fails_with t text = rejected_with (\<lambda>e. contains e text) (decode_one t)"

text \<open>A process with no variables set.\<close>

definition bare_process :: process where
  "bare_process = \<lparr>env_var = (\<lambda>_. Not_present), home_os = None, read_text = (\<lambda>_. Inl not_found_error),
     file_mode = (\<lambda>_. Inl not_found_error), run_op = (\<lambda>_. Inl not_found_error), op_feature = False\<rparr>"

definition malformed_known_types_and_literal_secrets_fail_at_load :: bool where
  "malformed_known_types_and_literal_secrets_fail_at_load \<longleftrightarrow>
     fails_with [(''type'', J_string ''env'')] ''missing field `variable`''
     \<and> fails_with [(''type'', J_string ''env''), (''variable'', J_string ''V''), (''extra'', J_number ''1'')]
          ''unknown field `extra`''
     \<and> fails_with [(''type'', J_string ''netrc''), (''login'', J_string ''u'')] ''unknown field `login`''
     \<and> fails_with [(''type'', J_string ''basic''), (''username'', J_string ''u''),
          (''password'', J_string ''hunter2'')] ''password_env''
     \<and> (let t = [(''type'', J_string ''env''), (''variable'', J_string ''V''), (''token'', J_string ''sup3r'')]
        in fails_with t ''token_env'' \<and> \<not> fails_with t ''sup3r'')
     \<and> fails_with [(''type'', J_string ''future''),
          (''issued'', J_object [(''$__toml_private_datetime'', J_string ''2026-09-10T00:00:00Z'')])] ''datetime''
     \<and> (case decode_one [(''type'', J_string ''future''), (''token'', J_string ''opaque'')] of
          Inl _ \<Rightarrow> False
        | Inr e \<Rightarrow> (case cc_source e of Unrecognized _ \<Rightarrow> True | _ \<Rightarrow> False)
            \<and> (case configured_provider bare_process [e] of
                 Inr (p, [s]) \<Rightarrow> sk_kind s = ''future'' \<and> same_result (credential_for p ''h'') None
               | _ \<Rightarrow> False))
     \<and> rejected_with (\<lambda>e. contains e ''`hosts`'') (encode_credential
          \<lparr>cc_name = ''x'', cc_hosts = [''h''], cc_source = Unrecognized (J_object
             [(''hosts'', J_array [J_string ''evil'']), (''type'', J_string ''future'')])\<rparr>)
     \<and> fails_with [(''variable'', J_string ''V'')] ''has no `type`''
     \<and> fails_with [(''type'', J_number ''3'')] ''must be a string''"

lemma known_types_decode_and_unknown_types_round_trip_verbatim_holds:
  "known_types_decode_and_unknown_types_round_trip_verbatim"
  by code_simp

lemma malformed_known_types_and_literal_secrets_fail_at_load_holds:
  "malformed_known_types_and_literal_secrets_fail_at_load"
  by code_simp

definition netrc_for :: "string \<Rightarrow> string list \<Rightarrow> credential_config" where
  "netrc_for name hs = \<lparr>cc_name = name, cc_hosts = hs, cc_source = Netrc_source\<rparr>"

definition invalid_with :: "string \<Rightarrow> credential_config list \<Rightarrow> bool" where
  "invalid_with text es = rejected_with (\<lambda>e. contains (show_error e) text) (validate_entries es)"

definition validation_rejects_bad_names_hosts_and_fields_but_allows_shared_hosts :: bool where
  "validation_rejects_bad_names_hosts_and_fields_but_allows_shared_hosts \<longleftrightarrow>
     invalid_with ''used twice'' [netrc_for ''a'' [''h''], netrc_for ''a'' [''i'']]
     \<and> invalid_with ''lists no hosts'' [netrc_for ''a'' []]
     \<and> invalid_with ''bare hostname'' [netrc_for ''a'' [''https://h'']]
     \<and> invalid_with ''bare hostname'' [netrc_for ''a'' [''h:8080'']]
     \<and> invalid_with ''bare hostname'' [netrc_for ''a'' [''*.h'']]
     \<and> invalid_with ''empty name'' [netrc_for '''' [''h'']]
     \<and> invalid_with ''op://'' [\<lparr>cc_name = ''v'', cc_hosts = [''h''], cc_source = OnePassword_source ''infra/x''\<rparr>]
     \<and> invalid_with ''`variable` is empty'' [\<lparr>cc_name = ''e'', cc_hosts = [''h''], cc_source = Env_source '' ''\<rparr>]
     \<and> is_ok (validate_entries [netrc_for ''a'' [''h''], netrc_for ''b'' [''H'']])
     \<and> rejected_with (\<lambda>e. contains (show_error e) ''claimed by both'' \<and> contains (show_error e) ''same selection'')
          (configured_provider bare_process [netrc_for ''a'' [''h''], netrc_for ''b'' [''H'']])
     \<and> is_ok (configured_provider bare_process [netrc_for ''a'' [''h''], netrc_for ''b'' [''i'']])"

text \<open>What the provider of a list of entries answers, and what it skipped.\<close>

definition ask :: "process \<Rightarrow> credential_config list \<Rightarrow> string \<Rightarrow> datastore_error + credential option" where
  "ask P es h = bind_sum (configured_provider P es) (\<lambda>(p, _). credential_for p h)"

definition ask_identity :: "process \<Rightarrow> credential_config list \<Rightarrow> string \<Rightarrow> datastore_error + string option" where
  "ask_identity P es h = bind_sum (configured_provider P es) (\<lambda>(p, _). Inr (identity_for p h))"

definition skipped_by :: "process \<Rightarrow> credential_config list \<Rightarrow> datastore_error + skipped_credential list" where
  "skipped_by P es = bind_sum (configured_provider P es) (\<lambda>(_, skipped). Inr skipped)"

lemma ask_code [code]:
  "ask P es h =
     bind_sum (validate_entries es) (\<lambda>_. bind_sum (select_entries es []) (\<lambda>(m, _).
       case map_of m (ascii_lowercase h) of None \<Rightarrow> Inr None | Some e \<Rightarrow> entry_credential P e h))"
  "ask_identity P es h =
     bind_sum (validate_entries es) (\<lambda>_. bind_sum (select_entries es []) (\<lambda>(m, _).
       Inr (map_option (\<lambda>e. ''config:'' @ cc_name e) (map_of m (ascii_lowercase h)))))"
  "skipped_by P es =
     bind_sum (validate_entries es) (\<lambda>_. bind_sum (select_entries es []) (\<lambda>(_, skipped). Inr skipped))"
  by (auto simp: ask_def ask_identity_def skipped_by_def configured_provider_def config_provider_def
      bind_sum_def split: sum.splits)

definition unknown_entries_are_skipped_with_a_safe_warning_and_grant_nothing :: bool where
  "unknown_entries_are_skipped_with_a_safe_warning_and_grant_nothing \<longleftrightarrow>
     (case load of
        Inl _ \<Rightarrow> False
      | Inr es \<Rightarrow>
          (case skipped_by bare_process es of
             Inr [s] \<Rightarrow>
               sk_name s = ''future'' \<and> sk_kind s = ''oauth2-device''
               \<and> (let warning = show_skipped s in
                  contains warning (dq ''`future`'') \<and> contains warning ''oauth2-device''
                  \<and> \<not> contains warning ''client_id'' \<and> \<not> contains warning ''abc'')
           | _ \<Rightarrow> False)
          \<and> same_result (ask bare_process es ''oauth.example.org'') None
          \<and> same_result (ask_identity bare_process es ''oauth.example.org'') None
          \<and> is_ok (validate_entries es))"

definition vars :: "(string \<times> string) list \<Rightarrow> process" where
  "vars vs = bare_process\<lparr>env_var := (\<lambda>v. case map_of vs v of Some t \<Rightarrow> Var t | None \<Rightarrow> Not_present)\<rparr>"

definition known_entries_resolve_lazily_by_exact_host :: bool where
  "known_entries_resolve_lazily_by_exact_host \<longleftrightarrow>
     (case load of
        Inl _ \<Rightarrow> False
      | Inr es \<Rightarrow>
          (let es = es[1 := (es ! 1)\<lparr>cc_source := Env_source ''CREDENTIAL_CONFIG_TEST_MAST''\<rparr>];
               P = vars [(''CREDENTIAL_CONFIG_TEST_MAST'', ''mast-token'')] in
           same_result (ask P es ''archive.stsci.edu'') (Some (Bearer ''mast-token'' None))
           \<and> same_result (ask_identity P es ''ARCHIVE.stsci.edu'') (Some ''config:mast'')
           \<and> same_result (ask P es ''nasa.gov'') None
           \<and> same_result (ask P es ''sub.archive.stsci.edu'') None
           \<and> same_result (ask_identity P es ''nasa.gov'') None
           \<and> same_result (ask_identity P es ''ladsweb.modaps.eosdis.nasa.gov'') (Some ''config:earthdata'')))
     \<and> (let es = [\<lparr>cc_name = ''usgs'', cc_hosts = [''astrogeology.usgs.gov''],
            cc_source = Basic_source ''person'' ''CREDENTIAL_CONFIG_TEST_USGS_PW''\<rparr>] in
        rejected_with (\<lambda>e. contains (show_error e) ''CREDENTIAL_CONFIG_TEST_USGS_PW''
             \<and> contains (show_error e) (dq ''`usgs`'')) (ask bare_process es ''astrogeology.usgs.gov'')
        \<and> same_result (ask (vars [(''CREDENTIAL_CONFIG_TEST_USGS_PW'', ''pw'')]) es ''astrogeology.usgs.gov'')
            (Some (Basic ''person'' ''pw'')))"

lemma validation_rejects_bad_names_hosts_and_fields_but_allows_shared_hosts_holds:
  "validation_rejects_bad_names_hosts_and_fields_but_allows_shared_hosts"
  by code_simp

lemma unknown_entries_are_skipped_with_a_safe_warning_and_grant_nothing_holds:
  "unknown_entries_are_skipped_with_a_safe_warning_and_grant_nothing"
  by code_simp

lemma known_entries_resolve_lazily_by_exact_host_holds: "known_entries_resolve_lazily_by_exact_host"
  by code_simp

section \<open>Configuration\<close>

text \<open>
  The surroundings of the tests: no variable is set; the file is what the \<open>toml\<close> crate reads from the
  text of the test.
\<close>

definition test_surroundings :: surroundings where
  "test_surroundings =
     \<lparr>sur_process = bare_process, path_exists = (\<lambda>_. True), canonicalize = Inr,
      toml_read = (\<lambda>_. Inl None), toml_write = (\<lambda>_. None), http_support = True, s3_support = True,
      http_client = True, s3_connect = (\<lambda>_. Inl not_found_error)\<rparr>"

definition config_of :: "datastore_config \<Rightarrow> datastore_error + datastore_config" where
  "config_of cfg = config_from_toml (test_surroundings\<lparr>toml_read := (\<lambda>_. Inr cfg)\<rparr>) []"

definition managed_policy :: cache_policy where
  "managed_policy =
     \<lparr>evict_on_fetch = True, retained_max = 0, fills_max = 2, artifact_max = 16, inflight_max = 32,
      min_free = 20\<rparr>"

definition managed :: "cache_policy \<Rightarrow> datastore_config" where
  "managed p = config_default\<lparr>cfg_cache_dir := Some ''/server/cache'',
     cfg_services := [(''ephemeris'', service_config_default\<lparr>sv_cache := Some p\<rparr>)]\<rparr>"

definition policy_of :: "datastore_config \<Rightarrow> string \<Rightarrow> cache_policy option" where
  "policy_of cfg name = Option.bind (map_of (cfg_services cfg) name) sv_cache"

definition managed_cache_is_explicit_and_rejects_unusable_limits :: bool where
  "managed_cache_is_explicit_and_rejects_unusable_limits \<longleftrightarrow>
     (case config_of (managed managed_policy) of
        Inl _ \<Rightarrow> False
      | Inr cfg \<Rightarrow>
          (case policy_of cfg ''ephemeris'' of
             None \<Rightarrow> False | Some p \<Rightarrow> evict_on_fetch p \<and> retained_max p = 0))
     \<and> \<not> is_ok (config_of ((managed managed_policy)\<lparr>cfg_cache_dir := None\<rparr>))
     \<and> \<not> is_ok (config_of (managed (managed_policy\<lparr>fills_max := 0\<rparr>)))
     \<and> \<not> is_ok (config_of (managed (managed_policy\<lparr>artifact_max := 0\<rparr>)))
     \<and> \<not> is_ok (config_of (managed (managed_policy\<lparr>inflight_max := 8\<rparr>)))
     \<and> (case config_of (managed (managed_policy\<lparr>evict_on_fetch := False\<rparr>)) of
          Inl _ \<Rightarrow> False
        | Inr cfg \<Rightarrow>
            (case policy_of cfg ''ephemeris'' of None \<Rightarrow> False | Some p \<Rightarrow> \<not> evict_on_fetch p))
     \<and> (case config_of (config_default\<lparr>cfg_cache_max := Some 0, cfg_services := [(''ephemeris'',
              service_config_default\<lparr>sv_bind := Some \<lparr>ip = Ipv4 [127, 0, 0, 1], tcp_port = 8080\<rparr>\<rparr>)]\<rparr>) of
          Inl _ \<Rightarrow> False
        | Inr cfg \<Rightarrow> policy_of cfg ''ephemeris'' = None)"

definition booleans_are_lenient_but_explicit :: bool where
  "booleans_are_lenient_but_explicit \<longleftrightarrow>
     list_all (\<lambda>raw. same_result (parse_bool ''X'' raw) True) [''1'', ''true'', ''YES'', ''on'']
     \<and> list_all (\<lambda>raw. same_result (parse_bool ''X'' raw) False) [''0'', ''false'', ''No'', ''off'']
     \<and> \<not> is_ok (parse_bool ''X'' ''maybe'')"

definition mirror_specs_parse :: bool where
  "mirror_specs_parse \<longleftrightarrow>
     same_result (parse_mirror bare_process ''https://ephem.example/'' None)
       (Http_mirror ''https://ephem.example'' False)
     \<and> same_result (parse_mirror bare_process ''s3://bucket/some/prefix/'' (Some ''us-west-2''))
         (S3_mirror ''bucket'' ''some/prefix'' ''us-west-2'' False)
     \<and> \<not> is_ok (parse_mirror bare_process ''ftp://x'' None)
     \<and> \<not> is_ok (parse_mirror bare_process ''s3:///prefix'' None)"

definition env_entry :: "string \<Rightarrow> string \<Rightarrow> credential_config" where
  "env_entry name v = \<lparr>cc_name = name, cc_hosts = [''archive.example.org''], cc_source = Env_source v\<rparr>"

definition selecting :: "string list \<Rightarrow> service_config" where
  "selecting names = service_config_default\<lparr>sv_credentials := Some names\<rparr>"

definition profiles_select_credentials_before_resolving_secrets :: bool where
  "profiles_select_credentials_before_resolving_secrets \<longleftrightarrow>
     (case config_of (config_default\<lparr>
            cfg_credentials := [env_entry ''first'' ''SFD_CONFIG_UNSET_FIRST'',
              env_entry ''second'' ''SFD_CONFIG_UNSET_SECOND''],
            cfg_services := [(''first'', selecting [''first'']), (''second'', selecting [''second''])]\<rparr>) of
        Inl _ \<Rightarrow> False
      | Inr cfg \<Rightarrow>
          is_ok (builder_for_service test_surroundings cfg ''first'')
          \<and> is_ok (builder_for_service test_surroundings cfg ''second'')
          \<and> \<not> is_ok (config_builder test_surroundings cfg)
          \<and> \<not> is_ok (builder_for_service test_surroundings cfg ''missing''))
     \<and> \<not> is_ok (config_of (config_default\<lparr>cfg_services := [(''bad'', selecting [''missing''])]\<rparr>))"

definition config_relative_paths_follow_the_file_location :: bool where
  "config_relative_paths_follow_the_file_location \<longleftrightarrow>
     (let X = test_surroundings\<lparr>
            sur_process := bare_process\<lparr>read_text :=
              (\<lambda>p. if p = ''/tmp/d/config.toml'' then Inr [] else Inl not_found_error)\<rparr>,
            toml_read := (\<lambda>_. Inr (config_default\<lparr>cfg_cache_dir := Some ''cache'',
              cfg_services := [(''one'', service_config_default\<lparr>sv_manifest := Some ''kernels.toml''\<rparr>)]\<rparr>))\<rparr> in
      case config_from_path X ''/tmp/d/config.toml'' of
        Inl _ \<Rightarrow> False
      | Inr cfg \<Rightarrow>
          cfg_cache_dir cfg = Some (path_join ''/tmp/d'' ''cache'')
          \<and> Option.bind (map_of (cfg_services cfg) ''one'') sv_manifest
              = Some (path_join ''/tmp/d'' ''kernels.toml''))"

lemma managed_cache_is_explicit_and_rejects_unusable_limits_holds:
  "managed_cache_is_explicit_and_rejects_unusable_limits"
  by code_simp

lemma booleans_are_lenient_but_explicit_holds: "booleans_are_lenient_but_explicit"
  by code_simp

lemma mirror_specs_parse_holds: "mirror_specs_parse"
  by code_simp

lemma profiles_select_credentials_before_resolving_secrets_holds:
  "profiles_select_credentials_before_resolving_secrets"
  by code_simp

lemma config_relative_paths_follow_the_file_location_holds:
  "config_relative_paths_follow_the_file_location"
  by code_simp

end
