(* ===== verification/Conformance_S3.thy ===== *)
theory Conformance_S3
  imports Conformance_Store S3
begin

text \<open>
  The unit tests of \<open>s3.rs\<close>, run on the model.  The stub answers the calls of the SDK with the replies of
  a script, in order, and records the calls (of a part its number and length); that is what the test's
  socket does below the SDK.  A reply that creates an upload has the upload id as its body, and one that
  refuses a call the error code.
\<close>

section \<open>The stub\<close>

record reply =
  reply_status :: nat
  reply_headers :: "(string \<times> string) list"
  reply_body :: string

datatype recorded =
    Head_call string
  | Get_call string
  | Put_call string metadata bytes precondition
  | Create_call string metadata
  | Part_call nat nat
  | Complete_call "completed_part list" precondition
  | Abort_call

record stub =
  script :: "reply list"
  recorded_calls :: "recorded list"

definition reply_new :: "nat \<Rightarrow> string \<Rightarrow> reply" where
  "reply_new n text = \<lparr>reply_status = n, reply_headers = [], reply_body = text\<rparr>"

definition reply_head :: "mirror_object \<Rightarrow> reply" where
  "reply_head x =
     \<lparr>reply_status = 200,
      reply_headers = [(''Content-Length'', decimal (mo_bytes x)), (''x-amz-meta-sha256'', mo_sha256 x),
        (''x-amz-meta-bytes'', decimal (mo_bytes x)), (''ETag'', dq ''`etag`'')],
      reply_body = []\<rparr>"

text \<open>The next reply: the status of a failed call, or what the SDK makes of the reply.\<close>

definition replying :: "recorded \<Rightarrow> (reply \<Rightarrow> 'a) \<Rightarrow> (stub, s3_failure, 'a) eff" where
  "replying call f s =
     (case script s of
        [] \<Rightarrow> (Inl \<lparr>fail_status = None, fail_code = None\<rparr>, s\<lparr>recorded_calls := recorded_calls s @ [call]\<rparr>)
      | r # rs \<Rightarrow>
          (if reply_status r < 300 then Inr (f r)
           else Inl \<lparr>fail_status = Some (reply_status r),
                     fail_code = (if reply_body r = [] then None else Some (reply_body r))\<rparr>,
           s\<lparr>script := rs, recorded_calls := recorded_calls s @ [call]\<rparr>))"

definition head_of_reply :: "reply \<Rightarrow> head_output" where
  "head_of_reply r =
     (let h = reply_headers r in
      \<lparr>ho_metadata = Some (concat (map (\<lambda>(k, v).
           case strip_prefix ''x-amz-meta-'' k of Some m \<Rightarrow> [(m, v)] | None \<Rightarrow> []) h)),
       ho_length = Some (case Option.bind (map_of h ''Content-Length'') parse_u64 of
           Some n \<Rightarrow> int n | None \<Rightarrow> int (length (reply_body r))),
       ho_etag = map_of h ''ETag''\<rparr>)"

definition part_of_reply :: "reply \<Rightarrow> part_output" where
  "part_of_reply r = \<lparr>po_etag = map_of (reply_headers r) ''ETag'',
     po_crc32 = map_of (reply_headers r) ''x-amz-checksum-crc32''\<rparr>"

definition stub_client :: "stub s3_client" where
  "stub_client =
     \<lparr>head_object = (\<lambda>b k. replying (Head_call (b @ ''/'' @ k)) head_of_reply),
      get_object = (\<lambda>b k. replying (Get_call (b @ ''/'' @ k))
        (\<lambda>r. \<lparr>go_chunks = [as_bytes (reply_body r)], go_fails = False\<rparr>)),
      put_object = (\<lambda>b k m c q. replying (Put_call (b @ ''/'' @ k) m c q) (\<lambda>_. ())),
      create_multipart = (\<lambda>b k m. replying (Create_call (b @ ''/'' @ k) m) (\<lambda>r. Some (reply_body r))),
      upload_part = (\<lambda>b k u n c. replying (Part_call n (length c)) part_of_reply),
      complete_multipart = (\<lambda>b k u ps q. replying (Complete_call ps q) (\<lambda>_. ())),
      abort_multipart = (\<lambda>b k u. replying Abort_call (\<lambda>_. ())),
      presigned = (\<lambda>b k n s. (Inr (''http://127.0.0.1/'' @ b @ ''/'' @ k
        @ ''?X-Amz-Signature=5f&X-Amz-Security-Token=test-session''), s)),
      presignable = (\<lambda>n. n \<le> seconds 604800),
      bare_url = (\<lambda>u. takeWhile (\<lambda>c. c \<noteq> CHR ''?'' \<and> c \<noteq> CHR ''#'') (url_text u))\<rparr>"

definition stub_mirror :: "stub s3_mirror" where
  "stub_mirror = \<lparr>client = stub_client, bucket = ''bucket'', object_prefix = ''prefix''\<rparr>"

definition stub_state :: "reply list \<Rightarrow> stub" where
  "stub_state rs = \<lparr>script = rs, recorded_calls = []\<rparr>"

text \<open>The file of the test and the metadata of its upload.\<close>

definition stub_crates :: crates where
  "stub_crates = (test_crates 4)\<lparr>url_parse := (\<lambda>raw. Inr
     (if raw = ''https://archive.test/data?token=secret''
      then (plain_url raw ''https'' ''archive.test'' ''/data'')\<lparr>query := Some ''token=secret''\<rparr>
      else (plain_url raw ''http'' ''127.0.0.1'' (takeWhile (\<lambda>c. c \<noteq> CHR ''?'') (drop 16 raw)))
        \<lparr>query := Some (drop 1 (dropWhile (\<lambda>c. c \<noteq> CHR ''?'') raw))\<rparr>))\<rparr>"

definition data_world :: world where
  "data_world = set_node [''data''] (File (as_bytes ''data'')) demo_world"

definition data_meta :: mirror_object where
  "data_meta = \<lparr>mo_sha256 = the_digest, mo_bytes = 4, mo_etag = None,
     mo_source = Some ''https://archive.test/data?token=secret'', mo_identity = Some ''static:archive.test'',
     mo_fetched_at = 1\<rparr>"

definition put_data :: "reply list \<Rightarrow> (datastore_error + put_outcome) \<times> recorded list" where
  "put_data rs =
     (case s3_put stub_crates stub_mirror (ArtifactKey ''data'') [''data''] data_meta (data_world, stub_state rs) of
        (r, (_, s)) \<Rightarrow> (r, recorded_calls s))"

section \<open>The tests\<close>

definition conditional_put_streams_and_never_serializes_source_queries :: bool where
  "conditional_put_streams_and_never_serializes_source_queries \<longleftrightarrow>
     (case put_data [reply_new 404 [], reply_new 200 []] of
        (r, [Head_call first, Put_call _ m c q]) \<Rightarrow>
          same_result r Stored_object \<and> first = ''bucket/prefix/data''
          \<and> q = If_none_match_any \<and> map_of m ''source'' = Some ''https://archive.test/data''
          \<and> length c = 4
      | _ \<Rightarrow> False)"

definition race_accepts_matching_object_and_rejects_immutable_conflict :: bool where
  "race_accepts_matching_object_and_rejects_immutable_conflict \<longleftrightarrow>
     same_result (fst (put_data [reply_new 404 [], reply_new 412 ''PreconditionFailed'', reply_head data_meta]))
       Already_present
     \<and> rejected_with (\<lambda>e. contains (show_error e) ''different content'')
         (fst (put_data [reply_head (data_meta\<lparr>mo_sha256 := replicate 64 (CHR ''f'')\<rparr>)]))"

text \<open>The sink is the bytes collected so far.\<close>

definition fetch_data :: "bytes \<times> stub \<Rightarrow> (datastore_error + bool) \<times> bytes \<times> stub" where
  "fetch_data = s3_fetch stub_mirror (ArtifactKey ''data'') on_right (\<lambda>b (acc, s). (Inr (), (acc @ b, s)))"

definition presign_data :: "nat \<Rightarrow> datastore_error + parsed_url" where
  "presign_data n = fst (s3_presign_get stub_crates stub_mirror (ArtifactKey ''data'') (seconds n) (stub_state []))"

definition get_and_presign_use_native_aws_credentials_without_exposing_runtime :: bool where
  "get_and_presign_use_native_aws_credentials_without_exposing_runtime \<longleftrightarrow>
     (case fetch_data ([], stub_state [reply_new 200 ''bytes'', reply_new 404 []]) of (first, (collected, s)) \<Rightarrow>
        same_result first True \<and> collected = as_bytes ''bytes''
        \<and> same_result (fst (fetch_data (collected, s))) False)
     \<and> (case presign_data 300 of
          Inl _ \<Rightarrow> False
        | Inr u \<Rightarrow> url_path u = ''/bucket/prefix/data''
            \<and> (case query u of
                 None \<Rightarrow> False
               | Some q \<Rightarrow> contains q ''X-Amz-Signature='' \<and> contains q ''X-Amz-Security-Token=test-session''))
     \<and> \<not> is_ok (presign_data 1)"

definition explicit_repair_can_recover_missing_metadata_with_etag_precondition :: bool where
  "explicit_repair_can_recover_missing_metadata_with_etag_precondition \<longleftrightarrow>
     (let k = ArtifactKey ''data'';
          damaged = \<lparr>reply_status = 200, reply_headers = [(''ETag'', dq ''`old`'')], reply_body = []\<rparr> in
      case s3_head stub_mirror k (stub_state [damaged, damaged, reply_new 200 []]) of (seen, s) \<Rightarrow>
      case s3_observed_etag stub_mirror k s of
        (Inr (Some etag), s) \<Rightarrow>
          (case s3_replace stub_crates stub_mirror k [''data''] data_meta etag (data_world, s) of (r, (_, s)) \<Rightarrow>
             \<not> is_ok seen \<and> same_result r Stored_object
             \<and> (case recorded_calls s of
                  [_, _, Put_call _ _ _ q] \<Rightarrow> q = If_match (dq ''`old`'')
                | _ \<Rightarrow> False))
      | _ \<Rightarrow> False)"

lemma conditional_put_streams_and_never_serializes_source_queries_holds:
  "conditional_put_streams_and_never_serializes_source_queries"
  by code_simp

lemma race_accepts_matching_object_and_rejects_immutable_conflict_holds:
  "race_accepts_matching_object_and_rejects_immutable_conflict"
  by code_simp

lemma get_and_presign_use_native_aws_credentials_without_exposing_runtime_holds:
  "get_and_presign_use_native_aws_credentials_without_exposing_runtime"
  by code_simp

lemma explicit_repair_can_recover_missing_metadata_with_etag_precondition_holds:
  "explicit_repair_can_recover_missing_metadata_with_etag_precondition"
  by code_simp

section \<open>Large files\<close>

text \<open>A file one byte longer than a part; its content is not looked at.\<close>

definition big_file :: bytes where
  "big_file = replicate (PART_BYTES + 1) 0"

definition big_world :: world where
  "big_world = set_node [''big''] (File big_file) demo_world"

definition big_meta :: mirror_object where
  "big_meta = \<lparr>mo_sha256 = the_digest, mo_bytes = PART_BYTES + 1, mo_etag = None, mo_source = None,
     mo_identity = None, mo_fetched_at = 1\<rparr>"

definition part_reply :: reply where
  "part_reply = \<lparr>reply_status = 200,
     reply_headers = [(''ETag'', dq ''`part`''), (''x-amz-checksum-crc32'', ''AAAAAA=='')], reply_body = []\<rparr>"

definition multipart_upload_conditions_completion_and_aborts_failed_uploads :: bool where
  "multipart_upload_conditions_completion_and_aborts_failed_uploads \<longleftrightarrow>
     (case s3_put stub_crates stub_mirror (ArtifactKey ''big'') [''big''] big_meta
         (big_world, stub_state [reply_new 404 [], reply_new 200 ''upload'', part_reply, part_reply,
            reply_new 400 ''InvalidRequest'', reply_new 204 []]) of
        (r, (_, s)) \<Rightarrow> \<not> is_ok r
          \<and> (case recorded_calls s of
               [_, _, Part_call _ n, Part_call _ m, Complete_call ps q, abort] \<Rightarrow>
                 n = PART_BYTES \<and> m = 1 \<and> q = If_none_match_any
                 \<and> map cp_crc32 ps = [''AAAAAA=='', ''AAAAAA=='']
                 \<and> abort = Abort_call
             | _ \<Rightarrow> False))"

definition multipart_repair_completes_with_part_checksums_and_observed_etag :: bool where
  "multipart_repair_completes_with_part_checksums_and_observed_etag \<longleftrightarrow>
     (case s3_replace stub_crates stub_mirror (ArtifactKey ''big'') [''big''] big_meta (dq ''`old`'')
         (big_world, stub_state [reply_new 200 ''upload'', part_reply, part_reply, reply_new 200 []]) of
        (r, (_, s)) \<Rightarrow> same_result r Stored_object
          \<and> (case recorded_calls s of
               [_, _, _, Complete_call ps q] \<Rightarrow>
                 q = If_match (dq ''`old`'') \<and> map cp_crc32 ps = [''AAAAAA=='', ''AAAAAA=='']
             | _ \<Rightarrow> False))"

lemma big_world_file: "file_at big_world [''big''] = Some big_file" "reliable big_world"
  by (simp_all add: big_world_def file_at_def node_at_set reliable_def)
     (simp_all add: set_node_def demo_world_def)

lemma part_replying:
  "script s = part_reply # rs \<Longrightarrow> replying call part_of_reply s
     = (Inr \<lparr>po_etag = Some (dq ''`part`''), po_crc32 = Some ''AAAAAA==''\<rparr>,
        s\<lparr>script := rs, recorded_calls := recorded_calls s @ [call]\<rparr>)"
  by (simp add: replying_def part_reply_def part_of_reply_def)

lemma big_parts:
  assumes "script s = part_reply # part_reply # rs" "reliable w" "file_at w p = Some big_file"
  shows "upload_parts stub_mirror k p u (Suc PART_BYTES) 0 [] (w, s)
     = (Inr (map (\<lambda>n. \<lparr>cp_number = n, cp_etag = dq ''`part`'', cp_crc32 = ''AAAAAA==''\<rparr>) [1, 2]),
        (next_step (next_step w), s\<lparr>script := rs,
           recorded_calls := recorded_calls s @ [Part_call 1 PART_BYTES, Part_call 2 1]\<rparr>))"
proof -
  have size: "part_size (Suc PART_BYTES) = PART_BYTES" by (simp add: part_size_def PART_BYTES_def)
  have len: "length big_file = Suc PART_BYTES" by (simp add: big_file_def)
  have pos: "1 < PART_BYTES" by (simp add: PART_BYTES_def)
  show ?thesis
    using assms pos
    by (simp add: upload_parts.simps [of _ _ _ _ _ 0] upload_parts.simps [of _ _ _ _ _ PART_BYTES]
        upload_parts.simps [of _ _ _ _ _ "Suc PART_BYTES"] size len Let_def
        on_left_def on_right_def read_part_def send_part_def bind_eff_def map_err_def read_file_reliable
        stub_mirror_def stub_client_def part_replying min_def flip: numeral_2_eq_2)
qed

definition big_metadata :: metadata where
  "big_metadata = [(''sha256'', the_digest), (''bytes'', decimal (PART_BYTES + 1)), (''fetched-at'', decimal 1)]"

lemma stub_service: "client stub_mirror = stub_client" "bucket stub_mirror = ''bucket''"
  by (simp_all add: stub_mirror_def)

lemma stub_functions:
  "head_object stub_client b k = replying (Head_call (b @ ''/'' @ k)) head_of_reply"
  "create_multipart stub_client b k m = replying (Create_call (b @ ''/'' @ k) m) (\<lambda>r. Some (reply_body r))"
  "complete_multipart stub_client b k u ps q = replying (Complete_call ps q) (\<lambda>_. ())"
  "abort_multipart stub_client b k u = replying Abort_call (\<lambda>_. ())"
  by (simp_all add: stub_client_def)

lemma bind_run: "m s = (Inr x, s') \<Longrightarrow> bind_eff m f s = f x s'"
  by (simp add: bind_eff_def)

text \<open>The checks before anything is sent.\<close>

lemma big_checked:
  "\<exists>w. reliable w \<and> file_at w [''big''] = Some big_file
     \<and> s3_write stub_crates stub_mirror k [''big''] big_meta e (big_world, s)
       = bind_eff (if e = None then on_right (s3_head stub_mirror k) else ret None) (\<lambda>existing.
           case existing of
             Some existing \<Rightarrow> of_sum (matching_existing existing big_meta)
           | None \<Rightarrow> multipart stub_mirror k [''big''] big_meta big_metadata e) (w, s)"
proof -
  have len: "length big_file = Suc PART_BYTES" by (simp add: big_file_def)
  have ok: "s3_digest_ok the_digest = Inr ()" by code_simp
  have sha: "sha256 stub_crates big_file = the_digest" by (simp add: stub_crates_def test_crates_def)
  obtain w where w: "digest_file stub_crates (Stored [''big'']) (next_step big_world) = (Inr the_digest, w)"
      "reliable w" "file_at w [''big''] = Some big_file"
    using digest_file_reliable [of "next_step big_world" "Stored [''big'']" big_file stub_crates] big_world_file
    by (auto simp: sha)
  have m: "upload_metadata stub_crates c big_meta = Inr big_metadata" for c :: "stub s3_client"
    by (simp add: upload_metadata_def big_meta_def big_metadata_def)
  have e1: "on_left (map_err Io (file_length [''big''])) (big_world, s) = (Inr (Suc PART_BYTES), (next_step big_world, s))"
    for s :: stub
    using big_world_file len by (simp add: on_left_def map_err_def file_length_reliable)
  have e2: "bind_eff (on_left (map_err Io (digest_file stub_crates (Stored [''big'']))))
      (\<lambda>d. ret (d \<noteq> the_digest)) (next_step big_world, s) = (Inr False, (w, s))" for s :: stub
    using w(1) by (simp add: on_left_def map_err_def bind_eff_def ret_def)
  have meta: "mo_sha256 big_meta = the_digest" "mo_bytes big_meta = Suc PART_BYTES"
    by (simp_all add: big_meta_def)
  show ?thesis
    by (intro exI [of _ w] conjI w(2,3))
       (simp add: s3_write_def meta ok m bind_eff_of_sum bind_run [where m = "on_left m" for m, OF e1]
         bind_run [where m = "bind_eff m g" for m g, OF e2])
qed

lemma replying_Cons:
  "script s = r # rs \<Longrightarrow> replying call f s
     = ((if reply_status r < 300 then Inr (f r)
         else Inl \<lparr>fail_status = Some (reply_status r),
                   fail_code = (if reply_body r = [] then None else Some (reply_body r))\<rparr>),
        s\<lparr>script := rs, recorded_calls := recorded_calls s @ [call]\<rparr>)"
  by (simp add: replying_def)

lemmas stub_calls = on_right_def map_err_def bind_eff_def handle_def ret_def throw_def of_sum_def
  stub_service stub_functions replying_Cons reply_new_def stub_state_def

lemma multipart_upload_conditions_completion_and_aborts_failed_uploads_holds:
  "multipart_upload_conditions_completion_and_aborts_failed_uploads"
proof -
  let ?k = "ArtifactKey ''big''" and ?M = stub_mirror
  let ?script = "[reply_new 404 [], reply_new 200 ''upload'', part_reply, part_reply,
            reply_new 400 ''InvalidRequest'', reply_new 204 []]"
  obtain w where w: "reliable w" "file_at w [''big''] = Some big_file"
    and run: "s3_write stub_crates ?M ?k [''big''] big_meta None (big_world, stub_state ?script)
       = bind_eff (on_right (s3_head ?M ?k)) (\<lambda>existing.
           case existing of
             Some existing \<Rightarrow> of_sum (matching_existing existing big_meta)
           | None \<Rightarrow> multipart ?M ?k [''big''] big_meta big_metadata None) (w, stub_state ?script)"
    using big_checked [of ?k None "stub_state ?script"] by auto
  have meta: "mo_bytes big_meta = Suc PART_BYTES" by (simp add: big_meta_def)
  show ?thesis
    unfolding multipart_upload_conditions_completion_and_aborts_failed_uploads_def s3_put_def run
    using w by (simp add: s3_head_def multipart_def meta big_parts stub_calls the_condition_def)
qed

lemma multipart_repair_completes_with_part_checksums_and_observed_etag_holds:
  "multipart_repair_completes_with_part_checksums_and_observed_etag"
proof -
  let ?k = "ArtifactKey ''big''" and ?M = stub_mirror and ?e = "dq ''`old`''"
  let ?script = "[reply_new 200 ''upload'', part_reply, part_reply, reply_new 200 []]"
  have e: "?e \<noteq> []" by code_simp
  obtain w where w: "reliable w" "file_at w [''big''] = Some big_file"
    and run: "s3_write stub_crates ?M ?k [''big''] big_meta (Some ?e) (big_world, stub_state ?script)
       = multipart ?M ?k [''big''] big_meta big_metadata (Some ?e) (w, stub_state ?script)"
    using big_checked [of ?k "Some ?e" "stub_state ?script"] by (auto simp: bind_eff_def ret_def)
  have meta: "mo_bytes big_meta = Suc PART_BYTES" by (simp add: big_meta_def)
  show ?thesis
    unfolding multipart_repair_completes_with_part_checksums_and_observed_etag_def s3_replace_def
      if_not_P [OF e] run
    using w by (simp add: multipart_def meta big_parts stub_calls the_condition_def same_result_def)
qed

end
