(* ===== verification/Conformance_Server.thy ===== *)
theory Conformance_Server
  imports Conformance_Store S3_Properties Server
begin

text \<open>
  The unit tests of \<open>server/cache.rs\<close> and \<open>server.rs\<close>, run on the model: the requests of the service run
  one after the other, a guard is its limit, and there is enough free space unless a test says
  otherwise.
\<close>

section \<open>The coordinator\<close>

abbreviation crate_fns :: crates where
  "crate_fns \<equiv> test_crates 12"

definition test_policy :: cache_policy where
  "test_policy =
     \<lparr>evict_on_fetch = True, retained_max = 0, fills_max = 2, artifact_max = 16, inflight_max = 32,
      min_free = 0\<rparr>"

definition seed :: "string \<Rightarrow> path action" where
  "seed k = import_file crate_fns (with_check No_check (artifact_new (ArtifactKey k) []))
     (Some (as_bytes ''same payload''))"

definition admit_some :: "cache_policy \<Rightarrow> u64 option \<Rightarrow> coordinator \<Rightarrow> (datastore_error + u64) \<times> coordinator" where
  "admit_some p expected st = admit p False (Inr 1000000) expected st"

definition every_active_fill_protects_shared_blobs_and_stops_replenishment :: bool where
  "every_active_fill_protects_shared_blobs_and_stops_replenishment \<longleftrightarrow>
     (case coordinator_new crate_fns test_policy demo_world of
        (Inr st, w) \<Rightarrow>
          (case admit_some test_policy None st of (a, st) \<Rightarrow>
           case admit_some test_policy None st of (b, st) \<Rightarrow>
           case seed ''first'' w of (path, w) \<Rightarrow>
           case seed ''alias'' w of (other, w) \<Rightarrow>
             is_ok a \<and> is_ok b \<and> is_ok path \<and> other = path
             \<and> \<not> is_ok (fst (admit_some test_policy None st))
             \<and> (case finish crate_fns test_policy None (w, st) of (w, st) \<Rightarrow>
                  list_all (\<lambda>p. file_at w p \<noteq> None) (case path of Inr p \<Rightarrow> [p] | Inl _ \<Rightarrow> [])
                  \<and> \<not> is_ok (fst (admit_some test_policy (Some 1) st))
                  \<and> (case finish crate_fns test_policy None (w, st) of (w, st) \<Rightarrow>
                       list_all (\<lambda>p. file_at w p = None) (case path of Inr p \<Rightarrow> [p] | Inl _ \<Rightarrow> [])
                       \<and> same_result (fst (blob_bytes w)) 0
                       \<and> same_result (fst (entry crate_fns (ArtifactKey ''alias'') w :: (unit + _) \<times> _)) None
                       \<and> is_ok (fst (admit_some test_policy None st)))))
      | _ \<Rightarrow> False)"

definition startup_cleans_blobs_but_leaves_temporary_files :: bool where
  "startup_cleans_blobs_but_leaves_temporary_files \<longleftrightarrow>
     (case seed ''old'' demo_world of
        (Inr path, w) \<Rightarrow>
          (let leftover = [''tmp'', ''leftover''] in
           case coordinator_new crate_fns test_policy
               (set_node leftover (File (as_bytes ''operator-owned crash residue'')) w) of
             (r, w) \<Rightarrow> is_ok r \<and> file_at w path = None \<and> file_at w leftover \<noteq> None)
      | _ \<Rightarrow> False)"

definition byte_reservations_and_headroom_are_independent_of_concurrency :: bool where
  "byte_reservations_and_headroom_are_independent_of_concurrency \<longleftrightarrow>
     (let p = test_policy\<lparr>inflight_max := 20, fills_max := 8\<rparr> in
      is_ok (fst (coordinator_new crate_fns p demo_world))
      \<and> (case admit_some p None coordinator_default of (a, st) \<Rightarrow>
         case admit_some p (Some 4) st of (b, st) \<Rightarrow>
           is_ok a \<and> is_ok b \<and> \<not> is_ok (fst (admit_some p (Some 1) st))
           \<and> rejected_with is_transfer_limit (fst (admit_some p (Some 17) st))))
     \<and> (let p = test_policy\<lparr>min_free := 1000000 + 1024 * 1024 * 1024\<rparr> in
        is_ok (fst (coordinator_new crate_fns p demo_world))
        \<and> rejected_with is_fill_unavailable (fst (admit_some p None coordinator_default)))"

definition panic_releases_fill_and_gc_failure_closes_admission :: bool where
  "panic_releases_fill_and_gc_failure_closes_admission \<longleftrightarrow>
     (case coordinator_new crate_fns test_policy demo_world of
        (Inr st, w) \<Rightarrow>
          (case admit_some test_policy None st of (a, st) \<Rightarrow>
           case seed ''panic'' w of (path, w) \<Rightarrow>
           case finish crate_fns test_policy None (w, st) of (w, st) \<Rightarrow>
             is_ok a \<and> is_ok path \<and> same_result (fst (blob_bytes w)) 0
             \<and> (case admit_some test_policy None st of (b, st) \<Rightarrow>
                  is_ok b
                  \<and> (case finish crate_fns test_policy None
                         (set_node [''index'', ''broken.json''] (File (as_bytes ''not json'')) w, st) of
                       (_, st) \<Rightarrow> rejected_with is_fill_unavailable (fst (admit_some test_policy None st)))))
      | _ \<Rightarrow> False)"

definition retained_budget_uses_unique_blob_bytes :: bool where
  "retained_budget_uses_unique_blob_bytes \<longleftrightarrow>
     (let p = test_policy\<lparr>retained_max := 12\<rparr> in
      case coordinator_new crate_fns p demo_world of
        (Inr st, w) \<Rightarrow>
          (case admit_some p None st of (a, st) \<Rightarrow>
           case seed ''one'' w of (path, w) \<Rightarrow>
           case seed ''two'' w of (other, w) \<Rightarrow>
           case finish crate_fns p None (w, st) of (w, _) \<Rightarrow>
             is_ok a \<and> is_ok path
             \<and> list_all (\<lambda>p. file_at w p \<noteq> None) (case path of Inr p \<Rightarrow> [p] | Inl _ \<Rightarrow> [])
             \<and> same_result (fst (blob_bytes w)) 12)
      | _ \<Rightarrow> False)"

lemma startup_cleans_blobs_but_leaves_temporary_files_holds:
  "startup_cleans_blobs_but_leaves_temporary_files"
  by code_simp

lemma byte_reservations_and_headroom_are_independent_of_concurrency_holds:
  "byte_reservations_and_headroom_are_independent_of_concurrency"
  by code_simp

lemma panic_releases_fill_and_gc_failure_closes_admission_holds:
  "panic_releases_fill_and_gc_failure_closes_admission"
  by code_simp

lemma retained_budget_uses_unique_blob_bytes_holds: "retained_budget_uses_unique_blob_bytes"
  by code_simp

lemma every_active_fill_protects_shared_blobs_and_stops_replenishment_holds:
  "every_active_fill_protects_shared_blobs_and_stops_replenishment"
  by code_simp

section \<open>The service\<close>

text \<open>The bucket of the test, whose presigned URLs are all the same; \<open>mem_count\<close> counts the writes.\<close>

definition fake_mirror :: "memory s3_mirror" where
  "fake_mirror =
     \<lparr>client = memory_client\<lparr>presigned := (\<lambda>b k n s. (Inr ''https://bucket.test/data?signature=temporary'', s))\<rparr>,
      bucket = ''bucket'', object_prefix = []\<rparr>"

definition shared_artifact :: artifact where
  "shared_artifact =
     with_provenance (provenance_default\<lparr>license := ''public-domain''\<rparr>)
       (with_check No_check (artifact_new (ArtifactKey ''archive/data'') []))"

definition shared_service :: "memory service" where
  "shared_service =
     \<lparr>srv_manifest = [shared_artifact],
      srv_store = \<lparr>ds_mirror = None, ds_provider = None, allow_upstream = False, offline = True, ds_max_bytes = None\<rparr>,
      srv_mirror = fake_mirror, srv_policy = None\<rparr>"

text \<open>One request that runs alone.\<close>

definition answer :: "string \<Rightarrow> world \<times> memory \<Rightarrow> http_response \<times> world \<times> memory" where
  "answer raw = (\<lambda>(w, s).
     case route shared_service raw of
       Queued a \<Rightarrow>
         (case head_section (test_crates 4) shared_service a s of (r, s) \<Rightarrow>
          case after_head (\<lambda>_. True) a r of
            Missed a \<Rightarrow>
              (case fill_section (test_crates 4) shared_service a None (w, s) of (r, ws) \<Rightarrow>
                 (respond_with (\<lambda>_. True) (Inr r), ws))
          | Answered response \<Rightarrow> (response, (w, s))
          | _ \<Rightarrow> (text_response 500 [], (w, s)))
     | Answered response \<Rightarrow> (response, (w, s))
     | _ \<Rightarrow> (text_response 500 [], (w, s)))"

definition redirects_to_the_bucket :: "http_response \<Rightarrow> bool" where
  "redirects_to_the_bucket r \<longleftrightarrow>
     hr_status r = 302
     \<and> map_of (hr_headers r) ''x-artifact-bytes'' = Some ''4''
     \<and> map_of (hr_headers r) ''cache-control'' = Some ''no-store''
     \<and> map_of (hr_headers r) ''location'' = Some ''https://bucket.test/data?signature=temporary''"

definition miss_uploads_local_hit_then_redirects_and_unknown_keys_never_fetch :: bool where
  "miss_uploads_local_hit_then_redirects_and_unknown_keys_never_fetch \<longleftrightarrow>
     (case import_file (test_crates 4) shared_artifact (Some (as_bytes ''data'')) demo_world of
        (imported, w) \<Rightarrow>
      case answer ''archive/data'' (w, memory_empty) of (first, ws) \<Rightarrow>
      case answer ''archive/data'' ws of (second, (w, s)) \<Rightarrow>
        is_ok imported \<and> redirects_to_the_bucket first \<and> redirects_to_the_bucket second
        \<and> mem_count s = 1
        \<and> hr_status (fst (answer ''missing'' (w, s))) = 404
        \<and> hr_status healthz = 200)"

definition public_bind_and_mismatched_pins_are_rejected :: bool where
  "public_bind_and_mismatched_pins_are_rejected \<longleftrightarrow>
     \<not> private_bind (Ipv4 [0, 0, 0, 0]) \<and> \<not> private_bind (Ipv4 [8, 8, 8, 8])
     \<and> private_bind (Ipv4 [100, 101, 102, 103])
     \<and> \<not> is_ok (check_metadata
          (with_check (All_of [Sha256 (replicate 64 (CHR ''a'')), Sha256 (replicate 64 (CHR ''b''))])
            (artifact_new (ArtifactKey ''data'') []))
          \<lparr>mo_sha256 = replicate 64 (CHR ''a''), mo_bytes = 4, mo_etag = None, mo_source = None,
           mo_identity = None, mo_fetched_at = 1\<rparr>)"

lemma miss_uploads_local_hit_then_redirects_and_unknown_keys_never_fetch_holds:
  "miss_uploads_local_hit_then_redirects_and_unknown_keys_never_fetch"
  by code_simp

lemma public_bind_and_mismatched_pins_are_rejected_holds: "public_bind_and_mismatched_pins_are_rejected"
  by code_simp

end
