(* ===== verification/Spec2Isabelle.thy ===== *)
theory Spec2Isabelle
  imports Store_Properties Upkeep_Properties Manifest_Properties Credential_Properties S3_Properties
    Config_Properties Server_Cache_Properties Server_Properties Command_Line_Properties
    Conformance_Manifest Conformance_Config Conformance_S3 Conformance_Server
begin

text \<open>
  A verification development for \<open>starfield-datastore\<close>, a content-addressed cache of large data files
  (ephemerides and the like) that are fetched from a mirror or from the archives that publish them.
  This theory is the root: it imports the development and describes it.

  \<^bold>\<open>The program.\<close>  A \<open>Datastore\<close> resolves an \<open>Artifact\<close> (a key, sources, a content check) to the path of a
  local file.  It asks the local cache, then a mirror (HTTP or S3), then, if permitted, the sources
  themselves; whatever arrives is hashed and checked while it arrives, validated, and published as a
  blob under its SHA-256 digest with a sidecar that records it under its key.  Manifests declare
  artifacts in TOML; configuration comes from a file, the environment and builder calls; credentials
  come from the environment, netrc files, 1Password or configured entries.  A server answers requests
  for artifacts with redirects to presigned URLs of an S3 bucket and fills the bucket from upstream
  when an object is missing; a coordinator bounds its fills and cleans its cache.  The command line
  drives all of it.

  \<^bold>\<open>The theories\<close>, in the order of their imports (files are those of \<open>src/\<close>):

  \<^item> \<open>Prelude\<close>: a function that fails and changes state is a function from the state to a result and the
    next state (\<open>eff\<close>), with \<open>bind_eff\<close>, \<open>handle\<close>, \<open>map_err\<close>; the state reached before an error is kept.
    The locale \<open>frame\<close> has the rules by which a relation between the states before and after is
    carried through a program; \<open>Rust_Std\<close>, \<open>Utf8\<close> and \<open>Text_Std\<close> model what is used of Rust's standard
    library: bytes as 8-bit words, \<open>String\<close> as UTF-8, checked, saturating and wrapping arithmetic on
    \<open>u64\<close>, trimming, splitting, parsing.
  \<^item> \<open>Errors\<close> (\<open>error.rs\<close>), \<open>Keys\<close> and \<open>Artifact\<close> (\<open>artifact.rs\<close>), \<open>Content_Check\<close> (\<open>check.rs\<close>).
  \<^item> \<open>Files\<close>: the world of a store operation: a file tree, the locks held, the requests sent, and an
    environment that decides which system call fails, how much of a write arrives, what the clock
    says and what the network answers (given everything sent before, which covers cookies).
    \<open>Crates\<close>: what is taken from third-party crates, as a record of functions.
  \<^item> \<open>Blob_Index\<close>: the abstract index that the store promises (\<open>index_step\<close>) and the contract between
    layout and store as the locales \<open>blob_index\<close> and \<open>scanned_index\<close>;
    \<open>Layout\<close> (\<open>store/layout.rs\<close>) models the directories, sidecars, blobs and locks and interprets them.
  \<^item> \<open>Receiver\<close> (\<open>Receiver\<close> and \<open>receive\<close> of \<open>store/mod.rs\<close>): the sink of a transfer, with the locale
    \<open>producer\<close> for whatever writes into it; \<open>Fetch\<close> (\<open>fetch.rs\<close>, \<open>mirror/http.rs\<close>): requests, redirects,
    credentials per hop, streaming.
  \<^item> \<open>Store\<close> (\<open>store/mod.rs\<close>): validation, publication, resolution, import, verification, removal,
    garbage collection.  \<open>Store_Invariant\<close>, \<open>Resolution\<close>, \<open>Maintenance\<close>, \<open>Caching\<close> and \<open>Importing\<close> hold its
    lemmas.  \<open>Clients\<close> states what one client of a cache may assume of the others: the locale
    \<open>store_client\<close> asks that a frame contains what happens in a critical section, and is interpreted on
    the safety of the tree and on the sections themselves (\<open>store_section\<close>), so that every operation is
    a sequence of sections.  \<open>Sessions\<close> holds the sequences of operations (\<open>runs\<close>), the interleavings of
    several clients and the waiting for locks (\<open>may_wait\<close>).
  \<^item> \<open>Manifest\<close> (\<open>manifest.rs\<close>), \<open>Credentials\<close> (\<open>credential.rs\<close>), \<open>Credential_Config\<close>
    (\<open>credential_config.rs\<close>), \<open>Config\<close> (\<open>config.rs\<close>, the builder of \<open>store/mod.rs\<close>, \<open>mirror/mod.rs\<close>).
  \<^item> \<open>S3\<close> (\<open>s3.rs\<close>), with \<open>S3_Writes\<close> for what a write may do to the objects of a bucket.
  \<^item> \<open>Server_Cache\<close> (\<open>server/cache.rs\<close>): admission, maintenance and the drop of a guard, with the runs of
    the coordinator (\<open>coordinator_step\<close>).
  \<^item> \<open>Server\<close> (\<open>server.rs\<close>): each request is a state machine over the sections the handler has between its
    awaits; \<open>server_step\<close> interleaves any number of them with failures and panics.
  \<^item> \<open>Command_Line\<close> (\<open>bin/starfield-datastore.rs\<close>): every command, on a machine of cache, bucket, files and
    printed lines; \<open>Command_Line_Proofs\<close> and \<open>Command_Line_Checks\<close> hold its lemmas.
  \<^item> \<open>Example\<close> and the first parts of the \<open>_Properties\<close> theories: instances of the parameters on which the
    properties are applied.
  \<^item> The \<open>Conformance\<close> theories are the unit tests of the repository, stated of the model: each
    test function is a definition with the steps of the test, and a theorem that evaluates it to true.
    \<open>Conformance_Store\<close> holds the tests of keys, checks, layout, store and fetching, \<open>Conformance_Config\<close>
    those of configuration and credentials, \<open>Conformance_Manifest\<close>, \<open>Conformance_S3\<close> and
    \<open>Conformance_Server\<close> those of the files they are named after.  Third-party code is
    instantiated by small test functions there (a test digest, the document a TOML text stands for).

  \<^bold>\<open>What is shown.\<close>  The properties stand in the \<open>_Properties\<close> theories, each with a text that states it.

  \<^item> Store: any sequence of operations, with any failures, refines the abstract index, so entries keep
    their blobs, and so do the critical sections of any number of clients in any interleaving; locks are
    taken in order, so that clients that wait for locks never wait for each other in a circle; what \<open>get\<close> returns is admissible; what is sent, and with which credential;
    limits hold; imports are served locally; \<open>verify\<close>, \<open>remove\<close> and the checks do exactly what they
    promise.
  \<^item> Manifests: reading and writing round-trip, operations keep manifests well formed, pinning adds
    exactly a pin.
  \<^item> S3: a put never overwrites, a replacement changes only what was observed, what was put is what
    \<open>head\<close> reports, parts make up the file.
  \<^item> Configuration and credentials: precedence, permission to go upstream, selection, codecs, netrc.
  \<^item> Server: answers are justified, the bucket is never overwritten, work is bounded, every request is
    answered (a measure that every step but an arrival lowers), reservations add up, maintenance
    meets the budget and never leaves the coordinator waiting.
  \<^item> Command line: what \<open>mirror\<close> leaves in bucket and manifest, what the two verifications establish,
    and under which conditions the server starts.

  \<^bold>\<open>Hypotheses.\<close>  What third-party code does is a parameter with its documented behaviour as a named
  hypothesis: \<open>sound_crates\<close> (digests are 64 hex digits, a sidecar that is written reads back as
  written), \<open>toml_ok\<close> (the same of TOML documents), \<open>service_ok\<close> (what the S3 service does with objects and
  conditions), \<open>mirror_ok\<close> (a mirror only writes to the sink it is given).  SHA-256 is not assumed
  injective; where content matters the properties name the collision.  \<open>clear\<close> says that the tree is a
  tree and that the system answers whether a path is a file or a directory; \<open>unseen_index_loses_blobs\<close>
  shows what happens when it does not.

  \<^bold>\<open>Bounds.\<close>  Walking the index recurses at most as deep as the longest path of the tree (\<open>depth\<close>), which
  \<open>walk_complete\<close> shows to be enough.  Redirects count down from the source's own limit of ten hops, the
  attempts of a put and the parts of an upload from the limits in \<open>s3.rs\<close>, the nesting of checks from
  the 32 levels in \<open>manifest.rs\<close>; running out is the error the code returns.  Other recursions are
  structural or have a measure.  Sizes are naturals that stand for \<open>u64\<close>, with the code's checked,
  saturating or wrapping operation at each place, so that overflow is a branch of the model.

  \<^bold>\<open>Not modelled.\<close>  Debug formatting, progress bars, the duration of an outcome and the erasing of secrets
  from memory, which do not affect results; the HTTP framework, the asynchronous runtime, signals and
  the parsing of command line arguments, which are third-party code; interleaving inside a critical section, which
  the store lock excludes (the system's advisory locks are taken at their word).  Steps of different clients
  are interleaved between the sections.  The tests whose subject is a real server, thread or clock have no
  counterpart in the \<open>Conformance\<close> theories.  The bucket a command works on and a bucket the store reads as its mirror are
  separate states.
\<close>

end
